(* ===== verification/Base.thy ===== *)
theory Base
  imports Main "HOL-Library.Char_ord" "HOL-Library.List_Lexorder" "HOL-Library.AList" "HOL-Library.Sublist"
begin

text \<open>
  The prelude of the development: results with errors as values, the parts of Go's
  \<open>strings\<close> and \<open>path\<close> packages that the components use, and the interface of a
  consumer of a byte stream that arrives in chunks of any size.

  A Go \<open>string\<close> is a list of bytes, as HOL's \<open>string = char list\<close> is. Go orders
  strings bytewise, which is the lexicographic order of \<open>List_Lexorder\<close> over \<open>Char_ord\<close>.
\<close>

section \<open>Collections of hints\<close>

named_theorems go_string "equations of the modelled string functions"
named_theorems go_error "case analysis of results that may be an error"

section \<open>Results: the error or the value\<close>

text \<open>A Go function that returns \<open>(value, error)\<close> returns \<open>Inr value\<close> or \<open>Inl error\<close>.\<close>

definition res_bind :: "'e + 'a \<Rightarrow> ('a \<Rightarrow> 'e + 'b) \<Rightarrow> 'e + 'b" where
  "res_bind r f = (case r of Inl e \<Rightarrow> Inl e | Inr x \<Rightarrow> f x)"

lemma res_bind_simps [simp]:
  "res_bind (Inl e) f = Inl e"
  "res_bind (Inr x) f = f x"
  by (simp_all add: res_bind_def)

lemma res_bind_Inr [go_error]: "res_bind r f = Inr y \<longleftrightarrow> (\<exists>x. r = Inr x \<and> f x = Inr y)"
  by (cases r) auto

lemma res_bind_Inl [go_error]: "res_bind r f = Inl e \<longleftrightarrow> r = Inl e \<or> (\<exists>x. r = Inr x \<and> f x = Inl e)"
  by (cases r) auto

lemma res_bind_cong [fundef_cong]:
  "r = r' \<Longrightarrow> (\<And>x. r' = Inr x \<Longrightarrow> f x = g x) \<Longrightarrow> res_bind r f = res_bind r' g"
  by (cases r') auto

text \<open>A guard that returns an error early.\<close>

definition require :: "bool \<Rightarrow> 'e \<Rightarrow> 'e + unit" where
  "require b e = (if b then Inr () else Inl e)"

lemma require_simps [simp]:
  "require True e = Inr ()"
  "require False e = Inl e"
  "require b e = Inr u \<longleftrightarrow> b"
  "require b e = Inl e' \<longleftrightarrow> \<not> b \<and> e' = e"
  by (auto simp: require_def)

section \<open>Go strings\<close>

text \<open>\<open>strings.HasPrefix\<close>, \<open>TrimPrefix\<close>, \<open>HasSuffix\<close>, \<open>TrimSuffix\<close>.\<close>

definition has_prefix :: "string \<Rightarrow> string \<Rightarrow> bool" where
  "has_prefix s p \<longleftrightarrow> take (length p) s = p"

definition trim_prefix :: "string \<Rightarrow> string \<Rightarrow> string" where
  "trim_prefix s p = (if has_prefix s p then drop (length p) s else s)"

definition has_suffix :: "string \<Rightarrow> string \<Rightarrow> bool" where
  "has_suffix s p \<longleftrightarrow> length p \<le> length s \<and> drop (length s - length p) s = p"

definition trim_suffix :: "string \<Rightarrow> string \<Rightarrow> string" where
  "trim_suffix s p = (if has_suffix s p then take (length s - length p) s else s)"

lemma has_prefix_iff: "has_prefix s p \<longleftrightarrow> (\<exists>t. s = p @ t)"
proof
  assume "has_prefix s p"
  then have "s = p @ drop (length p) s"
    by (metis append_take_drop_id has_prefix_def)
  then show "\<exists>t. s = p @ t" ..
qed (auto simp: has_prefix_def)

lemma has_prefix_prefix: "has_prefix s p \<longleftrightarrow> prefix p s"
  by (simp add: has_prefix_iff prefix_def)

lemma has_prefix_append [simp]: "has_prefix (p @ t) p"
  by (auto simp: has_prefix_iff)

lemma trim_prefix_append [simp]: "trim_prefix (p @ t) p = t"
  by (simp add: trim_prefix_def)

lemma has_suffix_iff: "has_suffix s p \<longleftrightarrow> (\<exists>t. s = t @ p)"
proof
  assume "has_suffix s p"
  then have "s = take (length s - length p) s @ p"
    by (metis append_take_drop_id has_suffix_def)
  then show "\<exists>t. s = t @ p" ..
qed (auto simp: has_suffix_def)

text \<open>\<open>strings.Split\<close> with a separator of one character, and \<open>strings.Join\<close>.\<close>

fun split_on :: "char \<Rightarrow> string \<Rightarrow> string list" where
  "split_on c [] = [[]]"
| "split_on c (x # xs) =
     (if x = c then [] # split_on c xs
      else (case split_on c xs of [] \<Rightarrow> [[x]] | y # ys \<Rightarrow> (x # y) # ys))"

fun join_with :: "string \<Rightarrow> string list \<Rightarrow> string" where
  "join_with sep [] = []"
| "join_with sep [x] = x"
| "join_with sep (x # y # ys) = x @ sep @ join_with sep (y # ys)"

lemma split_on_not_Nil [simp]: "split_on c s \<noteq> []"
  by (induction s) (auto split: list.splits)

lemma split_on_no_sep: "c \<notin> set s \<Longrightarrow> split_on c s = [s]"
  by (induction s) auto

lemma split_on_append: "c \<notin> set s \<Longrightarrow> split_on c (s @ c # t) = s # split_on c t"
  by (induction s) auto

lemma split_on_parts: "x \<in> set (split_on c s) \<Longrightarrow> c \<notin> set x"
proof (induction s arbitrary: x)
  case (Cons a s)
  then show ?case
    by (cases "split_on c s") (auto split: if_splits)
qed simp

lemma split_join:
  assumes "xs \<noteq> []" and "\<And>x. x \<in> set xs \<Longrightarrow> c \<notin> set x"
  shows "split_on c (join_with [c] xs) = xs"
  using assms
proof (induction xs rule: induct_list012)
  case (3 x y zs)
  then show ?case by (simp add: split_on_append)
qed (simp_all add: split_on_no_sep)

lemma join_split: "join_with [c] (split_on c s) = s"
proof (induction s)
  case (Cons a s)
  show ?case
  proof (cases "split_on c s")
    case Nil
    then show ?thesis by simp
  next
    case (Cons y ys)
    with \<open>join_with [c] (split_on c s) = s\<close> show ?thesis
      by (cases ys) auto
  qed
qed simp

lemma join_with_append:
  "xs \<noteq> [] \<Longrightarrow> ys \<noteq> [] \<Longrightarrow> join_with sep (xs @ ys) = join_with sep xs @ sep @ join_with sep ys"
proof (induction xs rule: induct_list012)
  case (2 x)
  then show ?case by (cases ys) auto
qed auto

text \<open>
  \<open>strings.TrimSpace\<close>: the white space of Unicode, each character as its UTF-8 bytes. No
  encoding is a proper suffix of another, so cutting encodings off the end is what decoding
  backwards does.
\<close>

definition space_forms :: "string list" where
  "space_forms =
     map (\<lambda>c. [c]) [CHR 0x20, CHR 0x09, CHR 0x0A, CHR 0x0B, CHR 0x0C, CHR 0x0D] @
     [[CHR 0xC2, CHR 0x85], [CHR 0xC2, CHR 0xA0], [CHR 0xE1, CHR 0x9A, CHR 0x80]] @
     map (\<lambda>c. [CHR 0xE2, CHR 0x80, c])
       [CHR 0x80, CHR 0x81, CHR 0x82, CHR 0x83, CHR 0x84, CHR 0x85, CHR 0x86, CHR 0x87, CHR 0x88,
        CHR 0x89, CHR 0x8A, CHR 0xA8, CHR 0xA9, CHR 0xAF] @
     [[CHR 0xE2, CHR 0x81, CHR 0x9F], [CHR 0xE3, CHR 0x80, CHR 0x80]]"

function drop_forms :: "string list \<Rightarrow> string \<Rightarrow> string" where
  "drop_forms forms s =
     (case find (\<lambda>f. f \<noteq> [] \<and> has_prefix s f) forms of
        None \<Rightarrow> s | Some f \<Rightarrow> drop_forms forms (drop (length f) s))"
  by pat_completeness auto
termination
proof (relation "measure (\<lambda>(_, s). length s)")
  fix forms s and f :: string
  assume "find (\<lambda>f. f \<noteq> [] \<and> has_prefix s f) forms = Some f"
  then have "f \<noteq> []" "has_prefix s f" by (auto simp: find_Some_iff)
  then show "((forms, drop (length f) s), forms, s) \<in> measure (\<lambda>(_, s). length s)"
    by (cases s) (auto simp: has_prefix_def)
qed simp

declare drop_forms.simps [simp del]

definition trim_space :: "string \<Rightarrow> string" where
  "trim_space s = rev (drop_forms (map rev space_forms) (rev (drop_forms space_forms s)))"

text \<open>A visible ASCII character at both ends: nothing is trimmed.\<close>

definition visible :: "char \<Rightarrow> bool" where
  "visible c \<longleftrightarrow> 32 < (of_char c :: nat) \<and> (of_char c :: nat) < 128"

lemma visible_no_form:
  "visible c \<Longrightarrow> f \<in> set space_forms \<Longrightarrow> hd f \<noteq> c \<and> last f \<noteq> c \<and> f \<noteq> []"
  by (auto simp: space_forms_def visible_def)

lemma drop_forms_id: "(\<And>f. f \<in> set forms \<Longrightarrow> f \<noteq> [] \<Longrightarrow> \<not> has_prefix s f) \<Longrightarrow> drop_forms forms s = s"
  by (subst drop_forms.simps) (auto simp: find_None_iff split: option.split dest: find_Some_iff [THEN iffD1])

lemma trim_space_id:
  assumes "s = [] \<or> visible (hd s) \<and> visible (last s)"
  shows "trim_space s = s"
proof -
  have f: "drop_forms space_forms s = s"
  proof (rule drop_forms_id)
    fix f assume f: "f \<in> set space_forms" "f \<noteq> []"
    show "\<not> has_prefix s f"
    proof
      assume "has_prefix s f"
      then have "s \<noteq> [] \<and> hd s = hd f" using f(2) by (cases s; cases f) (auto simp: has_prefix_def)
      then show False using assms visible_no_form [of "hd s" f] f(1) by auto
    qed
  qed
  have r: "drop_forms (map rev space_forms) (rev s) = rev s"
  proof (rule drop_forms_id)
    fix g assume "g \<in> set (map rev space_forms)" "g \<noteq> []"
    then obtain f where f: "f \<in> set space_forms" "g = rev f" "f \<noteq> []" by auto
    show "\<not> has_prefix (rev s) g"
    proof
      assume "has_prefix (rev s) g"
      then have "s \<noteq> [] \<and> last s = last f"
        using f(2,3) by (cases s rule: rev_cases; cases f rule: rev_cases) (auto simp: has_prefix_def)
      then show False using assms visible_no_form [of "last s" f] f(1) by auto
    qed
  qed
  show ?thesis by (simp add: trim_space_def f r)
qed

text \<open>\<open>strings.ToLower\<close> on ASCII text.\<close>

definition to_lower_char :: "char \<Rightarrow> char" where
  "to_lower_char c =
     (if 65 \<le> (of_char c :: nat) \<and> (of_char c :: nat) \<le> 90 then char_of (of_char c + 32 :: nat) else c)"

definition to_lower :: "string \<Rightarrow> string" where
  "to_lower s = map to_lower_char s"

text \<open>Character classes of the regular expressions.\<close>

definition is_digit :: "char \<Rightarrow> bool" where
  "is_digit c \<longleftrightarrow> 48 \<le> (of_char c :: nat) \<and> (of_char c :: nat) \<le> 57"

definition digit_val :: "char \<Rightarrow> nat" where
  "digit_val c = of_char c - 48"

section \<open>Numbers in text\<close>

text \<open>\<open>strconv.Itoa\<close> and its like in a base up to ten, and reading the digits back.\<close>

definition digit_char :: "nat \<Rightarrow> char" where
  "digit_char d = char_of (48 + d)"

fun format_nat :: "nat \<Rightarrow> nat \<Rightarrow> string" where
  "format_nat b n =
     (if n < b \<or> b < 2 then [digit_char n] else format_nat b (n div b) @ [digit_char (n mod b)])"

declare format_nat.simps [simp del]

definition parse_nat :: "nat \<Rightarrow> string \<Rightarrow> nat" where
  "parse_nat b s = foldl (\<lambda>n c. b * n + digit_val c) 0 s"

abbreviation itoa :: "nat \<Rightarrow> string" where
  "itoa \<equiv> format_nat 10"

lemma digit_val_digit_char [simp]: "d < 10 \<Longrightarrow> digit_val (digit_char d) = d"
  by (simp add: digit_val_def digit_char_def)

lemma is_digit_digit_char [simp]: "d < 10 \<Longrightarrow> is_digit (digit_char d)"
  by (simp add: is_digit_def digit_char_def)

lemma parse_nat_snoc [simp]: "parse_nat b (s @ [c]) = b * parse_nat b s + digit_val c"
  by (simp add: parse_nat_def)

lemma parse_nat_Nil [simp]: "parse_nat b [] = 0"
  by (simp add: parse_nat_def)

lemma format_nat_not_Nil [simp]: "format_nat b n \<noteq> []"
  by (subst format_nat.simps) simp

lemma parse_format_nat:
  assumes "2 \<le> b" "b \<le> 10"
  shows "parse_nat b (format_nat b n) = n"
  using assms
proof (induction b n rule: format_nat.induct)
  case (1 b n)
  show ?case
  proof (cases "n < b")
    case True
    with 1 show ?thesis
      by (subst format_nat.simps) (simp add: parse_nat_def)
  next
    case False
    moreover have "n mod b < 10" using 1 by (meson le_trans mod_less_divisor not_le
      order_less_le_trans less_le_trans zero_less_numeral)
    ultimately show ?thesis
      using 1 by (subst format_nat.simps) simp
  qed
qed

lemma format_nat_digits:
  assumes "2 \<le> b" "b \<le> 10" "c \<in> set (format_nat b n)"
  shows "is_digit c" and "digit_val c < b"
proof -
  have "\<forall>c \<in> set (format_nat b n). is_digit c \<and> digit_val c < b"
    using assms(1,2)
  proof (induction b n rule: format_nat.induct)
    case (1 b n)
    have m: "n mod b < b" using 1 by simp
    then have "n mod b < 10" using 1 by linarith
    then have "is_digit (digit_char (n mod b))" and "digit_val (digit_char (n mod b)) < b"
      using m by simp_all
    then show ?case
      using 1 by (subst format_nat.simps) auto
  qed
  with assms(3) show "is_digit c" and "digit_val c < b" by auto
qed

lemma format_nat_length: "2 \<le> b \<Longrightarrow> n < b ^ w \<Longrightarrow> 0 < w \<Longrightarrow> length (format_nat b n) \<le> w"
proof (induction w arbitrary: n)
  case (Suc w)
  show ?case
  proof (cases "n < b")
    case True
    then show ?thesis by (subst format_nat.simps) simp
  next
    case False
    then have "0 < w" using Suc.prems(2) by (cases w) auto
    moreover have "n div b < b ^ w"
      using Suc.prems(1,2) by (simp add: less_mult_imp_div_less mult.commute)
    ultimately show ?thesis using Suc.IH [of "n div b"] Suc.prems(1) by (subst format_nat.simps) simp
  qed
qed simp

lemma format_nat_short: "2 \<le> b \<Longrightarrow> length (format_nat b n) \<le> w \<Longrightarrow> n < b ^ w"
proof (induction w arbitrary: n)
  case (Suc w)
  show ?case
  proof (cases "n < b")
    case True
    also have "b \<le> b ^ Suc w" using Suc.prems(1) by simp
    finally show ?thesis .
  next
    case False
    then have "length (format_nat b (n div b)) \<le> w"
      using Suc.prems by (subst (asm) format_nat.simps) simp
    then have "n div b < b ^ w" using Suc.IH Suc.prems(1) by simp
    then show ?thesis using Suc.prems(1) by (simp add: div_less_iff_less_mult mult.commute)
  qed
qed simp

text \<open>A number with leading zeros up to a width.\<close>

definition pad_nat :: "nat \<Rightarrow> nat \<Rightarrow> nat \<Rightarrow> string" where
  "pad_nat b w n = (let s = format_nat b n in replicate (w - length s) (CHR ''0'') @ s)"

lemma parse_zeros: "parse_nat b (replicate k (CHR ''0'') @ s) = parse_nat b s"
proof (induction k)
  case (Suc k)
  then show ?case by (simp add: parse_nat_def digit_val_def)
qed simp

lemma parse_pad: "2 \<le> b \<Longrightarrow> b \<le> 10 \<Longrightarrow> parse_nat b (pad_nat b w n) = n"
  by (simp add: pad_nat_def Let_def parse_zeros parse_format_nat)

lemma length_pad: "2 \<le> b \<Longrightarrow> n < b ^ w \<Longrightarrow> 0 < w \<Longrightarrow> length (pad_nat b w n) = w"
  using format_nat_length [of b n w] by (simp add: pad_nat_def Let_def)

lemma pad_digits:
  assumes "2 \<le> b" "b \<le> 10" "c \<in> set (pad_nat b w n)"
  shows "is_digit c" and "digit_val c < b"
proof -
  have "c = CHR ''0'' \<or> c \<in> set (format_nat b n)"
    using assms(3) by (auto simp: pad_nat_def Let_def)
  then show "is_digit c" and "digit_val c < b"
    using assms(1) format_nat_digits [OF assms(1,2)] by (auto simp: is_digit_def digit_val_def)
qed

end
