(* ===== verification/GoPath.thy ===== *)
theory GoPath
  imports Base
begin

text \<open>
  Go's lexical path functions: \<open>path.Clean\<close> and \<open>path.Join\<close>, and what a cleaned absolute
  path is: a slash followed by names, none of them empty, \<open>.\<close> or \<open>..\<close>. Every component
  that compares paths compares such strings, so the lemmas here turn string prefixes with a
  slash into prefixes of lists of names.
\<close>

section \<open>Cleaning\<close>

text \<open>One element of the path; the stack of kept elements has its top first.\<close>

fun clean_step :: "bool \<Rightarrow> string list \<Rightarrow> string \<Rightarrow> string list" where
  "clean_step rooted st c =
     (if c = [] \<or> c = ''.'' then st
      else if c = ''..'' then
        (case st of
           [] \<Rightarrow> (if rooted then [] else [''..''])
         | t # ts \<Rightarrow> (if t = ''..'' then ''..'' # t # ts else ts))
      else c # st)"

definition clean_parts :: "bool \<Rightarrow> string list \<Rightarrow> string list" where
  "clean_parts rooted cs = rev (foldl (clean_step rooted) [] cs)"

definition rooted :: "string \<Rightarrow> bool" where
  "rooted p \<longleftrightarrow> (case p of [] \<Rightarrow> False | c # _ \<Rightarrow> c = CHR ''/'')"

definition abs_path :: "string list \<Rightarrow> string" where
  "abs_path parts = ''/'' @ join_with ''/'' parts"

definition path_clean :: "string \<Rightarrow> string" where
  "path_clean p =
     (let parts = clean_parts (rooted p) (split_on (CHR ''/'') p)
      in if rooted p then abs_path parts
         else if parts = [] then ''.'' else join_with ''/'' parts)"

text \<open>\<open>path.Join\<close> of two elements: empty elements are dropped, the rest is joined and cleaned.\<close>

definition path_join :: "string \<Rightarrow> string \<Rightarrow> string" where
  "path_join a b =
     (case filter (\<lambda>x. x \<noteq> []) [a, b] of
        [] \<Rightarrow> []
      | xs \<Rightarrow> path_clean (join_with ''/'' xs))"

section \<open>Names\<close>

definition name_part :: "string \<Rightarrow> bool" where
  "name_part c \<longleftrightarrow> c \<noteq> [] \<and> c \<noteq> ''.'' \<and> c \<noteq> ''..'' \<and> CHR ''/'' \<notin> set c"

lemma clean_step_names:
  "list_all name_part st \<Longrightarrow> CHR ''/'' \<notin> set c \<Longrightarrow> list_all name_part (clean_step True st c)"
  by (auto simp: name_part_def split: list.splits)

lemma foldl_clean_names:
  "list_all name_part st \<Longrightarrow> (\<forall>c \<in> set cs. CHR ''/'' \<notin> set c) \<Longrightarrow>
     list_all name_part (foldl (clean_step True) st cs)"
proof (induction cs arbitrary: st)
  case (Cons c cs)
  then have "list_all name_part (clean_step True st c)"
    using clean_step_names by simp
  then show ?case using Cons by simp
qed simp

lemma clean_parts_names: "list_all name_part (clean_parts True (split_on (CHR ''/'') p))"
  using foldl_clean_names [of "[]" "split_on (CHR ''/'') p"] split_on_parts
  by (auto simp: clean_parts_def list_all_iff)

lemma foldl_clean_id:
  "list_all name_part cs \<Longrightarrow> foldl (clean_step r) st cs = rev cs @ st"
  by (induction cs arbitrary: st) (auto simp: name_part_def)

lemma clean_parts_id [simp]: "list_all name_part cs \<Longrightarrow> clean_parts r cs = cs"
  by (simp add: clean_parts_def foldl_clean_id)

lemma rooted_abs_path [simp]: "rooted (abs_path parts)"
  by (simp add: rooted_def abs_path_def)

lemma split_abs_path:
  assumes "list_all name_part parts"
  shows "split_on (CHR ''/'') (abs_path parts) = (if parts = [] then [[], []] else [] # parts)"
proof (cases "parts = []")
  case False
  have "split_on (CHR ''/'') (join_with ''/'' parts) = parts"
    using assms False by (intro split_join) (auto simp: list_all_iff name_part_def)
  then show ?thesis using False by (simp add: abs_path_def)
qed (simp add: abs_path_def)

lemma clean_parts_Nil [simp]: "clean_parts r ([] # cs) = clean_parts r cs"
  by (simp add: clean_parts_def)

lemma clean_parts_empty [simp]: "clean_parts r [] = []"
  by (simp add: clean_parts_def)

lemma path_clean_abs [simp]:
  assumes "list_all name_part parts"
  shows "path_clean (abs_path parts) = abs_path parts"
  using assms split_abs_path [OF assms] by (simp add: path_clean_def)

text \<open>A rooted path cleans to a slash and names.\<close>

lemma path_clean_rooted:
  assumes "rooted p"
  obtains parts where "path_clean p = abs_path parts" and "list_all name_part parts"
proof
  show "path_clean p = abs_path (clean_parts True (split_on (CHR ''/'') p))"
    using assms by (simp add: path_clean_def Let_def)
  show "list_all name_part (clean_parts True (split_on (CHR ''/'') p))"
    by (rule clean_parts_names)
qed

lemma path_clean_idem: "rooted p \<Longrightarrow> path_clean (path_clean p) = path_clean p"
  by (metis path_clean_abs path_clean_rooted)

lemma rooted_path_clean: "rooted p \<Longrightarrow> rooted (path_clean p)"
  by (metis path_clean_rooted rooted_abs_path)

lemma abs_path_inj:
  assumes "list_all name_part p" "list_all name_part q" "abs_path p = abs_path q"
  shows "p = q"
proof -
  have "(if p = [] then [[], []] else [] # p) = (if q = [] then [[], []] else [] # q)"
    using split_abs_path [OF assms(1)] split_abs_path [OF assms(2)] by (simp only: assms(3))
  then show ?thesis
    using assms(1,2) by (auto simp: name_part_def split: if_splits)
qed

section \<open>Inside a directory\<close>

text \<open>The paths as strings are nested exactly when the lists of names are.\<close>

lemma split_on_append_sep: "split_on c (s @ c # t) = split_on c s @ split_on c t"
proof (induction s)
  case (Cons a s)
  then show ?case
    by (cases "split_on c s") auto
qed simp

lemma abs_path_child:
  assumes "list_all name_part p" "list_all name_part q" "p \<noteq> []"
  shows "has_prefix (abs_path q) (abs_path p @ ''/'') \<longleftrightarrow> strict_prefix p q"
proof
  assume "has_prefix (abs_path q) (abs_path p @ ''/'')"
  then obtain t where "abs_path q = abs_path p @ CHR ''/'' # t"
    by (auto simp: has_prefix_iff)
  then have "split_on (CHR ''/'') (abs_path q) =
      split_on (CHR ''/'') (abs_path p) @ split_on (CHR ''/'') t"
    by (simp add: split_on_append_sep)
  then have *: "[] # p @ split_on (CHR ''/'') t = (if q = [] then [[], []] else [] # q)"
    using assms by (simp add: split_abs_path)
  have "q \<noteq> []"
    using * assms(1,3) by (cases p) (auto simp: name_part_def)
  with * have "q = p @ split_on (CHR ''/'') t" by simp
  then show "strict_prefix p q"
    by (simp add: strict_prefix_def prefix_def)
next
  assume "strict_prefix p q"
  then obtain t where q: "q = p @ t" and "t \<noteq> []"
    by (auto simp: strict_prefix_def prefix_def)
  then have "abs_path q = (abs_path p @ ''/'') @ join_with ''/'' t"
    using assms(3) by (simp add: abs_path_def join_with_append)
  then show "has_prefix (abs_path q) (abs_path p @ ''/'')"
    by (metis has_prefix_append)
qed

lemma join_with_Nil_iff: "join_with sep xs = [] \<longleftrightarrow> xs = [] \<or> xs = [[]] \<or> sep = [] \<and> (\<forall>x \<in> set xs. x = [])"
  by (induction sep xs rule: join_with.induct) auto

lemma abs_path_root: "list_all name_part p \<Longrightarrow> abs_path p = ''/'' \<longleftrightarrow> p = []"
  by (auto simp: abs_path_def join_with_Nil_iff name_part_def)

end
