(* ===== verification/Locks.thy ===== *)
theory Locks
  imports GoPath
begin

text \<open>
  The lock table of \<open>src/internal/locks/locks.go\<close>: keys of servers, Compose projects,
  volumes and host paths, each held by at most one piece of work; path keys conflict with
  their parents and children. Every operation of \<open>Table\<close> runs under its mutex, so an
  execution is a sequence of whole operations. Channels are numbered as they are made, and
  a table records which of them have been closed.
\<close>

section \<open>The table\<close>

type_synonym cancel = nat  \<comment> \<open>a \<open>background func()\<close>, named by a number\<close>
type_synonym chan = nat    \<comment> \<open>a channel, numbered in the order of creation\<close>

record holder =
  background :: "cancel option"

record lock_table =
  active :: "(string \<times> holder) list"
  released :: "chan option"
  drained :: "chan list"
  fences :: int
  closed :: "chan list"
  made :: nat

datatype lock_error =
    Conflict
  | Recovering
  | BackgroundConflict "cancel list"

text \<open>What \<open>acquire\<close> returns: the closure that releases its keys once.\<close>

record lease =
  lease_keys :: "string list"
  fired :: bool

definition new_table :: lock_table where
  "new_table = \<lparr>active = [], released = None, drained = [], fences = 0, closed = [], made = 0\<rparr>"

section \<open>Keys\<close>

definition normalize :: "string \<Rightarrow> string" where
  "normalize key =
     (if has_prefix key ''path:'' then ''path:'' @ path_clean (''/'' @ trim_prefix key ''path:'') else key)"

definition overlaps :: "string \<Rightarrow> string \<Rightarrow> bool" where
  "overlaps left right \<longleftrightarrow>
     left = right \<or>
     has_prefix left ''path:'' \<and> has_prefix right ''path:'' \<and>
       (left = ''path:/'' \<or> right = ''path:/'' \<or>
        has_prefix left (right @ ''/'') \<or> has_prefix right (left @ ''/''))"

fun collect_keys :: "string list \<Rightarrow> string list \<Rightarrow> string list" where
  "collect_keys ordered [] = ordered"
| "collect_keys ordered (key # keys) =
     (let normalized = normalize key
      in if normalized \<in> set ordered then collect_keys ordered keys
         else collect_keys (ordered @ [normalized]) keys)"

definition ordered_keys :: "string list \<Rightarrow> string list" where
  "ordered_keys keys = sort (collect_keys [] keys)"

section \<open>Operations\<close>

text \<open>\<open>Fence\<close> returns the closure that lifts it, once; its argument says whether it has run.\<close>

definition fence :: "lock_table \<Rightarrow> lock_table \<times> bool" where
  "fence t = (t\<lparr>fences := fences t + 1\<rparr>, False)"

definition lift_fence :: "lock_table \<Rightarrow> bool \<Rightarrow> lock_table \<times> bool" where
  "lift_fence t lifted = (if lifted then (t, True) else (t\<lparr>fences := fences t - 1\<rparr>, True))"

text \<open>The holders of held keys that overlap a wanted key, in the order of the map.\<close>

definition conflicts :: "lock_table \<Rightarrow> string list \<Rightarrow> holder list" where
  "conflicts t ordered =
     map snd (filter (\<lambda>(held, owner). \<exists>key \<in> set ordered. overlaps key held) (active t))"

fun cancels_of :: "holder list \<Rightarrow> cancel list \<Rightarrow> lock_error" where
  "cancels_of [] cancels = BackgroundConflict cancels"
| "cancels_of (owner # owners) cancels =
     (case background owner of
        None \<Rightarrow> Conflict
      | Some c \<Rightarrow> cancels_of owners (cancels @ [c]))"

definition acquire_keys ::
    "lock_table \<Rightarrow> string list \<Rightarrow> cancel option \<Rightarrow> bool \<Rightarrow> lock_table \<times> (lock_error + lease)" where
  "acquire_keys t keys bg recovering =
     (let ordered = ordered_keys keys
      in if fences t > 0 \<and> \<not> recovering then (t, Inl Recovering)
         else if conflicts t ordered \<noteq> [] then (t, Inl (cancels_of (conflicts t ordered) []))
         else (t\<lparr>active := foldl (\<lambda>m key. AList.update key \<lparr>background = bg\<rparr> m) (active t) ordered\<rparr>,
               Inr \<lparr>lease_keys = ordered, fired = False\<rparr>))"

definition acquire :: "lock_table \<Rightarrow> string list \<Rightarrow> cancel option \<Rightarrow> lock_table \<times> (lock_error + lease)" where
  "acquire t keys bg = acquire_keys t keys bg False"

definition acquire_for_recovery :: "lock_table \<Rightarrow> string list \<Rightarrow> lock_table \<times> (lock_error + lease)" where
  "acquire_for_recovery t keys = acquire_keys t keys None True"

text \<open>The release closure: its body runs once.\<close>

definition signal_release :: "lock_table \<Rightarrow> lock_table" where
  "signal_release t =
     (case released t of None \<Rightarrow> t | Some c \<Rightarrow> t\<lparr>closed := c # closed t, released := None\<rparr>)"

definition signal_drained :: "lock_table \<Rightarrow> lock_table" where
  "signal_drained t =
     (if active t = [] then t\<lparr>closed := drained t @ closed t, drained := []\<rparr> else t)"

definition release :: "lock_table \<Rightarrow> lease \<Rightarrow> lock_table \<times> lease" where
  "release t l =
     (if fired l then (t, l)
      else (signal_drained (signal_release
              (t\<lparr>active := foldl (\<lambda>m key. AList.delete key m) (active t) (lease_keys l)\<rparr>)),
            l\<lparr>fired := True\<rparr>))"

definition next_release :: "lock_table \<Rightarrow> lock_table \<times> chan" where
  "next_release t =
     (case released t of
        None \<Rightarrow> (t\<lparr>released := Some (made t), made := made t + 1\<rparr>, made t)
      | Some c \<Rightarrow> (t, c))"

definition server_busy :: "lock_table \<Rightarrow> string \<Rightarrow> bool" where
  "server_busy t sid =
     (case map_of (active t) (''server:'' @ sid) of
        None \<Rightarrow> False
      | Some owner \<Rightarrow> background owner = None)"

definition drained_chan :: "lock_table \<Rightarrow> lock_table \<times> chan" where
  "drained_chan t =
     (let done = made t; t' = t\<lparr>made := made t + 1\<rparr>
      in if active t = [] then (t'\<lparr>closed := done # closed t'\<rparr>, done)
         else (t'\<lparr>drained := drained t' @ [done]\<rparr>, done))"

text \<open>
  \<open>AcquirePreempting\<close>: register for the next release, try, and on a background conflict
  cancel the holders and wait. What ends each wait is the environment's choice: a release
  after which other work has left the table as it is now, the deadline, or the caller's
  context. The result is the table, the cancels called in order, and the outcome; \<open>None\<close>
  is a wait that has not ended.
\<close>

datatype wait_end = ReleasedTo lock_table | Deadline | CtxDone

fun acquire_preempting ::
    "lock_table \<Rightarrow> string list \<Rightarrow> cancel option \<Rightarrow> wait_end list \<Rightarrow>
       lock_table \<times> cancel list \<times> (lock_error + lease) option" where
  "acquire_preempting t keys bg waits =
     (let (t1, chan) = next_release t
      in (case acquire t1 keys bg of
            (t2, Inl (BackgroundConflict cs)) \<Rightarrow>
              (case waits of
                 [] \<Rightarrow> (t2, cs, None)
               | ReleasedTo t3 # rest \<Rightarrow>
                   (let (t4, cs', r) = acquire_preempting t3 keys bg rest in (t4, cs @ cs', r))
               | _ # rest \<Rightarrow> (t2, cs, Some (Inl Conflict)))
          | (t2, r) \<Rightarrow> (t2, [], Some r)))"

declare acquire_preempting.simps [simp del]

section \<open>Keys: lemmas\<close>

definition path_key :: "string list \<Rightarrow> string" where
  "path_key parts = ''path:'' @ abs_path parts"

lemma normalize_path_key:
  assumes "has_prefix key ''path:''"
  obtains parts where "normalize key = path_key parts" and "list_all name_part parts"
proof -
  have "rooted (''/'' @ trim_prefix key ''path:'')" by (simp add: rooted_def)
  from path_clean_rooted [OF this] obtain parts
    where "path_clean (''/'' @ trim_prefix key ''path:'') = abs_path parts" "list_all name_part parts"
    by blast
  then show thesis
    using assms that by (simp add: normalize_def path_key_def)
qed

lemma has_prefix_path_key [simp]: "has_prefix (path_key parts) ''path:''"
  by (simp add: path_key_def has_prefix_def)

lemma overlaps_refl [simp]: "overlaps k k"
  by (simp add: overlaps_def)

lemma overlaps_sym: "overlaps k k' \<longleftrightarrow> overlaps k' k"
  by (auto simp: overlaps_def)

lemma path_key_child:
  "has_prefix (path_key q) (path_key p @ ''/'') \<longleftrightarrow> has_prefix (abs_path q) (abs_path p @ ''/'')"
  by (auto simp: path_key_def has_prefix_iff)

lemma path_key_root: "list_all name_part p \<Longrightarrow> path_key p = ''path:/'' \<longleftrightarrow> p = []"
  using abs_path_root [of p] by (simp add: path_key_def)

lemma path_key_inj:
  "list_all name_part p \<Longrightarrow> list_all name_part q \<Longrightarrow> path_key p = path_key q \<longleftrightarrow> p = q"
  using abs_path_inj [of p q] by (auto simp: path_key_def)

text \<open>Path keys conflict exactly when one directory is the other or lies above it.\<close>

lemma overlaps_path_key:
  assumes p: "list_all name_part p" and q: "list_all name_part q"
  shows "overlaps (path_key p) (path_key q) \<longleftrightarrow> prefix p q \<or> prefix q p"
proof (cases "p = [] \<or> q = []")
  case True
  then show ?thesis
    using path_key_root [OF p] path_key_root [OF q] by (auto simp: overlaps_def)
next
  case False
  then show ?thesis
    using abs_path_child [OF p q] abs_path_child [OF q p] path_key_inj [OF p q]
      path_key_root [OF p] path_key_root [OF q]
    by (auto simp: overlaps_def path_key_child prefix_order.le_less)
qed

lemma collect_keys_set: "set (collect_keys ordered keys) = set ordered \<union> normalize ` set keys"
  by (induction ordered keys rule: collect_keys.induct) (auto simp: Let_def)

lemma collect_keys_distinct: "distinct ordered \<Longrightarrow> distinct (collect_keys ordered keys)"
  by (induction ordered keys rule: collect_keys.induct) (auto simp: Let_def)

lemma ordered_keys_set [simp]: "set (ordered_keys keys) = normalize ` set keys"
  by (simp add: ordered_keys_def collect_keys_set)

lemma ordered_keys_distinct [simp]: "distinct (ordered_keys keys)"
  by (simp add: ordered_keys_def collect_keys_distinct)

section \<open>Operations: lemmas\<close>

definition held :: "lock_table \<Rightarrow> string set" where
  "held t = fst ` set (active t)"

lemma map_of_update_all:
  "map_of (foldl (\<lambda>m key. AList.update key h m) al ks) k = (if k \<in> set ks then Some h else map_of al k)"
  by (induction ks arbitrary: al) (auto simp: update_conv')

lemma update_not_Nil [simp]: "AList.update k v al \<noteq> []"
  by (cases al) auto

lemma update_all_Nil: "foldl (\<lambda>m key. AList.update key h m) al ks = [] \<longleftrightarrow> al = [] \<and> ks = []"
  by (induction ks arbitrary: al) auto

lemma distinct_update_all:
  "distinct (map fst al) \<Longrightarrow> distinct (map fst (foldl (\<lambda>m key. AList.update key h m) al ks))"
  by (induction ks arbitrary: al) (auto simp: distinct_update)

lemma map_of_delete_all:
  "map_of (foldl (\<lambda>m key. AList.delete key m) al ks) k = (if k \<in> set ks then None else map_of al k)"
  by (induction ks arbitrary: al) (auto simp: delete_conv')

lemma distinct_delete_all:
  "distinct (map fst al) \<Longrightarrow> distinct (map fst (foldl (\<lambda>m key. AList.delete key m) al ks))"
  by (induction ks arbitrary: al) (auto simp: distinct_delete)

lemma held_map_of: "held t = dom (map_of (active t))"
  by (simp add: held_def dom_map_of_conv_image_fst)

lemma conflicts_Nil: "conflicts t ks = [] \<longleftrightarrow> (\<forall>k \<in> set ks. \<forall>h \<in> held t. \<not> overlaps k h)"
  by (force simp: conflicts_def held_def filter_empty_conv)

lemma cancels_of_Conflict: "cancels_of os cs = Conflict \<longleftrightarrow> (\<exists>o1 \<in> set os. background o1 = None)"
  by (induction os cs rule: cancels_of.induct) (auto split: option.splits)

lemma cancels_of_Background:
  "cancels_of os cs = BackgroundConflict ds \<longleftrightarrow>
     (\<forall>o1 \<in> set os. background o1 \<noteq> None) \<and> ds = cs @ map (the \<circ> background) os"
  by (induction os cs rule: cancels_of.induct) (auto split: option.splits)

lemma cancels_of_not_Recovering [simp]: "cancels_of os cs \<noteq> Recovering"
  by (induction os cs rule: cancels_of.induct) (auto split: option.splits)

lemmas acquire_defs = acquire_def acquire_for_recovery_def acquire_keys_def Let_def

lemma signal_simps [simp]:
  "active (signal_release t) = active t" "active (signal_drained t) = active t"
  "fences (signal_release t) = fences t" "fences (signal_drained t) = fences t"
  "drained (signal_release t) = drained t" "released (signal_drained t) = released t"
  by (auto simp: signal_release_def signal_drained_def split: option.splits)

lemma held_acquire:
  "acquire_keys t keys bg r = (t', Inr l) \<Longrightarrow> held t' = held t \<union> normalize ` set keys"
  by (auto simp: acquire_defs held_map_of map_of_update_all dom_def split: if_splits)

lemma held_release: "\<not> fired l \<Longrightarrow> held (fst (release t l)) = held t - set (lease_keys l)"
  by (auto simp: release_def held_map_of map_of_delete_all dom_def split: if_splits)

lemma next_release_simps [simp]:
  "active (fst (next_release t)) = active t" "fences (fst (next_release t)) = fences t"
  "drained (fst (next_release t)) = drained t" "closed (fst (next_release t)) = closed t"
  "released (fst (next_release t)) = Some (snd (next_release t))"
  by (auto simp: next_release_def split: option.splits)

lemma drained_chan_simps [simp]:
  "active (fst (drained_chan t)) = active t" "fences (fst (drained_chan t)) = fences t"
  "released (fst (drained_chan t)) = released t"
  by (auto simp: drained_chan_def Let_def)

section \<open>Executions\<close>

text \<open>
  All the work of the process shares one table. An execution is a sequence of whole
  operations, by any number of goroutines in any order; each lease and each lift closure
  keeps its own \<open>sync.Once\<close>. Every lease is listed with the holder it was made with.
\<close>

record lock_sys =
  tab :: lock_table
  leases :: "(lease \<times> holder) list"
  lifts :: "bool list"

datatype lock_event =
    EAcquire "string list" "cancel option"
  | ERecover "string list"
  | ERelease nat
  | EFence
  | ELift nat
  | ENextRelease
  | EDrained

definition grant :: "lock_sys \<Rightarrow> cancel option \<Rightarrow> lock_table \<times> (lock_error + lease) \<Rightarrow> lock_sys" where
  "grant s bg r =
     (case r of
        (t, Inl e) \<Rightarrow> s\<lparr>tab := t\<rparr>
      | (t, Inr l) \<Rightarrow> s\<lparr>tab := t, leases := leases s @ [(l, \<lparr>background = bg\<rparr>)]\<rparr>)"

fun lock_step :: "lock_sys \<Rightarrow> lock_event \<Rightarrow> lock_sys" where
  "lock_step s (EAcquire keys bg) = grant s bg (acquire (tab s) keys bg)"
| "lock_step s (ERecover keys) = grant s None (acquire_for_recovery (tab s) keys)"
| "lock_step s (ERelease i) =
     (if i < length (leases s)
      then (let (t, l) = release (tab s) (fst (leases s ! i))
            in s\<lparr>tab := t, leases := (leases s)[i := (l, snd (leases s ! i))]\<rparr>)
      else s)"
| "lock_step s EFence = (let (t, b) = fence (tab s) in s\<lparr>tab := t, lifts := lifts s @ [b]\<rparr>)"
| "lock_step s (ELift i) =
     (if i < length (lifts s)
      then (let (t, b) = lift_fence (tab s) (lifts s ! i) in s\<lparr>tab := t, lifts := (lifts s)[i := b]\<rparr>)
      else s)"
| "lock_step s ENextRelease = s\<lparr>tab := fst (next_release (tab s))\<rparr>"
| "lock_step s EDrained = s\<lparr>tab := fst (drained_chan (tab s))\<rparr>"

definition init_locks :: lock_sys where
  "init_locks = \<lparr>tab = new_table, leases = [], lifts = []\<rparr>"

fun lock_run :: "lock_sys \<Rightarrow> lock_event list \<Rightarrow> lock_sys" where
  "lock_run s [] = s"
| "lock_run s (e # es) = lock_run (lock_step s e) es"

text \<open>Lease \<open>i\<close> still holds its keys.\<close>

definition outstanding :: "lock_sys \<Rightarrow> nat \<Rightarrow> bool" where
  "outstanding s i \<longleftrightarrow> i < length (leases s) \<and> \<not> fired (fst (leases s ! i))"

abbreviation keys_of :: "lock_sys \<Rightarrow> nat \<Rightarrow> string set" where
  "keys_of s i \<equiv> set (lease_keys (fst (leases s ! i)))"

definition holds_exactly :: "lock_sys \<Rightarrow> bool" where
  "holds_exactly s \<longleftrightarrow>
     (\<forall>k h. map_of (active (tab s)) k = Some h \<longleftrightarrow>
        (\<exists>i. outstanding s i \<and> k \<in> keys_of s i \<and> snd (leases s ! i) = h))"

definition no_clash :: "lock_sys \<Rightarrow> bool" where
  "no_clash s \<longleftrightarrow>
     (\<forall>i j. outstanding s i \<longrightarrow> outstanding s j \<longrightarrow> i \<noteq> j \<longrightarrow>
        (\<forall>k \<in> keys_of s i. \<forall>k' \<in> keys_of s j. \<not> overlaps k k'))"

definition lock_inv :: "lock_sys \<Rightarrow> bool" where
  "lock_inv s \<longleftrightarrow>
     holds_exactly s \<and> no_clash s \<and>
     (active (tab s) = [] \<longrightarrow> drained (tab s) = []) \<and>
     fences (tab s) = int (length (filter Not (lifts s)))"

lemma lock_inv_init: "lock_inv init_locks"
  by (simp add: lock_inv_def holds_exactly_def no_clash_def outstanding_def init_locks_def new_table_def)

lemma held_outstanding:
  "holds_exactly s \<Longrightarrow> k \<in> held (tab s) \<longleftrightarrow> (\<exists>i. outstanding s i \<and> k \<in> keys_of s i)"
  unfolding held_map_of dom_def holds_exactly_def by blast

lemma outstanding_append [simp]:
  "outstanding (s\<lparr>tab := t, leases := leases s @ [(l, h)]\<rparr>) i \<longleftrightarrow>
     outstanding s i \<or> i = length (leases s) \<and> \<not> fired l"
  by (auto simp: outstanding_def nth_append less_Suc_eq)

lemma nth_append_lt: "outstanding s i \<Longrightarrow> (leases s @ xs) ! i = leases s ! i"
  by (simp add: outstanding_def nth_append)

lemma outstanding_lt: "outstanding s i \<Longrightarrow> i < length (leases s)"
  by (simp add: outstanding_def)

text \<open>A granted request keeps the invariant.\<close>

lemma grant_inv:
  assumes inv: "lock_inv s"
    and ok: "acquire_keys (tab s) keys bg r = (t, Inr l)"
  shows "lock_inv (s\<lparr>tab := t, leases := leases s @ [(l, \<lparr>background = bg\<rparr>)]\<rparr>)"
    (is "lock_inv ?s'")
proof -
  let ?n = "length (leases s)"
  from ok have t: "map_of (active t) k =
        (if k \<in> normalize ` set keys then Some \<lparr>background = bg\<rparr> else map_of (active (tab s)) k)"
      and l: "set (lease_keys l) = normalize ` set keys" "\<not> fired l"
      and free: "\<forall>k \<in> normalize ` set keys. \<forall>h \<in> held (tab s). \<not> overlaps k h"
      and rest: "fences t = fences (tab s)" "drained t = drained (tab s)"
        "active t = [] \<Longrightarrow> active (tab s) = []" for k
    by (auto simp: acquire_defs map_of_update_all update_all_Nil conflicts_Nil split: if_splits)
  have he: "holds_exactly s" and nc: "no_clash s" using inv by (simp_all add: lock_inv_def)
  have free': "\<not> overlaps k k'" if "k \<in> normalize ` set keys" "outstanding s i" "k' \<in> keys_of s i" for k k' i
    using free that held_outstanding [OF he] by blast
  have "holds_exactly ?s'"
    unfolding holds_exactly_def
  proof (intro allI)
    fix k h
    show "(map_of (active (tab ?s')) k = Some h) =
        (\<exists>i. outstanding ?s' i \<and> k \<in> keys_of ?s' i \<and> snd (leases ?s' ! i) = h)"
    proof (cases "k \<in> normalize ` set keys")
      case True
      then have "\<not> (outstanding s i \<and> k \<in> keys_of s i)" for i
        using free' overlaps_refl by blast
      then show ?thesis
        using True t l by (auto simp: nth_append_lt)
    next
      case False
      then have "map_of (active t) k = map_of (active (tab s)) k" using t by simp
      then show ?thesis
        using False l he unfolding holds_exactly_def
        by (auto simp: nth_append_lt)
    qed
  qed
  moreover have "no_clash ?s'"
    unfolding no_clash_def
  proof (intro allI impI ballI)
    fix i j k k'
    assume a: "outstanding ?s' i" "outstanding ?s' j" "i \<noteq> j" "k \<in> keys_of ?s' i" "k' \<in> keys_of ?s' j"
    consider "outstanding s i" "outstanding s j" | "outstanding s i" "j = ?n" | "i = ?n" "outstanding s j"
      using a by auto
    then show "\<not> overlaps k k'"
    proof cases
      case 1
      then show ?thesis using a nc by (auto simp: no_clash_def nth_append_lt)
    next
      case 2
      then have "k \<in> keys_of s i" "k' \<in> normalize ` set keys" using a l by (auto simp: nth_append_lt)
      then show ?thesis using 2 free' overlaps_sym by blast
    next
      case 3
      then have "k' \<in> keys_of s j" "k \<in> normalize ` set keys" using a l by (auto simp: nth_append_lt)
      then show ?thesis using 3 free' by blast
    qed
  qed
  ultimately show ?thesis
    using inv rest by (simp add: lock_inv_def)
qed

text \<open>Running the release closure of a lease keeps the invariant.\<close>

lemma outstanding_update [simp]:
  "i < length (leases s) \<Longrightarrow>
   outstanding (s\<lparr>tab := t, leases := (leases s)[i := (l, h)]\<rparr>) j \<longleftrightarrow>
     (if j = i then \<not> fired l else outstanding s j)"
  by (auto simp: outstanding_def nth_list_update)

lemma release_drained:
  "\<not> fired l \<Longrightarrow> active (fst (release t l)) = [] \<Longrightarrow> drained (fst (release t l)) = []"
  by (auto simp: release_def signal_drained_def)

lemma release_active: 
  "\<not> fired l \<Longrightarrow> map_of (active (fst (release t l))) k =
     (if k \<in> set (lease_keys l) then None else map_of (active t) k)"
  by (simp add: release_def map_of_delete_all)

lemma release_fences [simp]: "fences (fst (release t l)) = fences t"
  by (simp add: release_def)

lemma release_lease [simp]:
  "fired (snd (release t l))" "lease_keys (snd (release t l)) = lease_keys l"
  by (simp_all add: release_def)

lemma release_inv:
  assumes inv: "lock_inv s" and i: "i < length (leases s)"
  shows "lock_inv (lock_step s (ERelease i))"
proof (cases "fired (fst (leases s ! i))")
  case True
  then have "lock_step s (ERelease i) = s"
    using i by (simp add: release_def list_update_same_conv)
  then show ?thesis using inv by simp
next
  case False
  let ?l = "fst (leases s ! i)"
  let ?r = "release (tab s) ?l"
  let ?s' = "s\<lparr>tab := fst ?r, leases := (leases s)[i := (snd ?r, snd (leases s ! i))]\<rparr>"
  have he: "holds_exactly s" and nc: "no_clash s" using inv by (simp_all add: lock_inv_def)
  have out: "outstanding s i" using False i by (simp add: outstanding_def)
  have disj: "k \<notin> keys_of s i" if "outstanding s j" "j \<noteq> i" "k \<in> keys_of s j" for j k
    using nc out that overlaps_refl unfolding no_clash_def by metis
  have "holds_exactly ?s'"
    unfolding holds_exactly_def
  proof (intro allI)
    fix k h
    have "(map_of (active (tab ?s')) k = Some h) \<longleftrightarrow>
        k \<notin> keys_of s i \<and> (\<exists>j. outstanding s j \<and> k \<in> keys_of s j \<and> snd (leases s ! j) = h)"
      using False he by (simp add: release_active holds_exactly_def)
    also have "\<dots> \<longleftrightarrow> (\<exists>j. j \<noteq> i \<and> outstanding s j \<and> k \<in> keys_of s j \<and> snd (leases s ! j) = h)"
      using disj by metis
    also have "\<dots> \<longleftrightarrow> (\<exists>j. outstanding ?s' j \<and> k \<in> keys_of ?s' j \<and> snd (leases ?s' ! j) = h)"
      using i by (auto simp: nth_list_update)
    finally show "(map_of (active (tab ?s')) k = Some h) =
        (\<exists>j. outstanding ?s' j \<and> k \<in> keys_of ?s' j \<and> snd (leases ?s' ! j) = h)" .
  qed
  moreover have "no_clash ?s'"
    using nc i unfolding no_clash_def by (auto simp: nth_list_update)
  moreover have "active (tab ?s') = [] \<longrightarrow> drained (tab ?s') = []"
    using False by (simp add: release_drained)
  moreover have "lock_step s (ERelease i) = ?s'"
    using i by (simp add: split_def Let_def)
  ultimately show ?thesis
    using inv by (simp add: lock_inv_def)
qed

lemma holds_exactly_frame:
  "active (tab s') = active (tab s) \<Longrightarrow> leases s' = leases s \<Longrightarrow> holds_exactly s' = holds_exactly s"
  by (simp add: holds_exactly_def outstanding_def)

lemma no_clash_frame: "leases s' = leases s \<Longrightarrow> no_clash s' = no_clash s"
  by (simp add: no_clash_def outstanding_def)

lemma lock_inv_frame:
  assumes "lock_inv s" "active (tab s') = active (tab s)" "leases s' = leases s"
    and "active (tab s) = [] \<longrightarrow> drained (tab s') = []"
    and "fences (tab s') = int (length (filter Not (lifts s')))"
  shows "lock_inv s'"
  using assms holds_exactly_frame [of s' s] no_clash_frame [of s' s] by (simp add: lock_inv_def)

lemma filter_Not_update:
  "i < length bs \<Longrightarrow> \<not> bs ! i \<Longrightarrow> length (filter Not bs) = Suc (length (filter Not (bs[i := True])))"
proof (induction bs arbitrary: i)
  case (Cons b bs)
  then show ?case by (cases i) auto
qed simp

lemma update_True_id: "bs ! i \<Longrightarrow> bs[i := True] = bs"
  by (metis list_update_id)

lemma acquire_err_table: "acquire_keys t keys bg r = (t', Inl e) \<Longrightarrow> t' = t"
  by (auto simp: acquire_defs split: if_splits)

lemma lock_step_inv:
  assumes inv: "lock_inv s"
  shows "lock_inv (lock_step s e)"
proof (cases e)
  case (EAcquire keys bg)
  obtain t r where "acquire (tab s) keys bg = (t, r)" by fastforce
  then show ?thesis
    using EAcquire inv
    by (cases r) (auto simp: grant_def acquire_def dest: acquire_err_table grant_inv)
next
  case (ERecover keys)
  obtain t r where "acquire_for_recovery (tab s) keys = (t, r)" by fastforce
  then show ?thesis
    using ERecover inv
    by (cases r) (auto simp: grant_def acquire_for_recovery_def dest: acquire_err_table grant_inv)
next
  case (ERelease i)
  then show ?thesis
    using inv release_inv by (cases "i < length (leases s)") simp_all
next
  case (ELift i)
  then show ?thesis
    using inv filter_Not_update [of i "lifts s"]
    by (auto simp: lock_inv_def lift_fence_def holds_exactly_def no_clash_def outstanding_def
        update_True_id)
next
  case EDrained
  have "active (fst (drained_chan (tab s))) = [] \<Longrightarrow> drained (fst (drained_chan (tab s))) = drained (tab s)"
    by (cases "active (tab s) = []") (simp_all add: drained_chan_def Let_def)
  then show ?thesis
    using EDrained inv by (intro lock_inv_frame [OF inv]) (auto simp: lock_inv_def)
next
  case EFence
  then show ?thesis
    using inv by (intro lock_inv_frame [OF inv]) (auto simp: lock_inv_def fence_def)
next
  case ENextRelease
  then show ?thesis
    using inv by (intro lock_inv_frame [OF inv]) (auto simp: lock_inv_def)
qed

inductive lock_reachable :: "lock_sys \<Rightarrow> bool" where
  start: "lock_reachable init_locks"
| step: "lock_reachable s \<Longrightarrow> lock_reachable (lock_step s e)"

lemma reachable_inv: "lock_reachable s \<Longrightarrow> lock_inv s"
  by (induction rule: lock_reachable.induct) (simp_all add: lock_inv_init lock_step_inv)

lemma run_reachable: "lock_reachable s \<Longrightarrow> lock_reachable (lock_run s es)"
  by (induction es arbitrary: s) (auto intro: lock_reachable.step)

section \<open>Waiters\<close>

text \<open>A waiter's channel, once handed out, is either closed or still going to be.\<close>

definition release_pending :: "chan \<Rightarrow> lock_table \<Rightarrow> bool" where
  "release_pending c t \<longleftrightarrow> c \<in> set (closed t) \<or> released t = Some c"

definition drain_pending :: "chan \<Rightarrow> lock_table \<Rightarrow> bool" where
  "drain_pending c t \<longleftrightarrow> c \<in> set (closed t) \<or> c \<in> set (drained t)"

lemma acquire_keys_frame:
  "closed (fst (acquire_keys t keys bg r)) = closed t"
  "released (fst (acquire_keys t keys bg r)) = released t"
  "drained (fst (acquire_keys t keys bg r)) = drained t"
  by (auto simp: acquire_defs)

lemma tab_grant [simp]: "tab (grant s bg r) = fst r"
  by (auto simp: grant_def split: sum.splits prod.splits)

lemma release_closes:
  assumes "release_pending c t" "\<not> fired l"
  shows "c \<in> set (closed (fst (release t l)))"
  using assms
  by (auto simp: release_pending_def release_def signal_release_def signal_drained_def split: option.splits)

lemma release_mono:
  "release_pending c t \<Longrightarrow> release_pending c (fst (release t l))"
  "drain_pending c t \<Longrightarrow> drain_pending c (fst (release t l))"
  by (auto simp: release_pending_def drain_pending_def release_def signal_release_def signal_drained_def
      split: option.splits)

lemma next_release_mono:
  "release_pending c t \<Longrightarrow> release_pending c (fst (next_release t))"
  "drain_pending c t \<Longrightarrow> drain_pending c (fst (next_release t))"
  by (auto simp: release_pending_def drain_pending_def next_release_def split: option.splits)

lemma drained_chan_mono:
  "release_pending c t \<Longrightarrow> release_pending c (fst (drained_chan t))"
  "drain_pending c t \<Longrightarrow> drain_pending c (fst (drained_chan t))"
  by (auto simp: release_pending_def drain_pending_def drained_chan_def Let_def)

lemma step_mono:
  "release_pending c (tab s) \<Longrightarrow> release_pending c (tab (lock_step s e))"
  "drain_pending c (tab s) \<Longrightarrow> drain_pending c (tab (lock_step s e))"
proof -
  have acq: "release_pending c t \<Longrightarrow> release_pending c (fst (acquire_keys t keys bg r))"
      "drain_pending c t \<Longrightarrow> drain_pending c (fst (acquire_keys t keys bg r))" for t keys bg r
    by (simp_all add: release_pending_def drain_pending_def acquire_keys_frame)
  have lift: "release_pending c t \<Longrightarrow> release_pending c (fst (lift_fence t b))"
      "drain_pending c t \<Longrightarrow> drain_pending c (fst (lift_fence t b))" for t b
    by (simp_all add: release_pending_def drain_pending_def lift_fence_def)
  show "release_pending c (tab s) \<Longrightarrow> release_pending c (tab (lock_step s e))"
    by (cases e) (auto simp: acquire_def acquire_for_recovery_def acq split_def Let_def release_mono
        next_release_mono drained_chan_mono lift fence_def, auto simp: release_pending_def)
  show "drain_pending c (tab s) \<Longrightarrow> drain_pending c (tab (lock_step s e))"
    by (cases e) (auto simp: acquire_def acquire_for_recovery_def acq split_def Let_def release_mono
        next_release_mono drained_chan_mono lift fence_def, auto simp: drain_pending_def)
qed

lemma run_mono:
  "release_pending c (tab s) \<Longrightarrow> release_pending c (tab (lock_run s es))"
  "drain_pending c (tab s) \<Longrightarrow> drain_pending c (tab (lock_run s es))"
  by (induction es arbitrary: s) (auto simp: step_mono)

section \<open>Properties\<close>

definition path_parts :: "string \<Rightarrow> string list" where
  "path_parts p = clean_parts True (split_on (CHR ''/'') p)"

lemma normalize_path: "normalize (''path:'' @ p) = path_key (path_parts p)"
proof -
  have "path_clean (''/'' @ p) = abs_path (path_parts p)"
    by (simp add: path_clean_def rooted_def path_parts_def Let_def)
  then show ?thesis
    unfolding normalize_def path_key_def by (simp only: has_prefix_append trim_prefix_append if_True)
qed

lemma release_outstanding:
  assumes inv: "lock_inv s" and out: "outstanding s i"
  shows "\<not> outstanding (lock_step s (ERelease i)) i"
    and "held (tab (lock_step s (ERelease i))) = held (tab s) - keys_of s i"
proof -
  let ?r = "release (tab s) (fst (leases s ! i))"
  have i: "i < length (leases s)" and f: "\<not> fired (fst (leases s ! i))"
    using out by (simp_all add: outstanding_def)
  have st: "lock_step s (ERelease i) =
      s\<lparr>tab := fst ?r, leases := (leases s)[i := (snd ?r, snd (leases s ! i))]\<rparr>"
    using i by (simp add: split_def Let_def)
  show "\<not> outstanding (lock_step s (ERelease i)) i"
    unfolding st using i by simp
  show "held (tab (lock_step s (ERelease i))) = held (tab s) - keys_of s i"
    unfolding st held_map_of dom_def using f by (auto simp: release_active)
qed

lemma release_again:
  "i < length (leases s) \<Longrightarrow> \<not> outstanding s i \<Longrightarrow> lock_step s (ERelease i) = s"
  by (simp add: outstanding_def release_def list_update_same_conv)

text \<open>
  C1. In every execution, (1) two pieces of work that both still hold their keys never hold
  overlapping keys: not the same server, project or volume, and not two host paths of which
  one lies inside the other; (2) the table holds exactly the keys of the leases granted and
  not yet released, each with the holder it was granted to; (3) the release of such a lease
  ends it and takes its keys, and no other key, out of the table; (4) releasing a lease a
  second time changes nothing.
\<close>

theorem lock_mutual_exclusion:
  assumes "lock_reachable s"
  shows "(\<forall>i j k k'. outstanding s i \<and> outstanding s j \<and> i \<noteq> j \<and> k \<in> keys_of s i \<and> k' \<in> keys_of s j \<longrightarrow>
            \<not> overlaps k k') \<and>
         (\<forall>k h. map_of (active (tab s)) k = Some h \<longleftrightarrow>
            (\<exists>i. outstanding s i \<and> k \<in> keys_of s i \<and> snd (leases s ! i) = h)) \<and>
         (\<forall>i. outstanding s i \<longrightarrow>
            \<not> outstanding (lock_step s (ERelease i)) i \<and>
            held (tab (lock_step s (ERelease i))) = held (tab s) - keys_of s i) \<and>
         (\<forall>i < length (leases s). \<not> outstanding s i \<longrightarrow> lock_step s (ERelease i) = s)"
  using reachable_inv [OF assms] release_outstanding [OF reachable_inv [OF assms]] release_again
  unfolding lock_inv_def no_clash_def holds_exactly_def by blast

lemma lock_mutual_exclusion_witness:
  "\<not> overlaps ''server:a'' ''path:/srv''"
proof -
  obtain s where s_def:
      "s = lock_run init_locks [EAcquire [''server:a''] None, EAcquire [''path:/srv/x/..''] (Some 7)]"
    by blast
  have r: "lock_reachable s"
    unfolding s_def by (rule run_reachable) (rule lock_reachable.start)
  have s: "leases s = [(\<lparr>lease_keys = [''server:a''], fired = False\<rparr>, \<lparr>background = None\<rparr>),
      (\<lparr>lease_keys = [''path:/srv''], fired = False\<rparr>, \<lparr>background = Some 7\<rparr>)]"
    unfolding s_def by code_simp
  have "outstanding s 0" "outstanding s 1" "''server:a'' \<in> keys_of s 0" "''path:/srv'' \<in> keys_of s 1"
    by (simp_all add: outstanding_def s)
  then show ?thesis
    using conjunct1 [OF lock_mutual_exclusion [OF r]] zero_neq_one by blast
qed

text \<open>
  C3. Two path keys conflict exactly when, after cleaning, one directory is the other or one
  of its parents, whatever the spelling of the paths.
\<close>

theorem path_keys_conflict_iff:
  "overlaps (normalize (''path:'' @ p)) (normalize (''path:'' @ q)) \<longleftrightarrow>
     prefix (path_parts p) (path_parts q) \<or> prefix (path_parts q) (path_parts p)"
proof -
  have "list_all name_part (path_parts p)" "list_all name_part (path_parts q)"
    by (simp_all add: path_parts_def clean_parts_names)
  then show ?thesis
    unfolding normalize_path by (rule overlaps_path_key)
qed

definition may_acquire :: "lock_table \<Rightarrow> bool \<Rightarrow> bool" where
  "may_acquire t recovering \<longleftrightarrow> fences t \<le> 0 \<or> recovering"

definition in_the_way :: "lock_table \<Rightarrow> string list \<Rightarrow> (string \<times> holder) set" where
  "in_the_way t keys = {(h, owner) \<in> set (active t). \<exists>k \<in> set keys. overlaps (normalize k) h}"

text \<open>
  C2. \<open>acquire\<close> takes every key or none. A fence refuses it unless it is for recovery. It
  succeeds exactly when no wanted key overlaps a held one; then exactly the wanted keys are
  added. Otherwise the table is unchanged, and the error is the background one exactly when
  every holder in the way is background work, whose cancels it then carries.
\<close>

theorem acquire_all_or_none:
  "case acquire_keys t keys bg recovering of
     (t', Inl Recovering) \<Rightarrow> t' = t \<and> fences t > 0 \<and> \<not> recovering
   | (t', Inl Conflict) \<Rightarrow> t' = t \<and> may_acquire t recovering \<and>
       (\<exists>(h, owner) \<in> in_the_way t keys. background owner = None)
   | (t', Inl (BackgroundConflict cs)) \<Rightarrow> t' = t \<and> may_acquire t recovering \<and>
       in_the_way t keys \<noteq> {} \<and> Some ` set cs = (\<lambda>(h, owner). background owner) ` in_the_way t keys
   | (t', Inr l) \<Rightarrow> may_acquire t recovering \<and> in_the_way t keys = {} \<and>
       held t' = held t \<union> normalize ` set keys \<and> set (lease_keys l) = normalize ` set keys \<and> \<not> fired l"
proof -
  let ?c = "conflicts t (ordered_keys keys)"
  have way: "set ?c = snd ` in_the_way t keys"
    by (auto simp: conflicts_def in_the_way_def)
  have bg: "Some ` set (map (the \<circ> background) ?c) = (\<lambda>(h, owner). background owner) ` in_the_way t keys"
    if "\<forall>o1 \<in> set ?c. background o1 \<noteq> None"
    using that unfolding way by (force simp: image_iff way)
  consider "fences t > 0 \<and> \<not> recovering" | "may_acquire t recovering" "?c = []"
    | "may_acquire t recovering" "?c \<noteq> []"
    unfolding may_acquire_def by (metis not_le)
  then show ?thesis
  proof cases
    case 1
    then show ?thesis by (simp add: acquire_defs)
  next
    case 2
    then obtain l where l: "acquire_keys t keys bg recovering =
        (t\<lparr>active := active (fst (acquire_keys t keys bg recovering))\<rparr>, Inr l)"
        "set (lease_keys l) = normalize ` set keys" "\<not> fired l"
      by (auto simp: acquire_defs may_acquire_def)
    have "in_the_way t keys = {}" using 2 way by simp
    then show ?thesis
      using 2 l held_acquire [OF l(1)] by (auto split: prod.splits)
  next
    case 3
    then have "acquire_keys t keys bg recovering = (t, Inl (cancels_of ?c []))"
      by (auto simp: acquire_defs may_acquire_def)
    moreover have "in_the_way t keys \<noteq> {}" using 3 way by auto
    moreover have "cancels_of ?c [] = Conflict \<Longrightarrow> \<exists>(h, owner) \<in> in_the_way t keys. background owner = None"
      using way by (force simp: cancels_of_Conflict)
    moreover have "Some ` set cs = (\<lambda>(h, owner). background owner) ` in_the_way t keys"
      if "cancels_of ?c [] = BackgroundConflict cs" for cs
      using that bg by (simp add: cancels_of_Background)
    ultimately show ?thesis
      using 3(1) by (cases "cancels_of ?c []") simp_all
  qed
qed

text \<open>
  C4. A waiter that registered for the next release before it tried its keys is woken by the
  next closure that runs, whatever else happens in between: no wake-up is lost.
\<close>

theorem next_release_not_lost:
  assumes "c = snd (next_release (tab s))"
    and "s' = lock_run (lock_step s ENextRelease) es"
    and "outstanding s' i"
  shows "c \<in> set (closed (tab (lock_step s' (ERelease i))))"
proof -
  have "release_pending c (tab (lock_step s ENextRelease))"
    using assms(1) by (simp add: release_pending_def)
  then have "release_pending c (tab s')"
    unfolding assms(2) by (rule run_mono)
  then have "c \<in> set (closed (fst (release (tab s') (fst (leases s' ! i)))))"
    using assms(3) by (intro release_closes) (auto simp: outstanding_def)
  then show ?thesis
    using assms(3) by (simp add: outstanding_def split_def Let_def)
qed

lemma next_release_not_lost_witness:
  "(0::nat) \<in> set (closed (tab (lock_run init_locks
     [EAcquire [''server:a''] None, ENextRelease, EAcquire [''server:b''] None, ERelease 0])))"
proof -
  let ?s = "lock_step init_locks (EAcquire [''server:a''] None)"
  let ?es = "[EAcquire [''server:b''] None]"
  have c: "0 = snd (next_release (tab ?s))" by code_simp
  have o: "outstanding (lock_run (lock_step ?s ENextRelease) ?es) 0"
    unfolding outstanding_def by code_simp
  show ?thesis
    using next_release_not_lost [OF c refl o] by (simp only: lock_run.simps)
qed

text \<open>
  Shutdown waits for the last key: in every execution, once no key is held, every channel
  that \<open>Drained\<close> handed out earlier is closed.
\<close>

theorem drained_when_empty:
  assumes "lock_reachable s" "c = snd (drained_chan (tab s))"
    and "s' = lock_run (lock_step s EDrained) es" "held (tab s') = {}"
  shows "c \<in> set (closed (tab s'))"
proof -
  have "drain_pending c (tab (lock_step s EDrained))"
    using assms(2) by (auto simp: drain_pending_def drained_chan_def Let_def)
  then have "drain_pending c (tab s')"
    unfolding assms(3) by (rule run_mono)
  moreover have "lock_reachable s'"
    unfolding assms(3) by (intro run_reachable lock_reachable.step assms(1))
  then have "lock_inv s'" by (rule reachable_inv)
  ultimately show ?thesis
    using assms(4) by (auto simp: lock_inv_def drain_pending_def held_def)
qed

lemma drained_when_empty_witness:
  "(0::nat) \<in> set (closed (tab (lock_run init_locks [EAcquire [''server:a''] None, EDrained, ERelease 0])))"
proof -
  let ?s = "lock_step init_locks (EAcquire [''server:a''] None)"
  have r: "lock_reachable ?s" by (rule lock_reachable.step [OF lock_reachable.start])
  have c: "0 = snd (drained_chan (tab ?s))" by code_simp
  have h: "held (tab (lock_run (lock_step ?s EDrained) [ERelease 0])) = {}"
    unfolding held_def by code_simp
  show ?thesis
    using drained_when_empty [OF r c refl h] by (simp only: lock_run.simps)
qed

end
