(* ===== verification/Chunks.thy ===== *)
theory Chunks
  imports Base
begin

text \<open>
  The interface of a consumer of a byte stream. The network, Docker and a game server's
  console deliver a stream in chunks whose boundaries mean nothing. A consumer keeps a state,
  takes a chunk with \<open>push\<close> and gives what it can already decide; \<open>flush\<close> is what it gives
  for the held-back rest at the end. \<open>spec\<close> is the whole output for the whole input. The law
  says that a push followed by the specified output of the rest is the specified output of
  both; the lemma is that the chunk boundaries cannot be observed.
\<close>

locale chunked =
  fixes inv :: "'s \<Rightarrow> bool"
    and push :: "'s \<Rightarrow> 'a list \<Rightarrow> 's \<times> 'b list"
    and flush :: "'s \<Rightarrow> 'b list"
    and spec :: "'s \<Rightarrow> 'a list \<Rightarrow> 'b list"
  assumes spec_Nil: "inv s \<Longrightarrow> spec s [] = flush s"
    and inv_push: "inv s \<Longrightarrow> inv (fst (push s xs))"
    and push_spec: "inv s \<Longrightarrow> snd (push s xs) @ spec (fst (push s xs)) ys = spec s (xs @ ys)"

text \<open>Feeding the chunks in order, collecting the outputs.\<close>

fun run_chunks :: "('s \<Rightarrow> 'a list \<Rightarrow> 's \<times> 'b list) \<Rightarrow> 's \<Rightarrow> 'a list list \<Rightarrow> 's \<times> 'b list" where
  "run_chunks f s [] = (s, [])"
| "run_chunks f s (x # xs) =
     (let (s1, out) = f s x; (s2, outs) = run_chunks f s1 xs in (s2, out @ outs))"

context chunked
begin

lemma run_inv: "inv s \<Longrightarrow> inv (fst (run_chunks push s cs))"
proof (induction cs arbitrary: s)
  case (Cons c cs)
  then show ?case
    using inv_push by (fastforce simp: split_def Let_def)
qed simp

lemma run_spec:
  "inv s \<Longrightarrow> snd (run_chunks push s cs) @ flush (fst (run_chunks push s cs)) = spec s (concat cs)"
proof (induction cs arbitrary: s)
  case (Cons c cs)
  have "inv (fst (push s c))" using Cons.prems by (rule inv_push)
  from Cons.IH [OF this] show ?case
    using push_spec [OF Cons.prems, of c "concat cs"] by (simp add: split_def Let_def)
qed (simp add: spec_Nil)

text \<open>Two deliveries of the same bytes give the same output.\<close>

lemma run_chunking_irrelevant:
  assumes "inv s" "concat cs = concat ds"
  shows "snd (run_chunks push s cs) @ flush (fst (run_chunks push s cs)) =
         snd (run_chunks push s ds) @ flush (fst (run_chunks push s ds))"
  using assms by (simp add: run_spec)

end

end
