(* ===== verification/Redact.thy ===== *)
theory Redact
  imports Chunks
begin

text \<open>
  \<open>src/internal/console/redact.go\<close>: the \<open>Redactor\<close> replaces credential values in streamed
  output. It holds back trailing text that could begin a credential split across Docker
  frames. The code searches with cached positions and cuts at a computed limit; the reference
  definition \<open>redact\<close> scans the whole text once. The theorem is that the streamed output is
  the reference output of the whole text for every division into frames.
\<close>

section \<open>The code\<close>

record redactor =
  secrets :: "string list"
  pending :: string

text \<open>\<open>strings.Index\<close>: the first position of a substring.\<close>

fun index_of :: "string \<Rightarrow> string \<Rightarrow> nat option" where
  "index_of [] sub = (if sub = [] then Some 0 else None)"
| "index_of (c # s) sub = (if has_prefix (c # s) sub then Some 0 else map_option Suc (index_of s sub))"

text \<open>\<open>utf8.RuneStart\<close>: not a continuation byte.\<close>

definition rune_start :: "char \<Rightarrow> bool" where
  "rune_start c \<longleftrightarrow> \<not> (128 \<le> (of_char c :: nat) \<and> (of_char c :: nat) < 192)"

definition new_redactor :: "string list \<Rightarrow> redactor" where
  "new_redactor ss = \<lparr>secrets = filter (\<lambda>s. s \<noteq> []) ss, pending = []\<rparr>"

text \<open>The inner loop of \<open>partial\<close>: the length counts down to the longest found so far.\<close>

fun partial_secret :: "string \<Rightarrow> string \<Rightarrow> nat \<Rightarrow> nat \<Rightarrow> nat" where
  "partial_secret p secret 0 longest = longest"
| "partial_secret p secret (Suc n) longest =
     (if longest < Suc n then
        (if has_suffix p (take (Suc n) secret) then Suc n else partial_secret p secret n longest)
      else longest)"

definition partial :: "redactor \<Rightarrow> nat" where
  "partial r =
     foldl (\<lambda>longest secret.
        partial_secret (pending r) secret (min (length secret - 1) (length (pending r))) longest)
       0 (secrets r)"

text \<open>Moving the limit back to the start of a rune.\<close>

fun rune_limit :: "string \<Rightarrow> nat \<Rightarrow> nat" where
  "rune_limit p 0 = 0"
| "rune_limit p (Suc n) =
     (if Suc n < length p \<and> \<not> rune_start (p ! Suc n) then rune_limit p n else Suc n)"

text \<open>
  The inner loop of \<open>emit\<close> over the secrets: it refreshes a cached position that lies before
  the offset, keeps the earliest match before the limit, and stops at a match at the offset.
\<close>

fun find_next ::
    "string \<Rightarrow> nat \<Rightarrow> string list \<Rightarrow> nat option list \<Rightarrow> nat \<Rightarrow> string \<Rightarrow> nat \<times> string \<times> nat option list" where
  "find_next p offset (secret # ss) (pos # ps) nxt matched =
     (let found = (case pos of
                     None \<Rightarrow> None
                   | Some f \<Rightarrow> if f < offset then map_option ((+) offset) (index_of (drop offset p) secret)
                              else Some f)
      in (case found of
            Some f \<Rightarrow>
              if f < nxt then
                if f = offset then (f, secret, found # ps)
                else (let (n, m, ps') = find_next p offset ss ps f secret in (n, m, found # ps'))
              else (let (n, m, ps') = find_next p offset ss ps nxt matched in (n, m, found # ps'))
          | None \<Rightarrow> (let (n, m, ps') = find_next p offset ss ps nxt matched in (n, m, found # ps'))))"
| "find_next p offset _ ps nxt matched = (nxt, matched, ps)"

lemma find_next_ge: "offset \<le> nxt \<Longrightarrow> offset \<le> fst (find_next p offset ss ps nxt matched)"
  by (induction p offset ss ps nxt matched rule: find_next.induct)
     (auto simp: Let_def split_def not_less split: option.splits)

text \<open>The outer loop of \<open>emit\<close>: the text written and the offset reached.\<close>

function emit_loop :: "string \<Rightarrow> string list \<Rightarrow> nat \<Rightarrow> nat option list \<Rightarrow> nat \<Rightarrow> string \<times> nat" where
  "emit_loop p ss limit ps offset =
     (if offset < limit then
        (let (nxt, matched, ps') = find_next p offset ss ps limit []
         in if matched = [] then (drop offset (take nxt p), nxt)
            else (let (safe, stop) = emit_loop p ss limit ps' (nxt + length matched)
                  in (drop offset (take nxt p) @ ''[redacted]'' @ safe, stop)))
      else ([], offset))"
  by pat_completeness auto
termination
proof (relation "measure (\<lambda>(p, ss, limit, ps, offset). limit - offset)", goal_cases)
  case (2 p ss limit ps offset x nxt y matched ps')
  then have "offset \<le> nxt"
    using find_next_ge [of offset limit p ss ps "[]"] by (metis fst_conv less_imp_le)
  then show ?case using 2 by (cases matched) auto
qed simp

declare emit_loop.simps [simp del]

definition emit :: "redactor \<Rightarrow> bool \<Rightarrow> redactor \<times> string" where
  "emit r final =
     (let p = pending r;
          limit = (if final then length p else rune_limit p (length p - partial r))
      in if limit = 0 then (r, [])
         else (let (safe, offset) = emit_loop p (secrets r) limit (map (index_of p) (secrets r)) 0
               in (r\<lparr>pending := drop offset p\<rparr>, safe)))"

definition push :: "redactor \<Rightarrow> string \<Rightarrow> redactor \<times> string" where
  "push r value = emit (r\<lparr>pending := pending r @ value\<rparr>) False"

definition end_redactor :: "redactor \<Rightarrow> redactor \<times> string" where
  "end_redactor r = emit r True"

section \<open>The reference definition\<close>

text \<open>At each position the first secret of the list that begins there is replaced.\<close>

fun redact :: "string list \<Rightarrow> string \<Rightarrow> string" where
  "redact ss [] = []"
| "redact ss (c # s) =
     (case find (has_prefix (c # s)) ss of
        None \<Rightarrow> c # redact ss s
      | Some secret \<Rightarrow> ''[redacted]'' @ redact ss (drop (length secret - 1) s))"

text \<open>Whether a secret begins at a position of the text.\<close>

definition at :: "string \<Rightarrow> string \<Rightarrow> nat \<Rightarrow> bool" where
  "at p secret i \<longleftrightarrow> has_prefix (drop i p) secret"

definition match_at :: "string list \<Rightarrow> string \<Rightarrow> nat \<Rightarrow> string option" where
  "match_at ss p i = find (has_prefix (drop i p)) ss"

lemma match_at_None: "match_at ss p i = None \<longleftrightarrow> (\<forall>secret \<in> set ss. \<not> at p secret i)"
  by (auto simp: match_at_def at_def find_None_iff)

lemma redact_skip:
  "(\<forall>k < n. match_at ss p (i + k) = None) \<Longrightarrow> i + n \<le> length p \<Longrightarrow>
     redact ss (drop i p) = take n (drop i p) @ redact ss (drop (i + n) p)"
proof (induction n arbitrary: i)
  case (Suc n)
  then have "i < length p" by simp
  then have d: "drop i p = p ! i # drop (Suc i) p" by (simp add: Cons_nth_drop_Suc)
  have "match_at ss p i = None" using Suc.prems(1) [rule_format, of 0] by simp
  then have "redact ss (drop i p) = p ! i # redact ss (drop (Suc i) p)"
    by (simp add: match_at_def d)
  moreover have "redact ss (drop (Suc i) p) =
      take n (drop (Suc i) p) @ redact ss (drop (Suc i + n) p)"
  proof (rule Suc.IH)
    show "\<forall>k<n. match_at ss p (Suc i + k) = None"
      using Suc.prems(1) by (metis Suc_less_eq add_Suc_shift)
  qed (use Suc.prems in simp)
  ultimately show ?case
    by (simp add: d)
qed simp

lemma redact_match:
  "match_at ss p i = Some secret \<Longrightarrow> secret \<noteq> [] \<Longrightarrow> i < length p \<Longrightarrow>
     redact ss (drop i p) = ''[redacted]'' @ redact ss (drop (i + length secret) p)"
proof -
  assume m: "match_at ss p i = Some secret" and "secret \<noteq> []" and "i < length p"
  then have d: "drop i p = p ! i # drop (Suc i) p" by (simp add: Cons_nth_drop_Suc)
  have "Suc i + (length secret - 1) = i + length secret"
    using \<open>secret \<noteq> []\<close> by (cases secret) auto
  then have "drop (length secret - 1) (drop (Suc i) p) = drop (i + length secret) p"
    by (metis drop_drop add.commute)
  then show "redact ss (drop i p) = ''[redacted]'' @ redact ss (drop (i + length secret) p)"
    using m by (simp add: match_at_def d)
qed

section \<open>The cached search\<close>

lemma index_of_Some: "index_of s sub = Some i \<Longrightarrow> at s sub i \<and> (\<forall>j < i. \<not> at s sub j)"
proof (induction s sub arbitrary: i rule: index_of.induct)
  case (2 c s sub)
  show ?case
  proof (cases "has_prefix (c # s) sub")
    case False
    then obtain k where "index_of s sub = Some k" "i = Suc k" using 2 by auto
    then show ?thesis
      using 2(1) [OF False] False by (auto simp: at_def less_Suc_eq_0_disj)
  qed (use 2 in \<open>simp add: at_def\<close>)
qed (auto simp: at_def has_prefix_def split: if_splits)

lemma index_of_None: "index_of s sub = None \<Longrightarrow> \<not> at s sub i"
proof (induction s sub arbitrary: i rule: index_of.induct)
  case (2 c s sub)
  then show ?case
    by (cases i) (auto simp: at_def split: if_splits)
qed (auto simp: at_def has_prefix_def split: if_splits)

lemma at_drop: "at (drop k p) secret i = at p secret (k + i)"
  by (simp add: at_def add.commute)

text \<open>A cached position is right: nothing lies between the offset and it, or it is stale.\<close>

definition cached :: "string \<Rightarrow> nat \<Rightarrow> string \<Rightarrow> nat option \<Rightarrow> bool" where
  "cached p offset secret pos \<longleftrightarrow>
     (case pos of
        None \<Rightarrow> \<forall>i \<ge> offset. \<not> at p secret i
      | Some f \<Rightarrow> offset \<le> f \<longrightarrow> at p secret f \<and> (\<forall>i. offset \<le> i \<longrightarrow> i < f \<longrightarrow> \<not> at p secret i))"

lemma cached_mono: "cached p offset secret pos \<Longrightarrow> offset \<le> offset' \<Longrightarrow> cached p offset' secret pos"
  by (auto simp: cached_def split: option.splits)

definition refresh :: "string \<Rightarrow> nat \<Rightarrow> string \<Rightarrow> nat option \<Rightarrow> nat option" where
  "refresh p offset secret pos =
     (case pos of
        None \<Rightarrow> None
      | Some f \<Rightarrow> if f < offset then map_option ((+) offset) (index_of (drop offset p) secret) else Some f)"

lemma refresh_ok:
  assumes "cached p offset secret pos"
  shows "cached p offset secret (refresh p offset secret pos)"
    and "refresh p offset secret pos = Some f \<Longrightarrow> offset \<le> f"
proof -
  have "cached p offset secret (map_option ((+) offset) (index_of (drop offset p) secret))"
  proof (cases "index_of (drop offset p) secret")
    case None
    then have "\<not> at p secret i" if "offset \<le> i" for i
      using index_of_None [OF None, of "i - offset"] that by (simp add: at_drop)
    then show ?thesis using None by (simp add: cached_def)
  next
    case (Some k)
    then have "at p secret (offset + k)" "\<forall>j < k. \<not> at p secret (offset + j)"
      using index_of_Some [OF Some] by (simp_all add: at_drop)
    then show ?thesis
      using Some by (auto simp: cached_def) (metis le_add_diff_inverse nat_add_left_cancel_less)
  qed
  then show "cached p offset secret (refresh p offset secret pos)"
    using assms by (auto simp: refresh_def split: option.splits)
  show "refresh p offset secret pos = Some f \<Longrightarrow> offset \<le> f"
    by (auto simp: refresh_def split: option.splits if_splits)
qed

lemma find_next_Cons:
  "find_next p offset (secret # ss) (pos # ps) nxt matched =
     (case refresh p offset secret pos of
        Some f \<Rightarrow>
          if f < nxt then
            if f = offset then (f, secret, Some f # ps)
            else (let (n, m, ps') = find_next p offset ss ps f secret in (n, m, Some f # ps'))
          else (let (n, m, ps') = find_next p offset ss ps nxt matched in (n, m, Some f # ps'))
      | None \<Rightarrow> (let (n, m, ps') = find_next p offset ss ps nxt matched in (n, m, None # ps')))"
  by (simp add: refresh_def Let_def split: option.splits)

definition nothing_before :: "string \<Rightarrow> nat \<Rightarrow> nat \<Rightarrow> string list \<Rightarrow> bool" where
  "nothing_before p offset n ss \<longleftrightarrow> (\<forall>i \<ge> offset. i < n \<longrightarrow> (\<forall>secret \<in> set ss. \<not> at p secret i))"

lemma find_next_spec:
  assumes "list_all2 (cached p offset) ss ps" "offset \<le> nxt"
    and "find_next p offset ss ps nxt matched = (n, m, ps')"
  shows "list_all2 (cached p offset) ss ps' \<and> offset \<le> n \<and> n \<le> nxt \<and> nothing_before p offset n ss \<and>
     (n = nxt \<and> m = matched \<or> n < nxt \<and> match_at ss p n = Some m)"
  using assms
proof (induction ss arbitrary: ps nxt matched n m ps')
  case Nil
  then show ?case by (auto simp: nothing_before_def)
next
  case (Cons secret ss)
  then obtain pos ps0 where ps: "ps = pos # ps0" and c: "cached p offset secret pos"
      and cs: "list_all2 (cached p offset) ss ps0"
    by (auto simp: list_all2_Cons1)
  note r = refresh_ok [OF c]
  show ?case
  proof (cases "refresh p offset secret pos")
    case None
    then obtain ps1 where f: "find_next p offset ss ps0 nxt matched = (n, m, ps1)" "ps' = None # ps1"
      using Cons.prems(3) by (auto simp: ps find_next_Cons split_def Let_def prod_eq_iff simp del: find_next.simps)
    moreover have "\<not> at p secret i" if "offset \<le> i" for i
      using r(1) None that by (simp add: cached_def)
    ultimately show ?thesis
      using Cons.IH [OF cs Cons.prems(2) f(1)] r(1) None
      by (auto simp: nothing_before_def match_at_def at_def)
  next
    case (Some f)
    then have f: "offset \<le> f" "at p secret f" "\<And>i. offset \<le> i \<Longrightarrow> i < f \<Longrightarrow> \<not> at p secret i"
      using r by (auto simp: cached_def)
    have cf: "cached p offset secret (Some f)" using r(1) Some by simp
    consider "f < nxt" "f = offset" | "f < nxt" "f \<noteq> offset" | "\<not> f < nxt" by blast
    then show ?thesis
    proof cases
      case 1
      then have "n = f" "m = secret" "ps' = Some f # ps0"
        using Cons.prems(3) Some by (auto simp: ps find_next_Cons simp del: find_next.simps)
      then show ?thesis
        using 1 f cf cs by (auto simp: nothing_before_def match_at_def at_def)
    next
      case 2
      then obtain ps1 where n: "find_next p offset ss ps0 f secret = (n, m, ps1)" "ps' = Some f # ps1"
        using Cons.prems(3) Some
        by (auto simp: ps find_next_Cons split_def Let_def prod_eq_iff simp del: find_next.simps)
      then show ?thesis
        using Cons.IH [OF cs f(1) n(1)] 2 f cf
        by (auto simp: nothing_before_def match_at_def at_def)
    next
      case 3
      then obtain ps1 where n: "find_next p offset ss ps0 nxt matched = (n, m, ps1)" "ps' = Some f # ps1"
        using Cons.prems(3) Some
        by (auto simp: ps find_next_Cons split_def Let_def prod_eq_iff simp del: find_next.simps)
      then show ?thesis
        using Cons.IH [OF cs Cons.prems(2) n(1)] 3 f cf
        by (auto simp: nothing_before_def match_at_def at_def)
    qed
  qed
qed

text \<open>Below the limit, what begins a match is already decided by the text that is there.\<close>

definition decided :: "string list \<Rightarrow> string \<Rightarrow> string \<Rightarrow> nat \<Rightarrow> bool" where
  "decided ss p ys limit \<longleftrightarrow>
     limit \<le> length p \<and> (\<forall>i < limit. \<forall>secret \<in> set ss. at (p @ ys) secret i = at p secret i)"

lemma at_append:
  assumes "at p secret i" "secret \<noteq> []"
  shows "at (p @ ys) secret i" and "i + length secret \<le> length p"
proof -
  obtain t where t: "drop i p = secret @ t"
    using assms(1) by (auto simp: at_def has_prefix_iff)
  then have "i < length p" using assms(2) by (cases "i < length p") auto
  moreover have "length p - i = length secret + length t"
    using arg_cong [OF t, of length] by simp
  ultimately show "i + length secret \<le> length p" by simp
  show "at (p @ ys) secret i"
    using t \<open>i < length p\<close> by (simp add: at_def has_prefix_iff)
qed

lemma emit_loop_spec:
  assumes "[] \<notin> set ss" "decided ss p ys limit" "list_all2 (cached p offset) ss ps"
    and "offset \<le> length p" "emit_loop p ss limit ps offset = (safe, stop)"
  shows "safe @ redact ss (drop stop (p @ ys)) = redact ss (drop offset (p @ ys)) \<and>
     offset \<le> stop \<and> limit \<le> stop \<and> stop \<le> length p"
  using assms
proof (induction p ss limit ps offset arbitrary: safe stop rule: emit_loop.induct)
  case (1 p ss limit ps offset)
  show ?case
  proof (cases "offset < limit")
    case False
    with 1 show ?thesis by (simp add: emit_loop.simps)
  next
    case True
    obtain n m ps' where fn: "find_next p offset ss ps limit [] = (n, m, ps')" by (cases "find_next p offset ss ps limit []")
    have lim: "limit \<le> length p" using 1(3) by (simp add: decided_def)
    from find_next_spec [OF 1(4) less_imp_le [OF True] fn]
    have ok: "list_all2 (cached p offset) ss ps'" "offset \<le> n" "n \<le> limit" "nothing_before p offset n ss"
      and alt: "n = limit \<and> m = [] \<or> n < limit \<and> match_at ss p n = Some m" by auto
    have skip: "redact ss (drop offset (p @ ys)) = drop offset (take n p) @ redact ss (drop n (p @ ys))"
    proof -
      have "match_at ss (p @ ys) (offset + k) = None" if "k < n - offset" for k
        using that ok 1(3) by (auto simp: match_at_None nothing_before_def decided_def)
      then show ?thesis
        using redact_skip [of "n - offset" ss "p @ ys" offset] ok lim
        by (simp add: drop_take)
    qed
    show ?thesis
    proof (cases "m = []")
      case True
      moreover have "n = limit" using alt True 1(2) by (metis find_Some_iff match_at_def nth_mem)
      ultimately show ?thesis
        using 1(6) \<open>offset < limit\<close> fn skip lim by (auto simp: emit_loop.simps)
    next
      case False
      with alt have n: "n < limit" "match_at ss p n = Some m" by auto
      have "match_at ss (p @ ys) n = Some m"
        using n 1(3) by (auto simp: match_at_def find_Some_iff decided_def at_def)
      then have red: "redact ss (drop n (p @ ys)) = ''[redacted]'' @ redact ss (drop (n + length m) (p @ ys))"
        using n lim False by (intro redact_match) auto
      have "at p m n" using n(2) by (auto simp: match_at_def find_Some_iff at_def)
      then have le: "n + length m \<le> length p" using at_append False by blast
      obtain safe' stop' where rec': "emit_loop p ss limit ps' (n + length m) = (safe', stop')"
        by fastforce
      then have safe: "safe = drop offset (take n p) @ ''[redacted]'' @ safe'" and "stop = stop'"
        using 1(6) \<open>offset < limit\<close> fn False by (simp_all add: emit_loop.simps [of _ _ _ _ offset])
      then have rec: "emit_loop p ss limit ps' (n + length m) = (safe', stop)" using rec' by simp
      have cm: "list_all2 (cached p (n + length m)) ss ps'"
        using ok(1) by (rule list_all2_mono) (use ok(2) cached_mono in auto)
      have "safe' @ redact ss (drop stop (p @ ys)) = redact ss (drop (n + length m) (p @ ys)) \<and>
          n + length m \<le> stop \<and> limit \<le> stop \<and> stop \<le> length p"
        by (rule 1(1) [OF \<open>offset < limit\<close> fn [symmetric] refl refl False 1(2,3) cm le rec])
      then have ih: "safe' @ redact ss (drop stop (p @ ys)) = redact ss (drop (n + length m) (p @ ys))"
          and "n + length m \<le> stop" "limit \<le> stop" "stop \<le> length p" by blast+
      moreover have "safe @ redact ss (drop stop (p @ ys)) = redact ss (drop offset (p @ ys))"
        by (simp only: safe skip red append_assoc ih)
      ultimately show ?thesis using ok(2) by linarith
    qed
  qed
qed

section \<open>What is held back\<close>

lemma partial_secret_ge: "longest \<le> partial_secret p secret n longest"
  by (induction p secret n longest rule: partial_secret.induct) auto

lemma partial_secret_suffix:
  "k \<le> n \<Longrightarrow> has_suffix p (take k secret) \<Longrightarrow> k \<le> partial_secret p secret n longest"
proof (induction p secret n longest rule: partial_secret.induct)
  case (2 p secret n longest)
  then show ?case
    using partial_secret_ge [of longest p secret n] by (auto simp: le_Suc_eq)
qed simp

lemma partial_secret_le: "longest \<le> b \<Longrightarrow> n \<le> b \<Longrightarrow> partial_secret p secret n longest \<le> b"
  by (induction p secret n longest rule: partial_secret.induct) auto

lemma partial_fold_ge:
  "longest \<le> foldl (\<lambda>l secret. partial_secret p secret (f secret) l) longest ss"
proof (induction ss arbitrary: longest)
  case (Cons a ss)
  then show ?case using partial_secret_ge by (metis foldl_Cons order_trans)
qed simp

lemma partial_fold_suffix:
  "secret \<in> set ss \<Longrightarrow> k \<le> f secret \<Longrightarrow> has_suffix p (take k secret) \<Longrightarrow>
     k \<le> foldl (\<lambda>l secret. partial_secret p secret (f secret) l) longest ss"
proof (induction ss arbitrary: longest)
  case (Cons a ss)
  then show ?case
  proof (cases "secret = a")
    case True
    then show ?thesis
      using order_trans [OF partial_secret_suffix partial_fold_ge] Cons.prems by simp
  qed (use Cons in simp)
qed simp

text \<open>A match that begins before the limit cannot need text that has not arrived.\<close>

lemma decided_partial:
  assumes "[] \<notin> set (secrets r)" "limit \<le> length (pending r) - partial r"
  shows "decided (secrets r) (pending r) ys limit"
  unfolding decided_def
proof (intro conjI allI impI ballI)
  fix i secret
  assume i: "i < limit" and m: "secret \<in> set (secrets r)"
  let ?p = "pending r" and ?k = "length (pending r) - i"
  have ne: "secret \<noteq> []" using m assms(1) by auto
  show "at (?p @ ys) secret i = at ?p secret i"
  proof
    assume a: "at (?p @ ys) secret i"
    then have pre: "take (length secret) (drop i ?p @ drop (i - length ?p) ys) = secret"
      by (simp add: at_def has_prefix_def)
    show "at ?p secret i"
    proof (rule ccontr)
      assume "\<not> at ?p secret i"
      have long: "?k < length secret"
      proof (rule ccontr)
        assume "\<not> ?k < length secret"
        then have "take (length secret) (drop i ?p) = secret"
          using pre by simp
        then show False using \<open>\<not> at ?p secret i\<close> by (simp add: at_def has_prefix_def)
      qed
      have "take ?k secret = drop i ?p"
        using long by (subst pre [symmetric]) simp
      then have "has_suffix ?p (take ?k secret)"
        by (metis append_take_drop_id has_suffix_iff)
      then have "?k \<le> partial r"
        unfolding partial_def by (intro partial_fold_suffix [OF m]) (use long in simp_all)
      then show False using i assms(2) by linarith
    qed
  qed (use at_append ne in blast)
qed (use assms(2) in simp)

lemma rune_limit_le: "rune_limit p n \<le> n"
proof (induction n)
  case (Suc n)
  then show ?case by (auto intro: le_SucI)
qed simp

lemma cached_initial: "list_all2 (cached p 0) ss (map (index_of p) ss)"
  using index_of_Some index_of_None
  by (auto simp: list_all2_conv_all_nth cached_def split: option.splits)

lemma emit_spec:
  assumes "[] \<notin> set (secrets r)" "emit r final = (r', out)"
  shows "secrets r' = secrets r"
    and "final \<Longrightarrow> pending r' = [] \<and> out = redact (secrets r) (pending r)"
    and "\<not> final \<Longrightarrow> out @ redact (secrets r) (pending r' @ ys) = redact (secrets r) (pending r @ ys)"
proof -
  let ?p = "pending r" and ?ss = "secrets r"
  let ?limit = "if final then length ?p else rune_limit ?p (length ?p - partial r)"
  obtain safe stop where el: "emit_loop ?p ?ss ?limit (map (index_of ?p) ?ss) 0 = (safe, stop)"
    by fastforce
  have dec: "decided ?ss ?p (if final then [] else ys) ?limit"
    using decided_partial [OF assms(1)] rune_limit_le by (auto simp: decided_def)
  note spec = emit_loop_spec [OF assms(1) dec cached_initial _ el, simplified]
  have eq: "(r', out) = (if ?limit = 0 then (r, []) else (r\<lparr>pending := drop stop ?p\<rparr>, safe))"
    using assms(2) unfolding emit_def Let_def el by (simp only: prod.case)
  show "secrets r' = secrets r" using eq by (auto split: if_splits)
  show "pending r' = [] \<and> out = redact ?ss ?p" if final
    using eq spec that by (auto split: if_splits)
  show "out @ redact ?ss (pending r' @ ys) = redact ?ss (?p @ ys)" if "\<not> final"
    using eq spec that by (auto split: if_splits)
qed

section \<open>The stream\<close>

definition redactor_inv :: "redactor \<Rightarrow> bool" where
  "redactor_inv r \<longleftrightarrow> [] \<notin> set (secrets r)"

definition redactor_spec :: "redactor \<Rightarrow> string \<Rightarrow> string" where
  "redactor_spec r text = redact (secrets r) (pending r @ text)"

lemma new_redactor_inv [simp]: "redactor_inv (new_redactor ss)"
  by (simp add: redactor_inv_def new_redactor_def)

interpretation redacting: chunked redactor_inv push "\<lambda>r. snd (end_redactor r)" redactor_spec
proof unfold_locales
  fix r :: redactor and xs ys :: string
  assume inv: "redactor_inv r"
  obtain r1 o1 where e: "emit r True = (r1, o1)" by fastforce
  show "redactor_spec r [] = snd (end_redactor r)"
    using emit_spec(2) [OF _ e] inv e by (simp add: redactor_inv_def redactor_spec_def end_redactor_def)
  let ?r = "r\<lparr>pending := pending r @ xs\<rparr>"
  obtain r2 o2 where p: "emit ?r False = (r2, o2)" by fastforce
  have ne: "[] \<notin> set (secrets ?r)" using inv by (simp add: redactor_inv_def)
  show "redactor_inv (fst (push r xs))"
    using emit_spec(1) [OF ne p] inv p by (simp add: push_def redactor_inv_def)
  show "snd (push r xs) @ redactor_spec (fst (push r xs)) ys = redactor_spec r (xs @ ys)"
    using emit_spec(1,3) [OF ne p] p by (simp add: push_def redactor_spec_def)
qed

text \<open>A whole session: push every chunk, then end.\<close>

definition redact_stream :: "string list \<Rightarrow> string list \<Rightarrow> string" where
  "redact_stream ss chunks =
     (let (r, out) = run_chunks push (new_redactor ss) chunks in out @ snd (end_redactor r))"

text \<open>
  C5. However the console output is cut into frames, what the browser receives is the whole
  text with, from left to right, every occurrence of a credential replaced: a credential
  split across frames is redacted like any other, and nothing else is lost or delayed past
  the end.
\<close>

theorem redact_stream_correct:
  "redact_stream ss chunks = redact (filter (\<lambda>s. s \<noteq> []) ss) (concat chunks)"
  using redacting.run_spec [OF new_redactor_inv, of ss chunks]
  by (simp add: redact_stream_def split_def redactor_spec_def) (simp add: new_redactor_def)

end
