(* ===== verification/Utf8.thy ===== *)
theory Utf8
  imports Base
begin

text \<open>
  Go's view of a string as UTF-8: where a well-formed sequence begins and how long it is
  (\<open>utf8.DecodeRuneInString\<close>), \<open>utf8.Valid\<close>, \<open>strings.ToValidUTF8\<close>, and
  \<open>src/internal/textutil/textutil.go\<close>'s \<open>Length\<close>, which counts UTF-16 code units as a
  browser form does.
\<close>

definition byte :: "char \<Rightarrow> nat" where
  "byte c = of_char c"

lemma byte_bound: "byte c < 256"
  by (simp add: byte_def)

definition between :: "nat \<Rightarrow> nat \<Rightarrow> char \<Rightarrow> bool" where
  "between lo hi c \<longleftrightarrow> lo \<le> byte c \<and> byte c \<le> hi"

abbreviation cont :: "char \<Rightarrow> bool" where
  "cont \<equiv> between 0x80 0xBF"

text \<open>The length of the well-formed sequence at the head, or 0 where there is none.\<close>

definition rune_len :: "string \<Rightarrow> nat" where
  "rune_len s =
     (case s of
        [] \<Rightarrow> 0
      | b0 # t \<Rightarrow>
          if byte b0 < 0x80 then 1
          else (case t of
             [] \<Rightarrow> 0
           | b1 # t1 \<Rightarrow>
               if between 0xC2 0xDF b0 then (if cont b1 then 2 else 0)
               else (case t1 of
                  [] \<Rightarrow> 0
                | b2 # t2 \<Rightarrow>
                    if byte b0 = 0xE0 then (if between 0xA0 0xBF b1 \<and> cont b2 then 3 else 0)
                    else if byte b0 = 0xED then (if between 0x80 0x9F b1 \<and> cont b2 then 3 else 0)
                    else if between 0xE1 0xEF b0 then (if cont b1 \<and> cont b2 then 3 else 0)
                    else (case t2 of
                       [] \<Rightarrow> 0
                     | b3 # _ \<Rightarrow>
                         if byte b0 = 0xF0 then (if between 0x90 0xBF b1 \<and> cont b2 \<and> cont b3 then 4 else 0)
                         else if byte b0 = 0xF4 then (if between 0x80 0x8F b1 \<and> cont b2 \<and> cont b3 then 4 else 0)
                         else if between 0xF1 0xF3 b0 then (if cont b1 \<and> cont b2 \<and> cont b3 then 4 else 0)
                         else 0))))"

lemma rune_len_le: "rune_len s \<le> length s"
  by (auto simp: rune_len_def split: list.splits)

text \<open>The sequences of a string: \<open>None\<close> stands for one byte that begins none.\<close>

function runes :: "string \<Rightarrow> (string option \<times> string) list" where
  "runes s =
     (if s = [] then []
      else if rune_len s = 0 then (None, take 1 s) # runes (drop 1 s)
      else (Some (take (rune_len s) s), take (rune_len s) s) # runes (drop (rune_len s) s))"
  by pat_completeness auto
termination
  by (relation "measure length") auto

declare runes.simps [simp del]

definition valid_utf8 :: "string \<Rightarrow> bool" where
  "valid_utf8 s \<longleftrightarrow> list_all (\<lambda>(r, _). r \<noteq> None) (runes s)"

text \<open>\<open>strings.ToValidUTF8\<close> with U+FFFD: each run of bad bytes becomes one replacement.\<close>

definition replacement :: string where
  "replacement = [CHR 0xEF, CHR 0xBF, CHR 0xBD]"

fun replace_bad :: "bool \<Rightarrow> (string option \<times> string) list \<Rightarrow> string" where
  "replace_bad bad [] = []"
| "replace_bad bad ((Some r, _) # rs) = r @ replace_bad False rs"
| "replace_bad bad ((None, _) # rs) = (if bad then [] else replacement) @ replace_bad True rs"

definition to_valid_utf8 :: "string \<Rightarrow> string" where
  "to_valid_utf8 s = replace_bad False (runes s)"

text \<open>
  \<open>textutil.Length\<close>: a range over the string yields U+FFFD, one code unit, for a bad byte, and
  two code units for a rune beyond the basic plane, which is one of four bytes.
\<close>

definition utf16_length :: "string \<Rightarrow> nat" where
  "utf16_length s = sum_list (map (\<lambda>(r, b). if length b = 4 then 2 else 1) (runes s))"

section \<open>Lemmas\<close>

lemma runes_Nil [simp]: "runes [] = []"
  by (simp add: runes.simps)

lemma concat_runes: "concat (map snd (runes s)) = s"
proof (induction s rule: runes.induct)
  case (1 s)
  then show ?case
    by (subst runes.simps) (auto simp del: take_Suc_conv_app_nth)
qed

lemma runes_ascii: "byte c < 0x80 \<Longrightarrow> runes (c # s) = (Some [c], [c]) # runes s"
  by (subst runes.simps) (simp add: rune_len_def)

lemma valid_utf8_ascii: "list_all (\<lambda>c. byte c < 0x80) s \<Longrightarrow> valid_utf8 s"
  by (induction s) (auto simp: valid_utf8_def runes_ascii)

lemma utf16_length_ascii: "list_all (\<lambda>c. byte c < 0x80) s \<Longrightarrow> utf16_length s = length s"
  by (induction s) (auto simp: utf16_length_def runes_ascii)

lemma to_valid_utf8_id:
  assumes "valid_utf8 s"
  shows "to_valid_utf8 s = s"
proof -
  have "runes t = rs \<Longrightarrow> list_all (\<lambda>(r, _). r \<noteq> None) rs \<Longrightarrow> replace_bad b rs = t" for t rs b
  proof (induction t arbitrary: rs b rule: runes.induct)
    case (1 t)
    show ?case
    proof (cases "t = [] \<or> rune_len t = 0")
      case True
      then show ?thesis using 1(3,4) by (auto simp: runes.simps [of t])
    next
      case False
      then have rs: "rs = (Some (take (rune_len t) t), take (rune_len t) t) # runes (drop (rune_len t) t)"
        using 1(3) by (simp add: runes.simps [of t])
      then have "replace_bad False (runes (drop (rune_len t) t)) = drop (rune_len t) t"
        using 1(2,4) False by simp
      then show ?thesis by (simp add: rs)
    qed
  qed
  then show ?thesis
    using assms by (simp add: to_valid_utf8_def valid_utf8_def)
qed

lemma utf16_length_le: "utf16_length s \<le> 2 * length s"
proof (induction s rule: runes.induct)
  case (1 s)
  show ?case
  proof (cases "s = []")
    case False
    have "utf16_length s = (if rune_len s = 4 then 2 else 1) + utf16_length (drop (max 1 (rune_len s)) s)"
      using False rune_len_le [of s]
      by (subst utf16_length_def, subst runes.simps) (auto simp: utf16_length_def max_def)
    moreover have "utf16_length (drop (max 1 (rune_len s)) s) \<le> 2 * (length s - max 1 (rune_len s))"
      using 1 False by (cases "rune_len s = 0") (auto simp: max_def)
    moreover have "1 \<le> length s" using False by (cases s) auto
    ultimately show ?thesis using rune_len_le [of s] by (auto simp: max_def split: if_splits)
  qed (simp add: utf16_length_def)
qed

end
