(* ===== verification/NetConsole.thy ===== *)
theory NetConsole
  imports Utf8 Chunks "HOL-Library.Word"
begin

text \<open>
  \<open>src/internal/netconsole/netconsole.go\<close>: the Source RCON frames and session, and the
  Telnet option decoder and session. A session is a state machine over the events its
  \<open>select\<close> waits for. What the environment decides is explicit: the data of each read, when a
  timer fires, and for each network write whether access is still granted and whether the
  connection takes it.
\<close>

section \<open>Limits and errors\<close>

definition max_packet :: nat where
  "max_packet = 4 * 1024 * 1024"

datatype console_error =
    AccessChanged
  | Cancelled
  | ConnectionFailed
  | ConnectionTimedOut
  | RconTooLarge
  | TelnetTooLarge
  | CommandTooLarge
  | WriteTooLarge
  | InvalidPacket
  | IncompletePacket
  | AuthIncomplete
  | AuthFailed
  | ClosedBeforeCommand

section \<open>RCON frames\<close>

text \<open>\<open>binary.LittleEndian\<close>.\<close>

definition put_u32_le :: "32 word \<Rightarrow> string" where
  "put_u32_le w = map (\<lambda>i. char_of (unat w div 256 ^ i)) [0..<4]"

fun le_nat :: "string \<Rightarrow> nat" where
  "le_nat [] = 0"
| "le_nat (c # cs) = byte c + 256 * le_nat cs"

definition get_u32_le :: "string \<Rightarrow> 32 word" where
  "get_u32_le s = of_nat (le_nat (take 4 s))"

record rcon_packet =
  packet_id :: "32 word"
  packet_type :: "32 word"
  packet_body :: string

definition encode_rcon :: "32 word \<Rightarrow> 32 word \<Rightarrow> string \<Rightarrow> console_error + string" where
  "encode_rcon i kind body =
     (if length body > max_packet - 10 then Inl CommandTooLarge
      else Inr (put_u32_le (of_nat (length body + 10)) @ put_u32_le i @ put_u32_le kind @ body @ [CHR 0x00, CHR 0x00]))"

text \<open>
  \<open>DecodeRCON\<close>: the complete packets of the buffer and the rest. The size is a signed 32-bit
  integer, and an invalid one is an error even after complete packets.
\<close>

function decode_rcon :: "string \<Rightarrow> console_error + rcon_packet list \<times> string" where
  "decode_rcon buffer =
     (if length buffer < 4 then Inr ([], buffer)
      else (let size = sint (get_u32_le buffer)
            in if size < 10 \<or> size > int max_packet then Inl InvalidPacket
               else if int (length buffer) < size + 4 then Inr ([], buffer)
               else (let packet = \<lparr>packet_id = get_u32_le (drop 4 buffer),
                                   packet_type = get_u32_le (drop 8 buffer),
                                   packet_body = drop 12 (take (nat size + 4 - 2) buffer)\<rparr>
                     in (case decode_rcon (drop (nat size + 4) buffer) of
                           Inl e \<Rightarrow> Inl e
                         | Inr (packets, rest) \<Rightarrow> Inr (packet # packets, rest)))))"
  by pat_completeness auto
termination
  by (relation "measure length") auto

declare decode_rcon.simps [simp del]

section \<open>Frames: lemmas\<close>

lemma length_put_u32_le [simp]: "length (put_u32_le w) = 4"
  by (simp add: put_u32_le_def)

lemma le_nat_digits: "le_nat (map (\<lambda>i. char_of (n div 256 ^ i)) [0..<k]) = n mod 256 ^ k"
proof (induction k arbitrary: n)
  case (Suc k)
  have "map (\<lambda>i. char_of (n div 256 ^ i)) [0..<Suc k] =
      char_of n # map (\<lambda>i. char_of (n div 256 div 256 ^ i)) [0..<k]"
    unfolding map_upt_Suc by (simp add: div_mult2_eq)
  then show ?case
    using Suc [of "n div 256"] by (simp add: byte_def mod_mult2_eq)
qed simp

lemma le_nat_put: "le_nat (put_u32_le w) = unat w"
proof -
  have "unat w < 256 ^ 4" using unsigned_less [of w] by simp
  then show ?thesis
    by (simp add: put_u32_le_def le_nat_digits del: upt_Suc upt_rec_numeral)
qed

lemma get_put [simp]: "get_u32_le (put_u32_le w @ s) = w"
  by (simp add: get_u32_le_def le_nat_put)

lemma encode_rcon_ok:
  "encode_rcon i kind body = Inr f \<longleftrightarrow> length body \<le> max_packet - 10 \<and>
     f = put_u32_le (of_nat (length body + 10)) @ put_u32_le i @ put_u32_le kind @ body @ [CHR 0x00, CHR 0x00]"
  by (auto simp: encode_rcon_def)

lemma sint_small: "n < 2 ^ 31 \<Longrightarrow> sint (of_nat n :: 32 word) = int n"
  by (simp add: signed_of_nat signed_take_bit_int_eq_self)

lemma decode_encode:
  assumes "encode_rcon i kind body = Inr f"
  shows "decode_rcon (f @ rest) =
     (case decode_rcon rest of
        Inl e \<Rightarrow> Inl e
      | Inr (packets, r) \<Rightarrow> Inr (\<lparr>packet_id = i, packet_type = kind, packet_body = body\<rparr> # packets, r))"
proof -
  have len: "length body \<le> max_packet - 10"
    and f: "f = put_u32_le (of_nat (length body + 10)) @ put_u32_le i @ put_u32_le kind @ body @ [CHR 0x00, CHR 0x00]"
    using assms by (simp_all add: encode_rcon_ok)
  have small: "length body + 10 < 2 ^ 31" "10 \<le> max_packet"
    using len by (simp_all add: max_packet_def)
  have size: "sint (get_u32_le (f @ rest)) = int (length body + 10)"
    unfolding f append_assoc get_put using small(1) by (rule sint_small)
  have d: "drop 4 (f @ rest) = put_u32_le i @ put_u32_le kind @ body @ [CHR 0x00, CHR 0x00] @ rest"
    "drop 8 (f @ rest) = put_u32_le kind @ body @ [CHR 0x00, CHR 0x00] @ rest"
    "drop (length body + 14) (f @ rest) = rest"
    "drop 12 (take (length body + 14 - 2) (f @ rest)) = body"
    by (simp_all add: f)
  have l: "length (f @ rest) \<ge> length body + 14" by (simp add: f)
  have n: "nat (int (length body + 10)) + 4 = length body + 14" by simp
  have g: "\<not> length (f @ rest) < 4" "\<not> (int (length body + 10) < 10 \<or> int (length body + 10) > int max_packet)"
      "\<not> int (length (f @ rest)) < int (length body + 10) + 4"
    using l len small(2) by linarith+
  show ?thesis
    by (subst decode_rcon.simps) (simp only: Let_def size n d get_put if_not_P [OF g(1)] if_not_P [OF g(2)] if_not_P [OF g(3)])
qed

lemma get_u32_le_append: "4 \<le> length a \<Longrightarrow> get_u32_le (a @ b) = get_u32_le a"
  by (simp add: get_u32_le_def)

text \<open>Decoding what arrived first, then the rest of it with what arrived later.\<close>

lemma decode_append:
  "decode_rcon (a @ b) =
     res_bind (decode_rcon a) (\<lambda>(ps, r).
       res_bind (decode_rcon (r @ b)) (\<lambda>(qs, r'). Inr (ps @ qs, r')))"
proof (induction a rule: decode_rcon.induct)
  case (1 a)
  let ?size = "sint (get_u32_le a)"
  have id: "decode_rcon (a @ b) = res_bind (decode_rcon (a @ b)) (\<lambda>(qs, r'). Inr ([] @ qs, r'))"
    by (cases "decode_rcon (a @ b)") auto
  consider "length a < 4" | "4 \<le> length a" "?size < 10 \<or> ?size > int max_packet"
    | "4 \<le> length a" "\<not> (?size < 10 \<or> ?size > int max_packet)" "int (length a) < ?size + 4"
    | "4 \<le> length a" "\<not> (?size < 10 \<or> ?size > int max_packet)" "\<not> int (length a) < ?size + 4"
    by linarith
  then show ?case
  proof cases
    case 1
    then show ?thesis using id by (simp add: decode_rcon.simps [of a])
  next
    case 2
    then show ?thesis
      by (simp add: decode_rcon.simps [of a] decode_rcon.simps [of "a @ b"] get_u32_le_append Let_def)
  next
    case 3
    then show ?thesis using id by (simp add: decode_rcon.simps [of a] Let_def)
  next
    case 4
    let ?n = "nat ?size + 4"
    have n: "?n \<le> length a" "14 \<le> ?n" using 4 by linarith+
    let ?p = "\<lparr>packet_id = get_u32_le (drop 4 a), packet_type = get_u32_le (drop 8 a),
        packet_body = drop 12 (take (?n - 2) a)\<rparr>"
    have a: "decode_rcon a = res_bind (decode_rcon (drop ?n a)) (\<lambda>(ps, r). Inr (?p # ps, r))"
      using 4 by (subst decode_rcon.simps) (auto simp: Let_def split: sum.splits)
    have p: "get_u32_le (drop 4 (a @ b)) = get_u32_le (drop 4 a)"
        "get_u32_le (drop 8 (a @ b)) = get_u32_le (drop 8 a)"
        "drop 12 (take (?n - 2) (a @ b)) = drop 12 (take (?n - 2) a)"
        "drop ?n (a @ b) = drop ?n a @ b"
        "get_u32_le (a @ b) = get_u32_le a"
      using n by (simp_all add: get_u32_le_append)
    have "decode_rcon (a @ b) = res_bind (decode_rcon (drop ?n a @ b)) (\<lambda>(ps, r). Inr (?p # ps, r))"
    proof -
      have "\<not> length (a @ b) < 4" "\<not> int (length (a @ b)) < ?size + 4" using 4 by simp_all
      then show ?thesis
        using 4(2) by (subst decode_rcon.simps) (simp only: Let_def p if_False, simp add: res_bind_def split: sum.split)
    qed
    also have "decode_rcon (drop ?n a @ b) = res_bind (decode_rcon (drop ?n a)) (\<lambda>(ps, r).
        res_bind (decode_rcon (r @ b)) (\<lambda>(qs, r'). Inr (ps @ qs, r')))"
      by (rule 1) (use 4 in simp_all)
    finally show ?thesis
      unfolding a by (cases "decode_rcon (drop ?n a)") (auto simp: res_bind_def split: sum.splits)
  qed
qed

section \<open>The RCON session\<close>

text \<open>What a write meets: it is sent, access was withdrawn, or the connection failed.\<close>

datatype write_answer = WriteOk | Denied | Broken

record wire =
  writes :: nat
  sent :: "string list"

definition net_write :: "(nat \<Rightarrow> write_answer) \<Rightarrow> string \<Rightarrow> wire \<Rightarrow> console_error + wire" where
  "net_write env data w =
     (if length data > max_packet + 4 then Inl WriteTooLarge
      else (case env (writes w) of
              Denied \<Rightarrow> Inl AccessChanged
            | Broken \<Rightarrow> Inl ConnectionFailed
            | WriteOk \<Rightarrow> Inr \<lparr>writes = Suc (writes w), sent = sent w @ [data]\<rparr>))"

record rcon_cfg =
  auth_id :: "32 word"
  command_id :: "32 word"
  password :: string
  command :: string

record rcon_state =
  rwire :: wire
  buffer :: string
  authenticated :: bool
  command_sent :: bool
  received :: bool
  response :: string
  quiet :: bool

datatype 's outcome = Running 's | Finished "console_error + string"

datatype rcon_event =
    Quiet
  | Data string
  | ReadFailed "console_error option" bool  \<comment> \<open>what the context says, and whether the limit was hit\<close>
  | CtxDeadline
  | CtxCancel

definition decode_text :: "string \<Rightarrow> string" where
  "decode_text d = (if valid_utf8 d then d else to_valid_utf8 d)"

definition new_wire :: wire where
  "new_wire = \<lparr>writes = 0, sent = []\<rparr>"

definition rcon_begin ::
    "rcon_cfg \<Rightarrow> (nat \<Rightarrow> write_answer) \<Rightarrow> bool \<Rightarrow> console_error option \<Rightarrow> console_error + rcon_state" where
  "rcon_begin cfg env allowed dialed =
     res_bind (require allowed AccessChanged) (\<lambda>_.
     res_bind (case dialed of Some e \<Rightarrow> Inl e | None \<Rightarrow> Inr ()) (\<lambda>_.
     res_bind (encode_rcon (auth_id cfg) 3 (password cfg)) (\<lambda>auth.
     res_bind (net_write env auth new_wire) (\<lambda>w.
       Inr \<lparr>rwire = w, buffer = [], authenticated = False, command_sent = False, received = False,
            response = [], quiet = False\<rparr>))))"

fun rcon_packets ::
    "rcon_cfg \<Rightarrow> (nat \<Rightarrow> write_answer) \<Rightarrow> rcon_state \<Rightarrow> rcon_packet list \<Rightarrow> console_error + rcon_state" where
  "rcon_packets cfg env st [] = Inr st"
| "rcon_packets cfg env st (p # ps) =
     (if \<not> authenticated st then
        (if packet_id p = -1 then Inl AuthFailed
         else if packet_id p = auth_id cfg \<and> packet_type p = 2 then
           res_bind (encode_rcon (command_id cfg) 2 (command cfg)) (\<lambda>frame.
           res_bind (net_write env frame (rwire st)) (\<lambda>w.
             rcon_packets cfg env (st\<lparr>rwire := w, authenticated := True, command_sent := True\<rparr>) ps))
         else rcon_packets cfg env st ps)
      else if \<not> command_sent st \<or> packet_id p \<noteq> command_id cfg then rcon_packets cfg env st ps
      else if length (response st) + length (packet_body p) > max_packet then Inl RconTooLarge
      else rcon_packets cfg env (st\<lparr>received := True, response := response st @ packet_body p\<rparr>) ps)"

fun rcon_step ::
    "rcon_cfg \<Rightarrow> (nat \<Rightarrow> write_answer) \<Rightarrow> rcon_state \<Rightarrow> rcon_event \<Rightarrow> rcon_state outcome" where
  "rcon_step cfg env st Quiet =
     (if quiet st then Finished (Inr (decode_text (response st))) else Running st)"
| "rcon_step cfg env st CtxDeadline = Finished (Inl ConnectionTimedOut)"
| "rcon_step cfg env st CtxCancel = Finished (Inl Cancelled)"
| "rcon_step cfg env st (ReadFailed ctx too_large) =
     Finished
       (case ctx of
          Some e \<Rightarrow> Inl e
        | None \<Rightarrow>
            if too_large then Inl RconTooLarge
            else if \<not> authenticated st then Inl AuthIncomplete
            else if \<not> command_sent st then Inl ClosedBeforeCommand
            else if buffer st \<noteq> [] then Inl IncompletePacket
            else Inr (decode_text (response st)))"
| "rcon_step cfg env st (Data d) =
     (case res_bind (decode_rcon (buffer st @ d)) (\<lambda>(packets, rest).
             rcon_packets cfg env (st\<lparr>buffer := rest\<rparr>) packets) of
        Inl e \<Rightarrow> Finished (Inl e)
      | Inr st' \<Rightarrow> Running (st'\<lparr>quiet := received st' \<and> buffer st' = []\<rparr>))"

fun rcon_run ::
    "rcon_cfg \<Rightarrow> (nat \<Rightarrow> write_answer) \<Rightarrow> rcon_state \<Rightarrow> rcon_event list \<Rightarrow> rcon_state outcome" where
  "rcon_run cfg env st [] = Running st"
| "rcon_run cfg env st (e # es) =
     (case rcon_step cfg env st e of
        Finished r \<Rightarrow> Finished r
      | Running st' \<Rightarrow> rcon_run cfg env st' es)"

text \<open>
  \<open>reader\<close>: what the goroutine that reads the connection hands over, for the results of its
  \<open>conn.Read\<close> calls (the data, and whether the call also failed). The read that takes the
  total over the limit is not delivered: it becomes the limit's error, and reading stops.
\<close>

definition max_tcp_received :: nat where
  "max_tcp_received = max_packet + 64 * 1024"

fun reader :: "nat \<Rightarrow> nat \<Rightarrow> (string \<times> bool) list \<Rightarrow> rcon_event list" where
  "reader limit got [] = []"
| "reader limit got ((d, failed) # reads) =
     (if d \<noteq> [] \<and> got + length d > limit then [ReadFailed None True]
      else (if d \<noteq> [] then [Data d] else []) @
           (if failed then [ReadFailed None False] else reader limit (got + length d) reads))"

text \<open>\<open>SourceRCON\<close>; the events are what its \<open>select\<close> meets after the first write.\<close>

definition source_rcon ::
    "rcon_cfg \<Rightarrow> (nat \<Rightarrow> write_answer) \<Rightarrow> bool \<Rightarrow> console_error option \<Rightarrow> rcon_event list \<Rightarrow> rcon_state outcome" where
  "source_rcon cfg env allowed dialed events =
     (case rcon_begin cfg env allowed dialed of
        Inl e \<Rightarrow> Finished (Inl e)
      | Inr st \<Rightarrow> rcon_run cfg env st events)"

section \<open>The RCON session: lemmas\<close>

lemma rcon_packets_append:
  "rcon_packets cfg env st (ps @ qs) =
     res_bind (rcon_packets cfg env st ps) (\<lambda>st'. rcon_packets cfg env st' qs)"
proof (induction cfg env st ps rule: rcon_packets.induct)
  case (2 cfg env st p ps)
  then show ?case
    by (cases "encode_rcon (command_id cfg) 2 (command cfg)";
        cases "net_write env (projr (encode_rcon (command_id cfg) 2 (command cfg))) (rwire st)") auto
qed simp

definition with_io :: "string \<Rightarrow> bool \<Rightarrow> rcon_state \<Rightarrow> rcon_state" where
  "with_io b q st = st\<lparr>buffer := b, quiet := q\<rparr>"

lemma with_io_simps [simp]:
  "buffer (with_io b q st) = b" "quiet (with_io b q st) = q"
  "received (with_io b q st) = received st" "response (with_io b q st) = response st"
  "authenticated (with_io b q st) = authenticated st" "command_sent (with_io b q st) = command_sent st"
  "rwire (with_io b q st) = rwire st" "with_io b q (with_io b' q' st) = with_io b q st"
  by (simp_all add: with_io_def)

lemma rcon_packets_io:
  "rcon_packets cfg env (with_io b q st) ps = map_sum id (with_io b q) (rcon_packets cfg env st ps)"
proof (induction ps arbitrary: st)
  case (Cons p ps)
  have u: "(with_io b q st)\<lparr>rwire := w, authenticated := True, command_sent := True\<rparr> =
        with_io b q (st\<lparr>rwire := w, authenticated := True, command_sent := True\<rparr>)"
      "(with_io b q st)\<lparr>received := True, response := x\<rparr> =
        with_io b q (st\<lparr>received := True, response := x\<rparr>)" for w x
    by (simp_all add: with_io_def)
  have f: "authenticated (with_io b q st) = authenticated st" "command_sent (with_io b q st) = command_sent st"
      "response (with_io b q st) = response st" "rwire (with_io b q st) = rwire st"
    by (simp_all add: with_io_def)
  show ?case
    by (simp add: f u Cons res_bind_def split: sum.split)
qed simp

text \<open>
  The state after any number of reads depends on the bytes alone: it is what the packets of
  the whole stream make of the first state, with the rest of the stream as the buffer.
\<close>

lemma rcon_run_data:
  assumes "decode_rcon (buffer st @ concat ds) = Inr (ps, rest)"
    and "rcon_packets cfg env st ps = Inr st'" and "ds \<noteq> []"
  shows "rcon_run cfg env st (map Data ds) = Running (with_io rest (received st' \<and> rest = []) st')"
  using assms
proof (induction ds arbitrary: st st' ps)
  case (Cons d ds)
  have "res_bind (decode_rcon (buffer st @ d)) (\<lambda>(ps, r).
      res_bind (decode_rcon (r @ concat ds)) (\<lambda>(qs, r'). Inr (ps @ qs, r'))) = Inr (ps, rest)"
    using Cons.prems(1) decode_append [of "buffer st @ d" "concat ds"] by simp
  then obtain ps1 r1 qs where
      d1: "decode_rcon (buffer st @ d) = Inr (ps1, r1)"
      and d2: "decode_rcon (r1 @ concat ds) = Inr (qs, rest)" and ps: "ps = ps1 @ qs"
    by (auto simp: res_bind_Inr)
  from Cons.prems(2) obtain s1 where s1: "rcon_packets cfg env st ps1 = Inr s1"
      and s2: "rcon_packets cfg env s1 qs = Inr st'"
    by (auto simp: ps rcon_packets_append res_bind_Inr)
  let ?q = "received s1 \<and> r1 = []"
  have b: "st\<lparr>buffer := r1\<rparr> = with_io r1 (quiet st) st" by (simp add: with_io_def)
  have step: "rcon_step cfg env st (Data d) = Running (with_io r1 ?q s1)"
    using d1 s1 by (simp add: b rcon_packets_io)
  show ?case
  proof (cases "ds = []")
    case True
    have "qs = [] \<and> rest = r1"
    proof -
      have "decode_rcon (r1 @ []) = Inr (qs, rest)" using d2 True by simp
      moreover have "decode_rcon (buffer st @ d @ []) = res_bind (decode_rcon (buffer st @ d)) (\<lambda>(ps, r).
          res_bind (decode_rcon (r @ [])) (\<lambda>(qs, r'). Inr (ps @ qs, r')))"
        using decode_append [of "buffer st @ d" "[]"] by simp
      ultimately show ?thesis using d1 by simp
    qed
    then show ?thesis using step s2 True by simp
  next
    case False
    have "rcon_packets cfg env (with_io r1 ?q s1) qs = Inr (with_io r1 ?q st')"
      using s2 by (simp add: rcon_packets_io)
    moreover have "decode_rcon (buffer (with_io r1 ?q s1) @ concat ds) = Inr (qs, rest)"
      using d2 by simp
    ultimately have "rcon_run cfg env (with_io r1 ?q s1) (map Data ds) =
        Running (with_io rest (received (with_io r1 ?q st') \<and> rest = []) (with_io r1 ?q st'))"
      using Cons.IH False by blast
    then show ?thesis using step by simp
  qed
qed simp

lemma rcon_run_append:
  "rcon_run cfg env st (es @ fs) =
     (case rcon_run cfg env st es of Finished r \<Rightarrow> Finished r | Running st' \<Rightarrow> rcon_run cfg env st' fs)"
  by (induction es arbitrary: st) (auto split: outcome.splits)

text \<open>The frames a server answers with.\<close>

definition packet_frame :: "32 word \<Rightarrow> 32 word \<Rightarrow> string \<Rightarrow> string" where
  "packet_frame i kind body = put_u32_le (of_nat (length body + 10)) @ put_u32_le i @ put_u32_le kind @
     body @ [CHR 0x00, CHR 0x00]"

definition packet_ok :: "rcon_packet \<Rightarrow> bool" where
  "packet_ok p \<longleftrightarrow> length (packet_body p) \<le> max_packet - 10"

definition frames :: "rcon_packet list \<Rightarrow> string" where
  "frames ps = concat (map (\<lambda>p. packet_frame (packet_id p) (packet_type p) (packet_body p)) ps)"

lemma encode_frame:
  "length body \<le> max_packet - 10 \<Longrightarrow> encode_rcon i kind body = Inr (packet_frame i kind body)"
  by (simp add: encode_rcon_def packet_frame_def)

lemma decode_Nil [simp]: "decode_rcon [] = Inr ([], [])"
  by (simp add: decode_rcon.simps)

lemma decode_frames: "list_all packet_ok ps \<Longrightarrow> decode_rcon (frames ps) = Inr (ps, [])"
proof (induction ps)
  case (Cons p ps)
  then have "encode_rcon (packet_id p) (packet_type p) (packet_body p) =
      Inr (packet_frame (packet_id p) (packet_type p) (packet_body p))"
    by (simp add: encode_rcon_def packet_ok_def packet_frame_def)
  from decode_encode [OF this, of "frames ps"] Cons show ?case
    by (simp add: frames_def)
qed (simp add: frames_def)

text \<open>The answer to the command: its packets in order, others ignored.\<close>

definition answer_of :: "rcon_cfg \<Rightarrow> rcon_packet list \<Rightarrow> string" where
  "answer_of cfg ps = concat (map packet_body (filter (\<lambda>p. packet_id p = command_id cfg) ps))"

lemma rcon_packets_answer:
  assumes "authenticated st" "command_sent st"
    and "length (response st) + length (answer_of cfg ps) \<le> max_packet"
  shows "rcon_packets cfg env st ps =
     Inr (st\<lparr>received := received st \<or> (\<exists>p \<in> set ps. packet_id p = command_id cfg),
             response := response st @ answer_of cfg ps\<rparr>)"
  using assms
proof (induction ps arbitrary: st)
  case (Cons p ps)
  show ?case
  proof (cases "packet_id p = command_id cfg")
    case True
    then have "rcon_packets cfg env (st\<lparr>received := True, response := response st @ packet_body p\<rparr>) ps =
        Inr (st\<lparr>received := True, response := response st @ packet_body p @ answer_of cfg ps\<rparr>)"
      using Cons.prems by (subst Cons.IH) (simp_all add: answer_of_def)
    then show ?thesis using Cons.prems True by (simp add: answer_of_def)
  next
    case False
    then show ?thesis
      using Cons by (simp add: answer_of_def)
  qed
qed (simp add: answer_of_def)

text \<open>What has been sent, and when.\<close>

definition rcon_inv :: "rcon_cfg \<Rightarrow> (nat \<Rightarrow> write_answer) \<Rightarrow> rcon_state \<Rightarrow> bool" where
  "rcon_inv cfg env st \<longleftrightarrow>
     command_sent st = authenticated st \<and>
     sent (rwire st) = packet_frame (auth_id cfg) 3 (password cfg) #
       (if command_sent st then [packet_frame (command_id cfg) 2 (command cfg)] else []) \<and>
     writes (rwire st) = length (sent (rwire st)) \<and>
     (\<forall>i < writes (rwire st). env i = WriteOk) \<and>
     (received st \<longrightarrow> command_sent st) \<and> length (response st) \<le> max_packet"

lemma net_write_Inr:
  "net_write env data w = Inr w' \<longleftrightarrow>
     length data \<le> max_packet + 4 \<and> env (writes w) = WriteOk \<and>
     w' = \<lparr>writes = Suc (writes w), sent = sent w @ [data]\<rparr>"
  by (auto simp: net_write_def split: write_answer.splits)

lemma rcon_begin_inv: "rcon_begin cfg env allowed dialed = Inr st \<Longrightarrow> rcon_inv cfg env st \<and> allowed \<and> dialed = None"
  by (auto simp: rcon_begin_def res_bind_Inr net_write_Inr encode_rcon_ok rcon_inv_def new_wire_def
      packet_frame_def split: option.splits)

lemma rcon_packets_inv:
  "rcon_inv cfg env st \<Longrightarrow> rcon_packets cfg env st ps = Inr st' \<Longrightarrow> rcon_inv cfg env st'"
proof (induction cfg env st ps rule: rcon_packets.induct)
  case (2 cfg env st p ps)
  consider "\<not> authenticated st" "packet_id p = auth_id cfg \<and> packet_type p = 2"
    | "\<not> authenticated st" "\<not> (packet_id p = auth_id cfg \<and> packet_type p = 2)"
    | "authenticated st" "\<not> command_sent st \<or> packet_id p \<noteq> command_id cfg"
    | "authenticated st" "\<not> (\<not> command_sent st \<or> packet_id p \<noteq> command_id cfg)" by blast
  then show ?case
  proof cases
    case 1
    from 1 2(6) obtain frame w where w: "encode_rcon (command_id cfg) 2 (command cfg) = Inr frame"
        "net_write env frame (rwire st) = Inr w" and id: "packet_id p \<noteq> -1"
        and r: "rcon_packets cfg env (st\<lparr>rwire := w, authenticated := True, command_sent := True\<rparr>) ps = Inr st'"
      by (auto simp: res_bind_Inr split: if_splits)
    have "rcon_inv cfg env (st\<lparr>rwire := w, authenticated := True, command_sent := True\<rparr>)"
      using 2(5) 1(1) w by (auto simp: rcon_inv_def net_write_Inr encode_rcon_ok packet_frame_def less_Suc_eq)
    from 2(1) [OF 1(1) id 1(2) w this r] show ?thesis .
  next
    case 2
    then show ?thesis using "2.IH"(2) "2.prems" by (auto split: if_splits)
  next
    case 3
    then show ?thesis using "2.IH"(3) "2.prems" by (auto split: if_splits)
  next
    case 4
    then show ?thesis using "2.IH"(4) "2.prems" by (auto simp: rcon_inv_def split: if_splits)
  qed
qed simp

lemma rcon_inv_io [simp]: "rcon_inv cfg env (with_io b q st) = rcon_inv cfg env st"
  by (simp add: rcon_inv_def)

lemma rcon_step_inv:
  assumes "rcon_inv cfg env st" "rcon_step cfg env st e = Running st'"
  shows "rcon_inv cfg env st'"
proof (cases e)
  case (Data d)
  with assms(2) obtain ps rest s1 where "rcon_packets cfg env (st\<lparr>buffer := rest\<rparr>) ps = Inr s1"
      and st': "st' = s1\<lparr>quiet := received s1 \<and> buffer s1 = []\<rparr>"
    by (auto simp: res_bind_Inr split: sum.splits prod.splits)
  moreover have "rcon_inv cfg env (st\<lparr>buffer := rest\<rparr>)"
    using assms(1) by (auto simp: rcon_inv_def)
  ultimately have "rcon_inv cfg env s1" by (blast intro: rcon_packets_inv)
  then show ?thesis by (auto simp: st' rcon_inv_def)
qed (use assms in \<open>auto split: if_splits\<close>)

lemma rcon_run_inv: "rcon_inv cfg env st \<Longrightarrow> rcon_run cfg env st es = Running st' \<Longrightarrow> rcon_inv cfg env st'"
  by (induction es arbitrary: st) (auto split: outcome.splits dest: rcon_step_inv)

text \<open>The bytes delivered by a sequence of events.\<close>

fun stream_of :: "rcon_event list \<Rightarrow> string" where
  "stream_of [] = []"
| "stream_of (Data d # es) = d @ stream_of es"
| "stream_of (_ # es) = stream_of es"

lemma stream_of_append [simp]: "stream_of (es @ fs) = stream_of es @ stream_of fs"
  by (induction es rule: stream_of.induct) simp_all

lemma stream_of_Data [simp]: "stream_of (map Data ds) = concat ds"
  by (induction ds) simp_all

text \<open>Within the limit every read is delivered; never are more bytes than the limit.\<close>

lemma reader_within:
  "got + length (concat ds) \<le> limit \<Longrightarrow> [] \<notin> set ds \<Longrightarrow>
   reader limit got (map (\<lambda>d. (d, False)) ds) = map Data ds"
  by (induction ds arbitrary: got) auto

lemma reader_bounded:
  "got \<le> limit \<Longrightarrow> got + length (stream_of (reader limit got reads)) \<le> limit"
proof (induction limit got reads rule: reader.induct)
  case (2 limit got d failed reads)
  then show ?case by (cases "d = []") (auto simp: add.assoc)
qed simp

text \<open>What the packets received so far say of the state.\<close>

definition rcon_log :: "rcon_cfg \<Rightarrow> rcon_state \<Rightarrow> rcon_packet list \<Rightarrow> bool" where
  "rcon_log cfg st ps \<longleftrightarrow>
     (if authenticated st
      then \<exists>before p after. ps = before @ p # after \<and>
             packet_id p = auth_id cfg \<and> packet_type p = 2 \<and> packet_id p \<noteq> -1 \<and>
             (\<forall>q \<in> set before. packet_id q \<noteq> -1 \<and> \<not> (packet_id q = auth_id cfg \<and> packet_type q = 2)) \<and>
             response st = answer_of cfg after
      else (\<forall>q \<in> set ps. packet_id q \<noteq> -1 \<and> \<not> (packet_id q = auth_id cfg \<and> packet_type q = 2)) \<and>
           response st = [])"

lemma rcon_log_io [simp]: "rcon_log cfg (with_io b q st) ps = rcon_log cfg st ps"
  by (simp add: rcon_log_def)

lemma answer_of_snoc:
  "answer_of cfg (ps @ [p]) = answer_of cfg ps @ (if packet_id p = command_id cfg then packet_body p else [])"
  by (simp add: answer_of_def)

lemma rcon_log_more:
  assumes "rcon_log cfg st ps" "authenticated st"
    and "response st' = response st @ (if packet_id p = command_id cfg then packet_body p else [])"
    and "authenticated st'"
  shows "rcon_log cfg st' (ps @ [p])"
proof -
  from assms(1,2) obtain before q after where ps: "ps = before @ q # after"
      and q: "packet_id q = auth_id cfg" "packet_type q = 2" "packet_id q \<noteq> -1"
        "\<forall>q \<in> set before. packet_id q \<noteq> -1 \<and> \<not> (packet_id q = auth_id cfg \<and> packet_type q = 2)"
      and r: "response st = answer_of cfg after"
    by (auto simp: rcon_log_def)
  have "ps @ [p] = before @ q # (after @ [p])" "response st' = answer_of cfg (after @ [p])"
    using assms(3) ps r by (simp_all add: answer_of_snoc)
  then show ?thesis
    using q unfolding rcon_log_def if_P [OF assms(4)] by blast
qed

lemma rcon_packets_log:
  "rcon_log cfg st seen \<Longrightarrow> command_sent st = authenticated st \<Longrightarrow>
   rcon_packets cfg env st ps = Inr st' \<Longrightarrow> rcon_log cfg st' (seen @ ps)"
proof (induction ps arbitrary: st seen)
  case (Cons p ps)
  have go: "rcon_log cfg st' (seen @ p # ps)"
    if "rcon_log cfg s (seen @ [p])" "command_sent s = authenticated s" "rcon_packets cfg env s ps = Inr st'" for s
    using Cons.IH [OF that] by simp
  show ?case
  proof (cases "authenticated st")
    case True
    show ?thesis
    proof (cases "packet_id p = command_id cfg")
      case [simp]: True
      with Cons.prems \<open>authenticated st\<close> have
        "rcon_packets cfg env (st\<lparr>received := True, response := response st @ packet_body p\<rparr>) ps = Inr st'"
        by (simp split: if_splits)
      then show ?thesis
        using Cons.prems \<open>authenticated st\<close> by (intro go rcon_log_more [of cfg st]) simp_all
    next
      case False
      with Cons.prems \<open>authenticated st\<close> have "rcon_packets cfg env st ps = Inr st'" by simp
      then show ?thesis
        using Cons.prems \<open>authenticated st\<close> False by (intro go rcon_log_more [of cfg st]) simp_all
    qed
  next
    case False
    then have old: "\<forall>q \<in> set seen. packet_id q \<noteq> -1 \<and> \<not> (packet_id q = auth_id cfg \<and> packet_type q = 2)"
        "response st = []" and id: "packet_id p \<noteq> -1"
      using Cons.prems by (auto simp: rcon_log_def split: if_splits)
    show ?thesis
    proof (cases "packet_id p = auth_id cfg \<and> packet_type p = 2")
      case True
      with Cons.prems False id obtain w where
          r: "rcon_packets cfg env (st\<lparr>rwire := w, authenticated := True, command_sent := True\<rparr>) ps = Inr st'"
        by (auto simp: res_bind_Inr)
      have "rcon_log cfg (st\<lparr>rwire := w, authenticated := True, command_sent := True\<rparr>) (seen @ [p])"
        unfolding rcon_log_def using old id True
        by (simp, intro exI [of _ seen] exI [of _ p] exI [of _ "[]"]) (simp add: answer_of_def)
      then show ?thesis using r by (intro go) simp_all
    next
      case no: False
      with Cons.prems False id have "rcon_packets cfg env st ps = Inr st'" by auto
      moreover have "rcon_log cfg st (seen @ [p])"
        using old id no False by (auto simp: rcon_log_def)
      ultimately show ?thesis using Cons.prems(2) by (intro go)
    qed
  qed
qed simp

lemma rcon_packets_buffer: "rcon_packets cfg env st ps = Inr st' \<Longrightarrow> buffer st' = buffer st"
proof -
  assume r: "rcon_packets cfg env st ps = Inr st'"
  have w: "with_io (buffer st) (quiet st) st = st" by (simp add: with_io_def)
  have "rcon_packets cfg env st ps = map_sum id (with_io (buffer st) (quiet st)) (rcon_packets cfg env st ps)"
    using rcon_packets_io [of cfg env "buffer st" "quiet st" st ps] unfolding w .
  then have "st' = with_io (buffer st) (quiet st) st'" unfolding r by simp
  then show ?thesis by (metis with_io_simps(1))
qed

text \<open>The whole stream received so far decodes to packets that explain the state.\<close>

definition rcon_explained :: "rcon_cfg \<Rightarrow> rcon_state \<Rightarrow> string \<Rightarrow> bool" where
  "rcon_explained cfg st stream \<longleftrightarrow>
     (\<exists>ps. decode_rcon stream = Inr (ps, buffer st) \<and> rcon_log cfg st ps)"

lemma rcon_step_explained:
  assumes "rcon_inv cfg env st" "rcon_explained cfg st stream" "rcon_step cfg env st e = Running st'"
  shows "rcon_explained cfg st' (stream @ stream_of [e])"
proof (cases e)
  case (Data d)
  with assms(3) obtain ps rest s1 where dec: "decode_rcon (buffer st @ d) = Inr (ps, rest)"
      and run: "rcon_packets cfg env (st\<lparr>buffer := rest\<rparr>) ps = Inr s1"
      and st': "st' = s1\<lparr>quiet := received s1 \<and> buffer s1 = []\<rparr>"
    by (auto simp: res_bind_Inr split: sum.splits prod.splits)
  have b: "st\<lparr>buffer := rest\<rparr> = with_io rest (quiet st) st" by (simp add: with_io_def)
  from assms(2) obtain seen where seen: "decode_rcon stream = Inr (seen, buffer st)"
      and log: "rcon_log cfg st seen"
    by (auto simp: rcon_explained_def)
  have "decode_rcon (stream @ d) = Inr (seen @ ps, rest)"
    using decode_append [of stream d] seen dec by simp
  moreover have "rcon_log cfg s1 (seen @ ps)"
    using run log assms(1) unfolding b by (intro rcon_packets_log) (simp_all add: rcon_inv_def)
  moreover have "buffer s1 = rest" using rcon_packets_buffer [OF run] by simp
  moreover have "st' = with_io (buffer s1) (received s1 \<and> buffer s1 = []) s1" by (simp add: st' with_io_def)
  ultimately show ?thesis
    using Data by (auto simp: rcon_explained_def)
qed (use assms in \<open>auto split: if_splits\<close>)

lemma rcon_run_explained:
  "rcon_inv cfg env st \<Longrightarrow> rcon_explained cfg st stream \<Longrightarrow> rcon_run cfg env st es = Running st' \<Longrightarrow>
   rcon_explained cfg st' (stream @ stream_of es)"
proof (induction es arbitrary: st stream)
  case (Cons e es)
  then obtain s1 where s1: "rcon_step cfg env st e = Running s1" "rcon_run cfg env s1 es = Running st'"
    by (auto split: outcome.splits)
  have "stream @ stream_of (e # es) = (stream @ stream_of [e]) @ stream_of es"
    using stream_of_append [of "[e]" es] by simp
  then show ?case
    using Cons.IH [OF rcon_step_inv [OF Cons.prems(1) s1(1)]
        rcon_step_explained [OF Cons.prems(1,2) s1(1)] s1(2)] by simp
qed simp

lemma rcon_begin_explained:
  "rcon_begin cfg env allowed dialed = Inr st \<Longrightarrow> rcon_explained cfg st []"
  by (auto simp: rcon_begin_def res_bind_Inr rcon_explained_def rcon_log_def split: option.splits)

lemma rcon_accepted:
  assumes "length (password cfg) \<le> max_packet - 10" "length (command cfg) \<le> max_packet - 10"
    and "auth_id cfg \<noteq> -1" "\<And>i. env i = WriteOk" "list_all packet_ok answers"
    and "length (answer_of cfg answers) \<le> max_packet"
    and "concat chunks = packet_frame (auth_id cfg) 2 [] @ frames answers"
  obtains st where "source_rcon cfg env True None (map Data chunks) = Running st"
    and "authenticated st" "response st = answer_of cfg answers"
    and "quiet st \<longleftrightarrow> (\<exists>p \<in> set answers. packet_id p = command_id cfg)"
proof -
  let ?auth = "packet_frame (auth_id cfg) 3 (password cfg)"
  let ?cmd = "packet_frame (command_id cfg) 2 (command cfg)"
  let ?p = "\<lparr>packet_id = auth_id cfg, packet_type = 2, packet_body = []\<rparr>"
  have m: "10 \<le> max_packet" by (simp add: max_packet_def)
  have len: "length ?auth \<le> max_packet + 4" "length ?cmd \<le> max_packet + 4"
    using assms(1,2) m by (simp_all add: packet_frame_def)
  let ?s0 = "\<lparr>rwire = \<lparr>writes = 1, sent = [?auth]\<rparr>, buffer = [], authenticated = False,
      command_sent = False, received = False, response = [], quiet = False\<rparr>"
  have enc: "encode_rcon (auth_id cfg) 3 (password cfg) = Inr ?auth"
      "encode_rcon (command_id cfg) 2 (command cfg) = Inr ?cmd"
    using assms(1,2) by (simp_all add: encode_rcon_def packet_frame_def)
  have begin': "rcon_begin cfg env True None = Inr ?s0"
    using len enc assms(4) by (simp add: rcon_begin_def net_write_def new_wire_def)
  let ?s1 = "?s0\<lparr>rwire := \<lparr>writes = 2, sent = [?auth, ?cmd]\<rparr>, authenticated := True, command_sent := True\<rparr>"
  have w: "net_write env ?cmd \<lparr>writes = 1, sent = [?auth]\<rparr> = Inr \<lparr>writes = 2, sent = [?auth, ?cmd]\<rparr>"
    using len assms(4) by (simp add: net_write_def)
  have "rcon_packets cfg env ?s0 (?p # answers) = rcon_packets cfg env ?s1 answers"
    using assms(3) enc(2) w by simp
  also have "\<dots> = Inr (?s1\<lparr>received := \<exists>p \<in> set answers. packet_id p = command_id cfg,
      response := answer_of cfg answers\<rparr>)"
    using assms(6) by (subst rcon_packets_answer) auto
  finally have packets: "rcon_packets cfg env ?s0 (?p # answers) = Inr (?s1\<lparr>received :=
      \<exists>p \<in> set answers. packet_id p = command_id cfg, response := answer_of cfg answers\<rparr>)" .
  have "frames (?p # answers) = concat chunks" using assms(7) by (simp add: frames_def)
  moreover have "list_all packet_ok (?p # answers)" using assms(5) by (simp add: packet_ok_def)
  ultimately have dec: "decode_rcon (buffer ?s0 @ concat chunks) = Inr (?p # answers, [])"
    using decode_frames by (metis append_Nil rcon_state.select_convs(2))
  have "chunks \<noteq> []" using assms(7) by (auto simp: packet_frame_def put_u32_le_def)
  from rcon_run_data [OF dec packets this] obtain st where
      "rcon_run cfg env ?s0 (map Data chunks) = Running st" "authenticated st"
      "response st = answer_of cfg answers" "quiet st \<longleftrightarrow> (\<exists>p \<in> set answers. packet_id p = command_id cfg)"
    by simp
  then show thesis
    by (intro that [of st]) (simp_all add: source_rcon_def begin')
qed

section \<open>The RCON session: properties\<close>

text \<open>
  C6. While a session runs, its state is what the bytes received so far say. They decode to
  packets \<open>ps\<close> and an incomplete rest, the kept buffer. Either no packet of \<open>ps\<close> refused or
  accepted the password: then only the password frame was sent and no response is kept. Or a
  packet of \<open>ps\<close> with the authentication's identifier and type 2 accepted it, with no refusal
  (identifier -1) up to it: then the password frame and after it the command frame were sent,
  and the kept response is exactly the bodies that carry the command's identifier after that
  packet. Every write that was sent had been authorized again just before, access was granted
  at the start, and the kept response never exceeds its bound.
\<close>

theorem rcon_session_safe:
  assumes "source_rcon cfg env allowed dialed events = Running st"
  shows "allowed \<and> (\<forall>i < length (sent (rwire st)). env i = WriteOk) \<and> length (response st) \<le> max_packet \<and>
     (\<exists>ps. decode_rcon (stream_of events) = Inr (ps, buffer st) \<and>
        ((\<forall>q \<in> set ps. packet_id q \<noteq> -1 \<and> \<not> (packet_id q = auth_id cfg \<and> packet_type q = 2)) \<and>
           sent (rwire st) = [packet_frame (auth_id cfg) 3 (password cfg)] \<and> response st = [] \<or>
         (\<exists>before p after. ps = before @ p # after \<and>
            packet_id p = auth_id cfg \<and> packet_type p = 2 \<and>
            (\<forall>q \<in> set (before @ [p]). packet_id q \<noteq> -1) \<and>
            (\<forall>q \<in> set before. \<not> (packet_id q = auth_id cfg \<and> packet_type q = 2)) \<and>
            sent (rwire st) = [packet_frame (auth_id cfg) 3 (password cfg),
                               packet_frame (command_id cfg) 2 (command cfg)] \<and>
            response st = answer_of cfg after)))"
proof -
  from assms obtain s0 where b: "rcon_begin cfg env allowed dialed = Inr s0"
      and r: "rcon_run cfg env s0 events = Running st"
    by (auto simp: source_rcon_def split: sum.splits)
  have inv0: "rcon_inv cfg env s0" "allowed" using rcon_begin_inv [OF b] by simp_all
  have inv: "rcon_inv cfg env st" by (rule rcon_run_inv [OF inv0(1) r])
  have "rcon_explained cfg st (stream_of events)"
    using rcon_run_explained [OF inv0(1) rcon_begin_explained [OF b] r] by simp
  then obtain ps where ps: "decode_rcon (stream_of events) = Inr (ps, buffer st)" "rcon_log cfg st ps"
    by (auto simp: rcon_explained_def)
  have cmd: "command_sent st = authenticated st" using inv by (simp add: rcon_inv_def)
  have base: "allowed \<and> (\<forall>i < length (sent (rwire st)). env i = WriteOk) \<and> length (response st) \<le> max_packet"
    using inv inv0(2) by (simp add: rcon_inv_def)
  show ?thesis
  proof (cases "authenticated st")
    case True
    then have "sent (rwire st) = [packet_frame (auth_id cfg) 3 (password cfg),
        packet_frame (command_id cfg) 2 (command cfg)]"
      using inv cmd by (simp add: rcon_inv_def)
    moreover from ps(2) obtain before p after where "ps = before @ p # after"
        "packet_id p = auth_id cfg" "packet_type p = 2" "response st = answer_of cfg after"
        "\<forall>q \<in> set (before @ [p]). packet_id q \<noteq> -1"
        "\<forall>q \<in> set before. \<not> (packet_id q = auth_id cfg \<and> packet_type q = 2)"
      unfolding rcon_log_def if_P [OF True] by auto
    ultimately show ?thesis using base ps(1) by blast
  next
    case False
    then show ?thesis
      using base inv cmd ps by (simp add: rcon_inv_def rcon_log_def)
  qed
qed

definition example_cfg :: rcon_cfg where
  "example_cfg = \<lparr>auth_id = 5, command_id = 6, password = ''pw'', command = ''list''\<rparr>"

lemma rcon_session_safe_witness:
  "\<exists>st. source_rcon example_cfg (\<lambda>_. WriteOk) True None [Data (packet_frame 5 2 [])] = Running st \<and>
     length (response st) \<le> max_packet \<and> length (sent (rwire st)) = 2"
proof -
  let ?f = "packet_frame 5 2 []"
  obtain st where st: "source_rcon example_cfg (\<lambda>_. WriteOk) True None [Data ?f] = Running st"
    by (rule rcon_accepted [of example_cfg "\<lambda>_. WriteOk" "[]" "[?f]"])
       (simp_all add: example_cfg_def max_packet_def frames_def answer_of_def)
  have "encode_rcon 5 2 [] = Inr ?f" by (simp add: encode_frame)
  then have "decode_rcon ?f = Inr ([\<lparr>packet_id = 5, packet_type = 2, packet_body = []\<rparr>], [])"
    using decode_encode [of 5 2 "[]" ?f "[]"] by simp
  with rcon_session_safe [OF st] st show ?thesis
    by (auto simp: example_cfg_def)
qed

text \<open>
  C7. Framing round trip: what \<open>EncodeRCON\<close> writes, \<open>DecodeRCON\<close> reads back as the same
  packets in the same order, leaving nothing, for every body the encoder accepts.
\<close>

theorem rcon_frames_roundtrip:
  assumes "list_all2 (\<lambda>p f. encode_rcon (packet_id p) (packet_type p) (packet_body p) = Inr f) ps fs"
  shows "decode_rcon (concat fs) = Inr (ps, [])"
proof -
  have "list_all packet_ok ps \<and> concat fs = frames ps"
    using assms
    by (induction rule: list_all2_induct) (auto simp: encode_rcon_ok packet_ok_def frames_def packet_frame_def)
  then show ?thesis by (simp add: decode_frames)
qed

lemma rcon_frames_roundtrip_witness:
  "decode_rcon (concat [packet_frame 7 2 ''list'', packet_frame (-1) 0 []]) =
     Inr ([\<lparr>packet_id = 7, packet_type = 2, packet_body = ''list''\<rparr>,
           \<lparr>packet_id = -1, packet_type = 0, packet_body = []\<rparr>], [])"
proof (rule rcon_frames_roundtrip)
  show "list_all2 (\<lambda>p f. encode_rcon (packet_id p) (packet_type p) (packet_body p) = Inr f)
      [\<lparr>packet_id = 7, packet_type = 2, packet_body = ''list''\<rparr>,
       \<lparr>packet_id = -1, packet_type = 0, packet_body = []\<rparr>]
      [packet_frame 7 2 ''list'', packet_frame (-1) 0 []]"
    by (simp add: encode_frame max_packet_def)
qed

text \<open>
  C8. A complete command: when the server accepts the password and then answers with any
  packets, \<open>SourceRCON\<close> returns exactly the bodies of the packets that carry the command's
  identifier, in order, however TCP cuts the stream, once the line goes quiet.
\<close>

theorem rcon_command_answer:
  assumes "length (password cfg) \<le> max_packet - 10" "length (command cfg) \<le> max_packet - 10"
    and "auth_id cfg \<noteq> -1" "\<And>i. env i = WriteOk"
    and "list_all packet_ok answers" "\<exists>p \<in> set answers. packet_id p = command_id cfg"
    and "length (answer_of cfg answers) \<le> max_packet"
    and "concat chunks = packet_frame (auth_id cfg) 2 [] @ frames answers"
  shows "source_rcon cfg env True None (map Data chunks @ [Quiet]) =
     Finished (Inr (decode_text (answer_of cfg answers)))"
proof (rule rcon_accepted [OF assms(1-5,7,8)])
  fix st
  assume "source_rcon cfg env True None (map Data chunks) = Running st" "response st = answer_of cfg answers"
    and "quiet st \<longleftrightarrow> (\<exists>p \<in> set answers. packet_id p = command_id cfg)"
  then show ?thesis
    using assms(6) by (auto simp: source_rcon_def rcon_run_append split: sum.splits)
qed

lemma rcon_command_answer_witness:
  "source_rcon example_cfg (\<lambda>_. WriteOk) True None
     (map Data [take 3 (packet_frame 5 2 [] @ packet_frame 6 0 ''2 players''),
                drop 3 (packet_frame 5 2 [] @ packet_frame 6 0 ''2 players'')] @ [Quiet]) =
   Finished (Inr ''2 players'')"
proof -
  let ?a = "[\<lparr>packet_id = 6, packet_type = 0, packet_body = ''2 players''\<rparr>]"
  have a: "answer_of example_cfg ?a = ''2 players''"
    by (simp add: answer_of_def example_cfg_def)
  have "valid_utf8 ''2 players''" by (rule valid_utf8_ascii) (simp add: byte_def)
  then have d: "decode_text ''2 players'' = ''2 players''" by (simp add: decode_text_def)
  have c: "concat [take 3 x, drop 3 x] = x" for x :: string by simp
  have "source_rcon example_cfg (\<lambda>_. WriteOk) True None
     (map Data [take 3 (packet_frame 5 2 [] @ packet_frame 6 0 ''2 players''),
                drop 3 (packet_frame 5 2 [] @ packet_frame 6 0 ''2 players'')] @ [Quiet]) =
     Finished (Inr (decode_text (answer_of example_cfg ?a)))"
    by (rule rcon_command_answer, unfold c)
       (simp_all add: example_cfg_def packet_ok_def max_packet_def frames_def answer_of_def)
  then show ?thesis by (simp only: a d)
qed

end
