(* ===== verification/Telnet.thy ===== *)
theory Telnet
  imports NetConsole
begin

text \<open>
  The Telnet console of \<open>src/internal/netconsole/netconsole.go\<close>: the option decoder, the
  cleaning of the answer, and the session that waits for the password prompt, sends the
  password, a moment later the command, and returns what arrives until the line is quiet.
\<close>

section \<open>The option decoder\<close>

record telnet_decoder =
  dstate :: nat
  dcommand :: nat

definition new_decoder :: telnet_decoder where
  "new_decoder = \<lparr>dstate = 0, dcommand = 0\<rparr>"

text \<open>One byte: the new state, the text and the refusals it gives.\<close>

definition decode_byte :: "telnet_decoder \<Rightarrow> char \<Rightarrow> telnet_decoder \<times> string \<times> string" where
  "decode_byte d c =
     (let b = byte c
      in if dstate d = 0 then (if b = 255 then (d\<lparr>dstate := 1\<rparr>, [], []) else (d, [c], []))
         else if dstate d = 1 then
           (if b = 255 then (d\<lparr>dstate := 0\<rparr>, [c], [])
            else if 251 \<le> b \<and> b \<le> 254 then (d\<lparr>dcommand := b, dstate := 2\<rparr>, [], [])
            else if b = 250 then (d\<lparr>dstate := 3\<rparr>, [], [])
            else (d\<lparr>dstate := 0\<rparr>, [], []))
         else if dstate d = 2 then
           (d\<lparr>dstate := 0\<rparr>, [], [CHR 0xFF, if dcommand d \<le> 252 then CHR 0xFE else CHR 0xFC, c])
         else if dstate d = 3 then (if b = 255 then (d\<lparr>dstate := 4\<rparr>, [], []) else (d, [], []))
         else if dstate d = 4 then (if b = 240 then (d\<lparr>dstate := 0\<rparr>, [], []) else (d\<lparr>dstate := 3\<rparr>, [], []))
         else (d, [], []))"

fun telnet_decode :: "telnet_decoder \<Rightarrow> string \<Rightarrow> telnet_decoder \<times> string \<times> string" where
  "telnet_decode d [] = (d, [], [])"
| "telnet_decode d (c # cs) =
     (let (d1, out, reply) = decode_byte d c; (d2, outs, replies) = telnet_decode d1 cs
      in (d2, out @ outs, reply @ replies))"

section \<open>Cleaning the answer\<close>











section \<open>The session\<close>








section \<open>The decoder does not see chunks\<close>

lemma telnet_decode_append:
  "telnet_decode d (xs @ ys) =
     (let (d1, o1, r1) = telnet_decode d xs; (d2, o2, r2) = telnet_decode d1 ys in (d2, o1 @ o2, r1 @ r2))"
  by (induction xs arbitrary: d) (simp_all add: split_def Let_def)

definition telnet_text :: "telnet_decoder \<Rightarrow> string \<Rightarrow> telnet_decoder \<times> string" where
  "telnet_text d xs = (let (d1, out, _) = telnet_decode d xs in (d1, out))"

definition telnet_replies :: "telnet_decoder \<Rightarrow> string \<Rightarrow> telnet_decoder \<times> string" where
  "telnet_replies d xs = (let (d1, _, reply) = telnet_decode d xs in (d1, reply))"

interpretation telnet_out: chunked "\<lambda>_. True" telnet_text "\<lambda>_. []" "\<lambda>d xs. snd (telnet_text d xs)"
  by unfold_locales (simp_all add: telnet_text_def telnet_decode_append split_def Let_def)

interpretation telnet_reply: chunked "\<lambda>_. True" telnet_replies "\<lambda>_. []" "\<lambda>d xs. snd (telnet_replies d xs)"
  by unfold_locales (simp_all add: telnet_replies_def telnet_decode_append split_def Let_def)

text \<open>What a peer sends: text with 255 doubled, and option requests.\<close>

datatype telnet_item = Text char | Option nat char | Subnegotiation string

definition text_bytes :: "char \<Rightarrow> string" where
  "text_bytes c = (if byte c = 255 then [c, c] else [c])"

fun item_bytes :: "telnet_item \<Rightarrow> string" where
  "item_bytes (Text c) = text_bytes c"
| "item_bytes (Option v c) = [CHR 0xFF, char_of v, c]"
| "item_bytes (Subnegotiation s) = [CHR 0xFF, CHR 0xFA] @ s @ [CHR 0xFF, CHR 0xF0]"

fun item_ok :: "telnet_item \<Rightarrow> bool" where
  "item_ok (Text c) = True"
| "item_ok (Option v c) = (251 \<le> v \<and> v \<le> 254)"
| "item_ok (Subnegotiation s) = list_all (\<lambda>c. byte c \<noteq> 255) s"

text \<open>WILL (251) and WONT (252) are answered DONT (254); DO (253) and DONT (254) are answered WONT (252).\<close>

fun item_reply :: "telnet_item \<Rightarrow> string" where
  "item_reply (Option v c) = [CHR 0xFF, if v \<le> 252 then CHR 0xFE else CHR 0xFC, c]"
| "item_reply _ = []"

fun item_text :: "telnet_item \<Rightarrow> string" where
  "item_text (Text c) = [c]"
| "item_text _ = []"

lemma byte_FF [simp]: "byte (CHR 0xFF) = 255" "byte (CHR 0xFA) = 250" "byte (CHR 0xF0) = 240"
  by (simp_all add: byte_def)

lemma byte_char_of [simp]: "n < 256 \<Longrightarrow> byte (char_of n) = n"
  by (simp add: byte_def)

lemma decode_skip:
  "dstate d = 3 \<Longrightarrow> list_all (\<lambda>c. byte c \<noteq> 255) s \<Longrightarrow> telnet_decode d s = (d, [], [])"
  by (induction s) (auto simp: decode_byte_def)

lemma decode_item:
  assumes "item_ok i" "dstate d = 0"
  obtains d' where "telnet_decode d (item_bytes i) = (d', item_text i, item_reply i)" "dstate d' = 0"
proof (cases i)
  case (Text c)
  then have "telnet_decode d (item_bytes i) = (d\<lparr>dstate := 0\<rparr>, item_text i, item_reply i)"
    using assms by (simp add: text_bytes_def decode_byte_def)
  then show thesis using that by simp
next
  case (Option v c)
  then show thesis
    using assms that by (auto simp: decode_byte_def)
next
  case (Subnegotiation s)
  let ?d = "d\<lparr>dstate := 3\<rparr>"
  have s: "telnet_decode ?d s = (?d, [], [])"
    using assms Subnegotiation by (intro decode_skip) auto
  have e: "telnet_decode ?d [CHR 0xFF, CHR 0xF0] = (d\<lparr>dstate := 0\<rparr>, [], [])"
    by (simp add: decode_byte_def)
  have b: "telnet_decode d [CHR 0xFF, CHR 0xFA] = (?d, [], [])"
    using assms by (simp add: decode_byte_def)
  have "telnet_decode d (item_bytes i) = (d\<lparr>dstate := 0\<rparr>, [], [])"
    unfolding Subnegotiation item_bytes.simps telnet_decode_append b Let_def prod.case s e by simp
  then show thesis using that Subnegotiation by simp
qed

lemma decode_items:
  "list_all item_ok is \<Longrightarrow> dstate d = 0 \<Longrightarrow>
     \<exists>d'. dstate d' = 0 \<and>
       telnet_decode d (concat (map item_bytes is)) = (d', concat (map item_text is), concat (map item_reply is))"
proof (induction "is" arbitrary: d)
  case (Cons i "is")
  then obtain d1 where d1: "telnet_decode d (item_bytes i) = (d1, item_text i, item_reply i)" "dstate d1 = 0"
    using decode_item [of i d] by auto
  obtain d2 where "dstate d2 = 0"
      "telnet_decode d1 (concat (map item_bytes is)) = (d2, concat (map item_text is), concat (map item_reply is))"
    using Cons.IH [OF _ d1(2)] Cons.prems by auto
  then show ?case using d1 by (simp add: telnet_decode_append)
qed simp

section \<open>The session's invariant\<close>













lemma char_of_251: "char_of (251 :: nat) = CHR 0xFB"
  by code_simp


section \<open>Properties\<close>



text \<open>
  C10. The decoder recovers exactly the text and answers exactly the option requests of what a
  peer encodes, in order: 255 doubled is one byte of text, WILL and WONT are refused with DONT,
  DO and DONT with WONT, and a subnegotiation disappears, however TCP cuts the stream.
\<close>

theorem telnet_decodes_items:
  assumes "concat chunks = concat (map item_bytes items)" "list_all item_ok items"
  shows "snd (run_chunks telnet_text new_decoder chunks) = concat (map item_text items) \<and>
         snd (run_chunks telnet_replies new_decoder chunks) = concat (map item_reply items)"
proof -
  have "dstate new_decoder = 0" by (simp add: new_decoder_def)
  from decode_items [OF assms(2) this] show ?thesis
    using telnet_out.run_spec [of new_decoder chunks] telnet_reply.run_spec [of new_decoder chunks] assms(1)
    by (auto simp: telnet_text_def telnet_replies_def)
qed

lemma telnet_decodes_items_witness:
  "snd (run_chunks telnet_text new_decoder [[CHR 0xFF], [CHR 0xFB, CHR 0x01], ''ok''@[CHR 0xFF], [CHR 0xFF]]) =
     ''ok'' @ [CHR 0xFF] \<and>
   snd (run_chunks telnet_replies new_decoder [[CHR 0xFF], [CHR 0xFB, CHR 0x01], ''ok''@[CHR 0xFF], [CHR 0xFF]]) =
     [CHR 0xFF, CHR 0xFE, CHR 0x01]"
  using telnet_decodes_items [of "[[CHR 0xFF], [CHR 0xFB, CHR 0x01], ''ok''@[CHR 0xFF], [CHR 0xFF]]"
      "[Option 251 (CHR 0x01), Text (CHR ''o''), Text (CHR ''k''), Text (CHR 0xFF)]"]
  by (simp add: text_bytes_def byte_def char_of_251)

end
