(* ===== verification/DockerStream.thy ===== *)
theory DockerStream
  imports Utf8
begin

text \<open>
  The stream readers of \<open>src/internal/docker/stream.go\<close>: \<open>Demux\<close>, which splits Docker's
  multiplexed output into stdout and stderr, and \<open>DecodeJSONLines\<close>. A source is the bytes it
  still delivers and how it ends.
\<close>

datatype source_end = SourceEof | SourceFailed

section \<open>Demux\<close>

text \<open>
  A writer: nil (\<open>room\<close> is not looked at), or one that takes \<open>room\<close> more bytes before its
  writes fail (\<open>None\<close>: it never fails).
\<close>

record sink =
  present :: bool
  room :: "nat option"
  written :: string

datatype demux_error = InvalidStream | IncompleteStream | ReadFailure | WriteFailure

definition max_frame :: nat where
  "max_frame = 64 * 1024 * 1024"

definition be_nat :: "string \<Rightarrow> nat" where
  "be_nat s = foldl (\<lambda>n c. 256 * n + byte c) 0 s"

definition sink_write :: "string \<Rightarrow> sink \<Rightarrow> sink \<times> bool" where
  "sink_write d s =
     (case room s of
        None \<Rightarrow> (s\<lparr>written := written s @ d\<rparr>, True)
      | Some n \<Rightarrow> (s\<lparr>written := written s @ take n d, room := Some (n - length d)\<rparr>, length d \<le> n))"

text \<open>\<open>io.CopyN\<close> to the channel's writer; channel 0 and nil writers are \<open>io.Discard\<close>.\<close>

definition copy_to :: "nat \<Rightarrow> string \<Rightarrow> sink \<times> sink \<Rightarrow> (sink \<times> sink) \<times> bool" where
  "copy_to channel d ss =
     (case ss of (out, err) \<Rightarrow>
        if channel = 1 \<and> present out then (let (o', ok) = sink_write d out in ((o', err), ok))
        else if channel = 2 \<and> present err then (let (e', ok) = sink_write d err in ((out, e'), ok))
        else (ss, True))"

text \<open>A frame of size 0 is copied without reading: the loop goes on with the next header.\<close>

function demux :: "source_end \<Rightarrow> string \<Rightarrow> sink \<times> sink \<Rightarrow> (sink \<times> sink) \<times> demux_error option" where
  "demux fin src ss =
     (if src = [] then (ss, case fin of SourceEof \<Rightarrow> None | SourceFailed \<Rightarrow> Some ReadFailure)
      else if length src < 8 then
        (ss, Some (case fin of SourceEof \<Rightarrow> IncompleteStream | SourceFailed \<Rightarrow> ReadFailure))
      else
        (let header = take 8 src;
             channel = byte (header ! 0);
             size = be_nat (drop 4 header);
             rest = drop 8 src
         in if channel > 2 \<or> byte (header ! 1) \<noteq> 0 \<or> byte (header ! 2) \<noteq> 0 \<or> byte (header ! 3) \<noteq> 0 \<or>
               size > max_frame
            then (ss, Some InvalidStream)
            else (let (ss', ok) = copy_to channel (take size rest) ss
                  in if \<not> ok then (ss', Some WriteFailure)
                     else if length rest < size then
                       (ss', Some (case fin of SourceEof \<Rightarrow> IncompleteStream | SourceFailed \<Rightarrow> ReadFailure))
                     else demux fin (drop size rest) ss')))"
  by pat_completeness auto
termination
  by (relation "measure (\<lambda>(_, src, _). length src)") auto

declare demux.simps [simp del]

text \<open>What Docker sends: frames of a channel and a payload.\<close>

definition put_u32_be :: "nat \<Rightarrow> string" where
  "put_u32_be n = [char_of (n div 16777216), char_of (n div 65536 mod 256), char_of (n div 256 mod 256),
                   char_of (n mod 256)]"

definition frame_bytes :: "nat \<times> string \<Rightarrow> string" where
  "frame_bytes f = (case f of (c, d) \<Rightarrow> [char_of c, CHR 0x00, CHR 0x00, CHR 0x00] @ put_u32_be (length d) @ d)"

definition frame_ok :: "nat \<times> string \<Rightarrow> bool" where
  "frame_ok f = (case f of (c, d) \<Rightarrow> c \<le> 2 \<and> length d \<le> max_frame)"

definition channel_text :: "nat \<Rightarrow> (nat \<times> string) list \<Rightarrow> string" where
  "channel_text c fs = concat (map snd (filter (\<lambda>f. fst f = c) fs))"

definition open_sink :: sink where
  "open_sink = \<lparr>present = True, room = None, written = []\<rparr>"

abbreviation sinks :: "string \<Rightarrow> string \<Rightarrow> sink \<times> sink" where
  "sinks o1 e1 \<equiv> (open_sink\<lparr>written := o1\<rparr>, open_sink\<lparr>written := e1\<rparr>)"

lemma be_put:
  assumes "n < 4294967296"
  shows "be_nat (put_u32_be n) = n"
proof -
  have q: "n div 65536 = n div 256 div 256" "n div 16777216 = n div 256 div 256 div 256"
    by (simp_all add: div_mult2_eq [symmetric])
  have "n div 256 div 256 div 256 < 256" using assms by (simp add: div_mult2_eq [symmetric])
  then have "be_nat (put_u32_be n) =
      256 * (256 * (256 * (n div 256 div 256 div 256) + n div 256 div 256 mod 256) + n div 256 mod 256) + n mod 256"
    by (simp add: be_nat_def put_u32_be_def byte_def q)
  also have "\<dots> = n" by (simp only: mult.commute [of 256] div_mult_mod_eq)
  finally show ?thesis .
qed

lemma byte_0 [simp]: "byte (CHR 0x00) = 0"
  by (simp add: byte_def)

lemma copy_open: "copy_to c d (sinks o1 e1) =
    (sinks (o1 @ (if c = 1 then d else [])) (e1 @ (if c = 2 then d else [])), True)"
  by (simp add: copy_to_def sink_write_def open_sink_def)

lemma demux_frame:
  assumes "frame_ok (c, d)"
  shows "demux fin (frame_bytes (c, d) @ rest) (sinks o1 e1) =
         demux fin rest (sinks (o1 @ (if c = 1 then d else [])) (e1 @ (if c = 2 then d else [])))"
proof -
  have "be_nat (put_u32_be (length d)) = length d"
    using assms by (intro be_put) (simp add: frame_ok_def max_frame_def)
  moreover have "length (put_u32_be (length d)) = 4" by (simp add: put_u32_be_def)
  moreover have "byte (char_of c) = c" using assms by (simp add: frame_ok_def byte_def)
  ultimately show ?thesis
    using assms by (subst demux.simps) (simp add: frame_bytes_def frame_ok_def copy_open)
qed

lemma demux_frames:
  "list_all frame_ok fs \<Longrightarrow>
     demux fin (concat (map frame_bytes fs) @ rest) (sinks o1 e1) =
     demux fin rest (sinks (o1 @ channel_text 1 fs) (e1 @ channel_text 2 fs))"
proof (induction fs arbitrary: o1 e1)
  case (Cons f fs)
  obtain c d where "f = (c, d)" by (cases f)
  then show ?case using Cons demux_frame [of c d] by (simp add: channel_text_def)
qed (simp add: channel_text_def)

text \<open>A header that is cut, or a payload that is.\<close>

lemma demux_cut:
  assumes "frame_ok (c, d)" "0 < n" "n < length (frame_bytes (c, d))"
  shows "demux SourceEof (take n (frame_bytes (c, d))) (sinks o1 e1) =
     (sinks (o1 @ (if c = 1 then take (n - 8) d else [])) (e1 @ (if c = 2 then take (n - 8) d else [])),
      Some IncompleteStream)"
proof (cases "n < 8")
  case True
  have "take n (frame_bytes (c, d)) \<noteq> []" using assms(2,3) by auto
  then show ?thesis using True assms(3) by (subst demux.simps) simp
next
  case False
  have p: "length (put_u32_be (length d)) = 4" by (simp add: put_u32_be_def)
  then have l: "length (frame_bytes (c, d)) = 8 + length d" by (simp add: frame_bytes_def)
  obtain m where m: "n = 8 + m" using False by (metis le_Suc_ex not_less)
  have t: "take n (frame_bytes (c, d)) =
      [char_of c, CHR 0x00, CHR 0x00, CHR 0x00] @ put_u32_be (length d) @ take m d"
    using p by (simp add: frame_bytes_def m numeral_eq_Suc)
  have "be_nat (put_u32_be (length d)) = length d"
    using assms by (intro be_put) (simp add: frame_ok_def max_frame_def)
  moreover have "byte (char_of c) = c" using assms by (simp add: frame_ok_def byte_def)
  moreover have "m < length d" using assms(3) l m by simp
  ultimately show ?thesis
    using assms p unfolding t by (subst demux.simps) (simp add: frame_ok_def copy_open m)
qed

text \<open>
  C11. Docker's stream, cut anywhere: complete frames give exactly the bytes of each channel in
  order and no error; a frame cut short after them adds what arrived of it and is reported as
  incomplete, never as a normal end.
\<close>

theorem demux_correct:
  assumes "list_all frame_ok fs" "frame_ok (c, d)" "n < length (frame_bytes (c, d))"
  shows "demux SourceEof (concat (map frame_bytes fs) @ take n (frame_bytes (c, d))) (open_sink, open_sink) =
     ((open_sink\<lparr>written := channel_text 1 fs @ (if c = 1 then take (n - 8) d else [])\<rparr>,
       open_sink\<lparr>written := channel_text 2 fs @ (if c = 2 then take (n - 8) d else [])\<rparr>),
      if n = 0 then None else Some IncompleteStream)"
proof -
  have e: "sinks [] [] = (open_sink, open_sink)" by (simp add: open_sink_def)
  show ?thesis
  proof (cases "n = 0")
    case True
    then show ?thesis
      using demux_frames [OF assms(1), of SourceEof "[]" "[]" "[]"] e by (simp add: demux.simps)
  next
    case False
    then show ?thesis
      using demux_frames [OF assms(1), of SourceEof _ "[]" "[]"] demux_cut [OF assms(2) _ assms(3)] e by simp
  qed
qed

lemma demux_correct_witness:
  "demux SourceEof (concat (map frame_bytes [(1, ''out''), (2, ''err''), (1, ''more'')]) @
      take 10 (frame_bytes (2, ''lost''))) (open_sink, open_sink) =
     ((open_sink\<lparr>written := ''outmore''\<rparr>, open_sink\<lparr>written := ''errlo''\<rparr>), Some IncompleteStream)"
  using demux_correct [of "[(1, ''out''), (2, ''err''), (1, ''more'')]" 2 "''lost''" 10]
  by (simp add: frame_ok_def max_frame_def channel_text_def frame_bytes_def put_u32_be_def)

section \<open>JSON lines\<close>

text \<open>
  The limits and callbacks of a call: the most bytes of a record, whether invalid records are
  skipped, \<open>json.Valid\<close> and \<open>receive\<close>, which changes a state of its own and may refuse.
\<close>

record ('s, 'e) lines_cfg =
  max_bytes :: nat
  skip_invalid :: bool
  json_valid :: "string \<Rightarrow> bool"
  receive :: "'s \<Rightarrow> string \<Rightarrow> 's \<times> 'e option"

datatype 'e lines_error = LineTooLong | InvalidLine | LinesReadFailure | Refused 'e

datatype slice_end = SliceDelim | SliceFull | SliceEnd

abbreviation newline :: char where
  "newline \<equiv> CHR 0x0A"

text \<open>\<open>bufio.Reader.ReadSlice\<close> with a buffer of \<open>b\<close> bytes: the chunk, why it ends, what is left.\<close>

definition line_length :: "string \<Rightarrow> nat" where
  "line_length src = length (takeWhile (\<lambda>c. c \<noteq> newline) src)"

definition read_slice :: "nat \<Rightarrow> string \<Rightarrow> string \<times> slice_end \<times> string" where
  "read_slice b src =
     (let k = line_length src
      in if k < length src \<and> k < b then (take (Suc k) src, SliceDelim, drop (Suc k) src)
         else if b \<le> length src then (take b src, SliceFull, drop b src)
         else (src, SliceEnd, []))"

definition json_line :: "('s, 'e) lines_cfg \<Rightarrow> 's \<Rightarrow> string \<Rightarrow> 's \<times> 'e lines_error option" where
  "json_line cfg s line =
     (if length line > max_bytes cfg then (s, Some LineTooLong)
      else if trim_space line = [] then (s, None)
      else if \<not> json_valid cfg line then (s, if skip_invalid cfg then None else Some InvalidLine)
      else (let (s', refused) = receive cfg s line in (s', map_option Refused refused)))"

function decode_loop ::
    "nat \<Rightarrow> ('s, 'e) lines_cfg \<Rightarrow> source_end \<Rightarrow> 's \<Rightarrow> string \<Rightarrow> string \<Rightarrow> 's \<times> 'e lines_error option" where
  "decode_loop b cfg fin s pending src =
     (let (chunk, why, rest) = read_slice (Suc b) src
      in if length pending + length chunk > max_bytes cfg + 1 then (s, Some LineTooLong)
         else if why = SliceFull then decode_loop b cfg fin s (pending @ chunk) rest
         else if why = SliceEnd \<and> fin = SourceFailed then (s, Some LinesReadFailure)
         else (let (s', failed) = json_line cfg s (trim_suffix (pending @ chunk) [newline])
               in if failed \<noteq> None then (s', failed)
                  else if why = SliceEnd then (s', None)
                  else decode_loop b cfg fin s' [] rest))"
  by pat_completeness auto
termination
  by (relation "measure (\<lambda>(_, _, _, _, _, src). length src)")
     (auto simp: read_slice_def Let_def split: if_splits)

declare decode_loop.simps [simp del]

definition decode_json_lines :: "('s, 'e) lines_cfg \<Rightarrow> source_end \<Rightarrow> 's \<Rightarrow> string \<Rightarrow> 's \<times> 'e lines_error option" where
  "decode_json_lines cfg fin s src = decode_loop (64 * 1024 - 1) cfg fin s [] src"

text \<open>The reference: record by record, with no buffer.\<close>

function records :: "('s, 'e) lines_cfg \<Rightarrow> source_end \<Rightarrow> 's \<Rightarrow> string \<Rightarrow> 's \<times> 'e lines_error option" where
  "records cfg fin s src =
     (let line = takeWhile (\<lambda>c. c \<noteq> newline) src
      in if length line < length src then
           (case json_line cfg s line of
              (s', Some e) \<Rightarrow> (s', Some e)
            | (s', None) \<Rightarrow> records cfg fin s' (drop (Suc (length line)) src))
         else if fin = SourceFailed then
           (s, Some (if length line > max_bytes cfg + 1 then LineTooLong else LinesReadFailure))
         else json_line cfg s line)"
  by pat_completeness auto
termination
  by (relation "measure (\<lambda>(_, _, _, src). length src)") auto

declare records.simps [simp del]

lemma line_length_le: "line_length src \<le> length src"
  by (simp add: line_length_def length_takeWhile_le)

lemma take_line: "take (line_length src) src = takeWhile (\<lambda>c. c \<noteq> newline) src"
  by (simp add: line_length_def takeWhile_eq_take [symmetric])

lemma take_line_Suc:
  assumes "line_length src < length src"
  shows "take (Suc (line_length src)) src = takeWhile (\<lambda>c. c \<noteq> newline) src @ [newline]"
proof -
  have "src ! line_length src = newline"
    using assms nth_length_takeWhile [of "\<lambda>c. c \<noteq> newline" src] by (simp add: line_length_def)
  then show ?thesis using assms take_line by (simp add: take_Suc_conv_app_nth)
qed

lemma trim_newline: "trim_suffix (xs @ [newline]) [newline] = xs"
  by (simp add: trim_suffix_def has_suffix_def)

lemma trim_no_newline: "newline \<notin> set xs \<Longrightarrow> trim_suffix xs [newline] = xs"
  by (cases xs rule: rev_cases) (auto simp: trim_suffix_def has_suffix_def)

lemma takeWhile_pending:
  "newline \<notin> set p \<Longrightarrow> takeWhile (\<lambda>c. c \<noteq> newline) (p @ src) = p @ takeWhile (\<lambda>c. c \<noteq> newline) src"
  by (rule takeWhile_append2) auto

lemma decode_loop_records:
  "newline \<notin> set pending \<Longrightarrow> decode_loop b cfg fin s pending src = records cfg fin s (pending @ src)"
proof (induction b cfg fin s pending src rule: decode_loop.induct)
  case (1 b cfg fin s pending src)
  let ?k = "line_length src" and ?line = "takeWhile (\<lambda>c. c \<noteq> newline) src"
  have tl: "takeWhile (\<lambda>c. c \<noteq> newline) (pending @ src) = pending @ ?line"
    using 1(3) by (rule takeWhile_pending)
  have kl: "length ?line = ?k" by (simp add: line_length_def)
  consider (delim) "?k < length src" "?k < Suc b"
    | (full) "Suc b \<le> length src" "Suc b \<le> ?k"
    | (last) "?k = length src" "length src < Suc b"
    using line_length_le [of src] by linarith
  then show ?case
  proof cases
    case delim
    then have r: "read_slice (Suc b) src = (?line @ [newline], SliceDelim, drop (Suc ?k) src)"
      by (simp add: read_slice_def take_line_Suc)
    have dr: "drop (Suc (length (pending @ ?line))) (pending @ src) = drop (Suc ?k) src"
      by (simp add: kl)
    show ?thesis
    proof (cases "length pending + ?k > max_bytes cfg")
      case True
      then show ?thesis
        using r tl delim kl by (subst decode_loop.simps, subst records.simps) (simp add: json_line_def)
    next
      case False
      obtain s' f where j: "json_line cfg s (pending @ ?line) = (s', f)"
        by (cases "json_line cfg s (pending @ ?line)")
      have t: "trim_suffix (pending @ ?line @ [newline]) [newline] = pending @ ?line"
        using trim_newline [of "pending @ ?line"] by simp
      have IH': "f = None \<Longrightarrow> decode_loop b cfg fin s' [] (drop (Suc ?k) src) = records cfg fin s' (drop (Suc ?k) src)"
        using "1.IH"(2) [OF r [symmetric] refl] False j t kl by simp
      show ?thesis
        using r tl delim kl j t False IH'
        by (subst decode_loop.simps, subst records.simps) (cases f; simp add: dr)
    qed
  next
    case full
    then have r: "read_slice (Suc b) src = (take (Suc b) src, SliceFull, drop (Suc b) src)"
      by (simp add: read_slice_def)
    have "take (Suc b) src = take (Suc b) ?line"
      using full by (simp add: take_line [symmetric] min_def)
    then have "newline \<notin> set (take (Suc b) src)"
      using set_take_subset [of "Suc b" ?line] set_takeWhileD [of newline "\<lambda>c. c \<noteq> newline" src] by auto
    then have "newline \<notin> set (pending @ take (Suc b) src)" using 1(3) by simp
    show ?thesis
    proof (cases "length pending + Suc b > max_bytes cfg + 1")
      case True
      then have "length (pending @ ?line) > max_bytes cfg + 1" using full kl by simp
      then show ?thesis
        using r tl full True
        by (subst decode_loop.simps, subst records.simps) (auto simp: json_line_def Let_def)
    next
      case False
      then show ?thesis
        using "1.IH"(1) [OF r [symmetric] refl] \<open>newline \<notin> set (pending @ take (Suc b) src)\<close> r full
        by (subst decode_loop.simps) simp
    qed
  next
    case last
    then have r: "read_slice (Suc b) src = (src, SliceEnd, [])" by (simp add: read_slice_def)
    have ls: "?line = src" using last take_line [of src] by simp
    have "newline \<notin> set src" using ls set_takeWhileD [of newline "\<lambda>c. c \<noteq> newline" src] by metis
    then have t: "trim_suffix (pending @ src) [newline] = pending @ src"
      using 1(3) by (intro trim_no_newline) simp
    obtain s' f where j: "json_line cfg s (pending @ src) = (s', f)"
      by (cases "json_line cfg s (pending @ src)")
    have big: "length pending + length src > max_bytes cfg + 1 \<Longrightarrow> s' = s \<and> f = Some LineTooLong"
      using j by (simp add: json_line_def)
    have "decode_loop b cfg fin s pending src =
        (if length pending + length src > max_bytes cfg + 1 then (s, Some LineTooLong)
         else if fin = SourceFailed then (s, Some LinesReadFailure) else (s', f))"
      using r t j by (subst decode_loop.simps) simp
    also have "\<dots> = records cfg fin s (pending @ src)"
      using j big by (subst records.simps, unfold Let_def tl ls) simp
    finally show ?thesis .
  qed
qed

text \<open>
  C12. \<open>DecodeJSONLines\<close> treats the stream record by record: the size of its buffer and where a
  chunk ends cannot be observed. Every record within the limit that is valid JSON reaches
  \<open>receive\<close> once, in order; a blank line is skipped, a longer record ends the stream with
  \<open>ErrJSONLineTooLong\<close>, and an invalid one ends it unless it may be skipped.
\<close>

theorem decode_json_lines_records:
  "decode_json_lines cfg fin s src = records cfg fin s src"
  by (simp add: decode_json_lines_def decode_loop_records)

end
