(* ===== verification/Civil.thy ===== *)
theory Civil
  imports Base
begin

text \<open>
  The calendar of Go's package \<open>time\<close> that the schedules use: the proleptic Gregorian date of
  a day counted from 1970-01-01, the layout \<open>2006-01-02\<close>, written and read, and the lemma that
  reading a written date gives the day back.
\<close>

section \<open>Days and dates\<close>

definition leap :: "int \<Rightarrow> bool" where
  "leap y \<longleftrightarrow> y mod 4 = 0 \<and> (y mod 100 \<noteq> 0 \<or> y mod 400 = 0)"

text \<open>The days from 0000-01-01 to the first of January of a year.\<close>

definition year_start :: "int \<Rightarrow> int" where
  "year_start y = 365 * y + (y - 1) div 4 - (y - 1) div 100 + (y - 1) div 400 + 1"

definition year_of :: "int \<Rightarrow> int" where
  "year_of n =
     (let g = (400 * n) div 146097
      in if n < year_start g then g - 1 else if year_start (g + 1) \<le> n then g + 1 else g)"

definition month_lengths :: "int \<Rightarrow> int list" where
  "month_lengths y = [31, if leap y then 29 else 28, 31, 30, 31, 30, 31, 31, 30, 31, 30, 31]"

fun find_month :: "int list \<Rightarrow> int \<Rightarrow> int \<Rightarrow> int \<times> int" where
  "find_month [] m d = (m, d)"
| "find_month (l # ls) m d = (if d < l then (m, d) else find_month ls (m + 1) (d - l))"

text \<open>1970-01-01 is day 719528 from 0000-01-01.\<close>

definition days_of :: "int \<Rightarrow> int \<Rightarrow> int \<Rightarrow> int" where
  "days_of y m d = year_start y + sum_list (take (nat (m - 1)) (month_lengths y)) + d - 1 - 719528"

definition date_of :: "int \<Rightarrow> int \<times> int \<times> int" where
  "date_of day =
     (let n = day + 719528; y = year_of n; (m, d) = find_month (month_lengths y) 1 (n - year_start y)
      in (y, m, d + 1))"

definition month_days :: "int \<Rightarrow> int \<Rightarrow> int" where
  "month_days y m = month_lengths y ! nat (m - 1)"

lemma div_range: "0 < k \<Longrightarrow> k * (x div k) \<le> x \<and> x < k * (x div k) + (k::int)"
  using mult_div_mod_eq [of k x] pos_mod_sign [of k x] pos_mod_bound [of k x] by linarith

lemma div_unique_range: "0 < (k::int) \<Longrightarrow> k * q \<le> x \<Longrightarrow> x < k * q + k \<Longrightarrow> x div k = q"
  by (rule int_div_pos_eq [of x k q "x - k * q"]) auto

lemma div_pred: "0 < (k::int) \<Longrightarrow> y div k - (y - 1) div k = (if y mod k = 0 then 1 else 0)"
proof -
  assume k: "0 < k"
  have y: "y = k * (y div k) + y mod k" "0 \<le> y mod k" "y mod k < k" using k by simp_all
  show ?thesis
  proof (cases "y mod k = 0")
    case True
    then have "k * (y div k - 1) = y - k" using y(1) by (simp add: right_diff_distrib)
    then have "(y - 1) div k = y div k - 1" using k by (intro div_unique_range) linarith+
    then show ?thesis using True by simp
  next
    case False
    then have "(y - 1) div k = y div k" using k y by (intro div_unique_range) linarith+
    then show ?thesis using False by simp
  qed
qed

lemma mod_leap:
  fixes y :: int
  shows "y mod 400 = 0 \<Longrightarrow> y mod 100 = 0" and "y mod 100 = 0 \<Longrightarrow> y mod 4 = 0"
proof -
  have "400 = 100 * (4::int)" by simp
  then have d1: "(100::int) dvd 400" by (rule dvdI)
  have "100 = 4 * (25::int)" by simp
  then have d2: "(4::int) dvd 100" by (rule dvdI)
  show "y mod 400 = 0 \<Longrightarrow> y mod 100 = 0" using dvd_trans [OF d1] by (simp only: mod_eq_0_iff_dvd)
  show "y mod 100 = 0 \<Longrightarrow> y mod 4 = 0" using dvd_trans [OF d2] by (simp only: mod_eq_0_iff_dvd)
qed

lemma year_start_Suc: "year_start (y + 1) = year_start y + (if leap y then 366 else 365)"
proof -
  have count: "(c \<Longrightarrow> b) \<Longrightarrow> (b \<Longrightarrow> a) \<Longrightarrow>
      365 + (if a then 1 else 0) - (if b then 1 else 0) + (if c then 1 else 0 :: int) =
      (if a \<and> (\<not> b \<or> c) then 366 else 365)" for a b c
    by (cases a; cases b; cases c) simp_all
  define i where "i k = (if y mod k = 0 then 1 else 0 :: int)" for k
  have p: "y div k = (y - 1) div k + i k" if "0 < k" for k
    using div_pred [OF that, of y] unfolding i_def by linarith
  have "year_start (y + 1) = 365 * (y + 1) + y div 4 - y div 100 + y div 400 + 1"
    by (simp add: year_start_def)
  also have "\<dots> = year_start y + (365 + i 4 - i 100 + i 400)"
    unfolding year_start_def p [OF zero_less_numeral] by simp
  also have "365 + i 4 - i 100 + i 400 = (if leap y then 366 else 365)"
    unfolding leap_def i_def by (rule count) (rule mod_leap, assumption)+
  finally show ?thesis .
qed

lemma year_start_sum: "year_start (y + 1) = year_start y + sum_list (month_lengths y)"
  by (simp add: year_start_Suc month_lengths_def)

lemma year_start_less: "x < y \<Longrightarrow> year_start x < year_start y"
proof (induction "nat (y - x)" arbitrary: y)
  case (Suc k)
  have s: "year_start (y - 1) < year_start y" using year_start_Suc [of "y - 1"] by simp
  show ?case
  proof (cases "x = y - 1")
    case False
    then have "year_start x < year_start (y - 1)" using Suc.hyps(2) Suc.prems by (intro Suc.hyps(1)) auto
    then show ?thesis using s by simp
  qed (use s in simp)
qed simp

lemma year_start_bounds: "400 * year_start y \<le> 146097 * y + 699" "146097 * y - 396 \<le> 400 * year_start y"
proof -
  define a b c where "a = (y - 1) div 4" and "b = (y - 1) div 100" and "c = (y - 1) div 400"
  have d: "4 * a \<le> y - 1" "y - 1 < 4 * a + 4" "100 * b \<le> y - 1" "y - 1 < 100 * b + 100"
      "400 * c \<le> y - 1" "y - 1 < 400 * c + 400"
    unfolding a_def b_def c_def by (simp_all only: div_range zero_less_numeral)
  have e: "year_start y = 365 * y + a - b + c + 1" by (simp add: year_start_def a_def b_def c_def)
  show "400 * year_start y \<le> 146097 * y + 699" unfolding e using d by simp
  show "146097 * y - 396 \<le> 400 * year_start y" unfolding e using d by simp
qed

lemma year_of_bounds: "year_start (year_of n) \<le> n \<and> n < year_start (year_of n + 1)"
proof -
  define g where "g = (400 * n) div 146097"
  have g: "146097 * g \<le> 400 * n" "400 * n < 146097 * g + 146097"
    using div_range [of 146097 "400 * n"] by (simp_all add: g_def)
  have "year_start (g - 1) \<le> n" using year_start_bounds(1) [of "g - 1"] g by simp
  moreover have "n < year_start (g + 2)" using year_start_bounds(2) [of "g + 2"] g by simp
  ultimately show ?thesis
    by (auto simp: year_of_def Let_def g_def [symmetric] add.commute)
qed

lemma year_of_eq: "year_start y \<le> n \<Longrightarrow> n < year_start (y + 1) \<Longrightarrow> year_of n = y"
  using year_of_bounds [of n] year_start_less [of "year_of n + 1" y] year_start_less [of "y + 1" "year_of n"]
  by (metis not_less_iff_gr_or_eq order.strict_trans1 order.strict_trans2 zless_add1_eq less_asym)

lemma find_month_at:
  "i < length ls \<Longrightarrow> 0 \<le> d \<Longrightarrow> d < ls ! i \<Longrightarrow> \<forall>l \<in> set ls. 0 \<le> l \<Longrightarrow>
     find_month ls m (sum_list (take i ls) + d) = (m + int i, d)"
proof (induction ls arbitrary: i m)
  case (Cons l ls)
  show ?case
  proof (cases i)
    case (Suc j)
    have "0 \<le> sum_list (take j ls)" using Cons.prems(4) by (auto intro!: sum_list_nonneg dest: in_set_takeD)
    then show ?thesis using Cons Suc by simp
  qed (use Cons.prems in simp)
qed simp

lemma find_month_back:
  "0 \<le> d \<Longrightarrow> d < sum_list ls \<Longrightarrow> find_month ls m d = (m', d') \<Longrightarrow>
     \<exists>i < length ls. m' = m + int i \<and> 0 \<le> d' \<and> d' < ls ! i \<and> d = sum_list (take i ls) + d'"
proof (induction ls arbitrary: m d)
  case (Cons l ls)
  show ?case
  proof (cases "d < l")
    case True
    then show ?thesis using Cons.prems by (intro exI [of _ 0]) auto
  next
    case False
    then obtain i where "i < length ls" "m' = m + 1 + int i" "0 \<le> d'" "d' < ls ! i" "d - l = sum_list (take i ls) + d'"
      using Cons.IH [of "d - l" "m + 1"] Cons.prems by auto
    then show ?thesis by (intro exI [of _ "Suc i"]) auto
  qed
qed simp

lemma month_lengths_nonneg: "\<forall>l \<in> set (month_lengths y). 0 \<le> l" "length (month_lengths y) = 12"
  by (simp_all add: month_lengths_def)

lemma days_of_date_of: "date_of day = (y, m, d) \<Longrightarrow> days_of y m d = day \<and> 1 \<le> m \<and> m \<le> 12 \<and> 1 \<le> d \<and> d \<le> month_days y m"
proof -
  assume a: "date_of day = (y, m, d)"
  define n where "n = day + 719528"
  have y: "y = year_of n" and f: "find_month (month_lengths y) 1 (n - year_start y) = (m, d - 1)"
    using a by (auto simp: date_of_def n_def Let_def split: prod.splits)
  have b: "year_start y \<le> n" "n < year_start (y + 1)" using year_of_bounds y by auto
  obtain i where i: "i < 12" "m = 1 + int i" "0 \<le> d - 1" "d - 1 < month_lengths y ! i"
      "n - year_start y = sum_list (take i (month_lengths y)) + (d - 1)"
    using find_month_back [OF _ _ f] b year_start_sum [of y] month_lengths_nonneg(2) [of y] by auto
  then have "nat (m - 1) = i" by simp
  then show ?thesis using i by (auto simp: days_of_def month_days_def n_def)
qed

lemma date_of_days_of:
  assumes "1 \<le> m" "m \<le> 12" "1 \<le> d" "d \<le> month_days y m"
  shows "date_of (days_of y m d) = (y, m, d)"
proof -
  define i where "i = nat (m - 1)"
  define o1 where "o1 = sum_list (take i (month_lengths y)) + (d - 1)"
  have i: "i < length (month_lengths y)" using assms by (simp add: i_def month_lengths_def)
  have d: "0 \<le> d - 1" "d - 1 < month_lengths y ! i" using assms by (simp_all add: month_days_def i_def)
  have "0 \<le> sum_list (take i (month_lengths y))" "0 \<le> sum_list (drop (Suc i) (month_lengths y))"
    using month_lengths_nonneg(1) [of y]
    by (auto intro!: sum_list_nonneg dest: in_set_takeD in_set_dropD)
  moreover have "sum_list (month_lengths y) =
      sum_list (take i (month_lengths y)) + month_lengths y ! i + sum_list (drop (Suc i) (month_lengths y))"
    using i by (metis (no_types) id_take_nth_drop sum_list.Cons sum_list_append add.assoc)
  ultimately have o1: "0 \<le> o1" "o1 < sum_list (month_lengths y)" using d by (simp_all add: o1_def)
  have n: "days_of y m d + 719528 = year_start y + o1" by (simp add: days_of_def o1_def i_def)
  have "year_of (year_start y + o1) = y"
    using o1 year_start_sum [of y] by (intro year_of_eq) auto
  moreover have "find_month (month_lengths y) 1 o1 = (1 + int i, d - 1)"
    unfolding o1_def by (rule find_month_at [OF i d month_lengths_nonneg(1)])
  ultimately show ?thesis using n assms by (simp add: date_of_def Let_def i_def)
qed

section \<open>The layout 2006-01-02\<close>

definition format_date :: "int \<Rightarrow> string" where
  "format_date day =
     (let (y, m, d) = date_of day
      in (if y < 0 then ''-'' else []) @ pad_nat 10 4 (nat \<bar>y\<bar>) @ ''-'' @ pad_nat 10 2 (nat m) @ ''-'' @
         pad_nat 10 2 (nat d))"

definition date_shape :: "string \<Rightarrow> bool" where
  "date_shape s \<longleftrightarrow>
     length s = 10 \<and> list_all is_digit (take 4 s) \<and> s ! 4 = CHR ''-'' \<and> list_all is_digit (take 2 (drop 5 s)) \<and>
     s ! 7 = CHR ''-'' \<and> list_all is_digit (drop 8 s)"

definition parse_date :: "string \<Rightarrow> int option" where
  "parse_date s =
     (if date_shape s then
        (let y = int (parse_nat 10 (take 4 s));
             m = int (parse_nat 10 (take 2 (drop 5 s)));
             d = int (parse_nat 10 (drop 8 s))
         in if 1 \<le> m \<and> m \<le> 12 \<and> 1 \<le> d \<and> d \<le> month_days y m then Some (days_of y m d) else None)
      else None)"

lemma month_days_le: "1 \<le> m \<Longrightarrow> m \<le> 12 \<Longrightarrow> month_days y m \<le> 31"
proof -
  assume "1 \<le> m" "m \<le> 12"
  then have "nat (m - 1) < length (month_lengths y)" by (simp add: month_lengths_def)
  then have "month_lengths y ! nat (m - 1) \<in> set (month_lengths y)" by (rule nth_mem)
  then show ?thesis by (auto simp: month_days_def month_lengths_def split: if_splits)
qed

lemma parse_format_date:
  assumes "date_of day = (y, m, d)" "0 \<le> y" "y < 10000"
  shows "parse_date (format_date day) = Some day" and "date_shape (format_date day)"
proof -
  have b: "days_of y m d = day" "1 \<le> m" "m \<le> 12" "1 \<le> d" "d \<le> month_days y m"
    using days_of_date_of [OF assms(1)] by auto
  let ?y = "pad_nat 10 4 (nat y)" and ?m = "pad_nat 10 2 (nat m)" and ?d = "pad_nat 10 2 (nat d)"
  have f: "format_date day = ?y @ ''-'' @ ?m @ ''-'' @ ?d"
    using assms by (simp add: format_date_def)
  have l: "length ?y = 4" "length ?m = 2" "length ?d = 2"
    using assms b month_days_le [of m y] by (auto intro!: length_pad)
  have dg: "list_all is_digit ?y" "list_all is_digit ?m" "list_all is_digit ?d"
    using pad_digits(1) [of 10] by (auto simp: list_all_iff)
  have t: "take 4 (format_date day) = ?y" "take 2 (drop 5 (format_date day)) = ?m" "drop 8 (format_date day) = ?d"
      "format_date day ! 4 = CHR ''-''" "format_date day ! 7 = CHR ''-''" "length (format_date day) = 10"
    using l unfolding f by (simp_all add: nth_append)
  then show s: "date_shape (format_date day)" using dg by (simp add: date_shape_def)
  show "parse_date (format_date day) = Some day"
    using s t b assms by (simp add: parse_date_def parse_pad)
qed

lemma format_date_year:
  assumes "date_of day = (y, m, d)" "0 \<le> y" "length (format_date day) = 10"
  shows "y < 10000"
proof (rule ccontr)
  assume "\<not> y < 10000"
  have b: "1 \<le> m" "m \<le> 12" "1 \<le> d" "d \<le> month_days y m"
    using days_of_date_of [OF assms(1)] by auto
  have l: "length (pad_nat 10 2 (nat m)) = 2" "length (pad_nat 10 2 (nat d)) = 2"
    using b month_days_le [of m y] by (auto intro!: length_pad)
  then have "length (pad_nat 10 4 (nat y)) = 4"
    using assms by (simp add: format_date_def)
  then have "length (format_nat 10 (nat y)) \<le> 4" by (auto simp: pad_nat_def Let_def split: if_splits)
  moreover have "10 ^ 4 \<le> nat y" using \<open>\<not> y < 10000\<close> by simp
  ultimately show False using format_nat_short [of 10 "nat y" 4] by simp
qed

end
