(* ===== verification/SchedTime.thy ===== *)
theory SchedTime
  imports Civil "HOL-Library.Signed_Division"
begin

text \<open>
  Schedule slots and next runs, \<open>src/internal/schedtime/schedtime.go\<close>. Times are milliseconds
  since the epoch. A location is the offset in seconds it has at every second; the time zone
  database (\<open>time.LoadLocation\<close>) is a parameter.
\<close>

section \<open>Constants and input\<close>

type_synonym zone = "int \<Rightarrow> int"
type_synonym tzdb = "string \<Rightarrow> zone option"

abbreviation minute :: int where "minute \<equiv> 60000"
abbreviation hour :: int where "hour \<equiv> 3600000"
abbreviation day_ms :: int where "day_ms \<equiv> 86400000"

definition one_time_grace :: int where
  "one_time_grace = 5 * minute"

record sched_input =
  kind :: string
  enabled :: bool
  at_time :: string
  timezone :: string
  days :: "int list"
  at_date :: string

definition time_pattern :: "string \<Rightarrow> bool" where
  "time_pattern s \<longleftrightarrow>
     length s = 5 \<and>
     (s ! 0 \<in> {CHR ''0'', CHR ''1''} \<and> is_digit (s ! 1) \<or>
      s ! 0 = CHR ''2'' \<and> s ! 1 \<in> {CHR ''0'', CHR ''1'', CHR ''2'', CHR ''3''}) \<and>
     s ! 2 = CHR '':'' \<and> is_digit (s ! 3) \<and> digit_val (s ! 3) \<le> 5 \<and> is_digit (s ! 4)"

abbreviation date_pattern :: "string \<Rightarrow> bool" where
  "date_pattern \<equiv> date_shape"

section \<open>Locations\<close>

definition load_location :: "tzdb \<Rightarrow> string \<Rightarrow> zone option" where
  "load_location tz name = (if name = [] \<or> name = ''Local'' then None else tz name)"

text \<open>\<open>Location\<close> and its cache: a map with at most 257 names, emptied when it grows past 256.\<close>

definition location ::
    "tzdb \<Rightarrow> (string \<times> zone option) list \<Rightarrow> string \<Rightarrow> (string \<times> zone option) list \<times> zone option" where
  "location tz zones name =
     (case map_of zones name of
        Some loc \<Rightarrow> (zones, loc)
      | None \<Rightarrow>
          (let loc = load_location tz name
           in ((name, loc) # (if length zones > 256 then [] else zones), loc)))"

definition cache_sound :: "tzdb \<Rightarrow> (string \<times> zone option) list \<Rightarrow> bool" where
  "cache_sound tz zones \<longleftrightarrow>
     (\<forall>(name, loc) \<in> set zones. loc = load_location tz name) \<and> length zones \<le> 257"

lemma location_loads:
  assumes "cache_sound tz zones"
  shows "snd (location tz zones name) = load_location tz name" and "cache_sound tz (fst (location tz zones name))"
  using assms by (auto simp: location_def cache_sound_def Let_def split: option.split dest: map_of_SomeD)

section \<open>Clocks\<close>

record clock =
  date :: string
  date_epoch :: int
  time :: string
  minute_start :: int
  offset :: int

definition floor_div :: "int \<Rightarrow> int \<Rightarrow> int" where
  "floor_div value divisor =
     (let quotient = value sdiv divisor
      in if value smod divisor \<noteq> 0 \<and> (value < 0) \<noteq> (divisor < 0) then quotient - 1 else quotient)"

definition local_clock :: "zone \<Rightarrow> int \<Rightarrow> clock" where
  "local_clock z now =
     (let off = z (now div 1000);
          wall = now div 1000 + off;
          seconds = floor_div now 1000 * 1000
      in \<lparr>date = format_date (wall div 86400),
          date_epoch = wall div 86400 * day_ms,
          time = pad_nat 10 2 (nat (wall mod 86400 div 3600)) @ '':'' @ pad_nat 10 2 (nat (wall mod 3600 div 60)),
          minute_start = seconds - wall mod 60 * 1000,
          offset = off * 1000\<rparr>)"

definition valid_clock :: "tzdb \<Rightarrow> sched_input \<Rightarrow> int \<Rightarrow> zone option" where
  "valid_clock tz i now =
     (if \<not> enabled i \<or> now < 0 \<or> \<not> time_pattern (at_time i) \<or> length (timezone i) = 0 \<or> length (timezone i) > 100
      then None
      else if kind i = ''once'' then
        (if date_pattern (at_date i) then load_location tz (timezone i) else None)
      else if kind i = ''recurring'' then
        (if length (days i) = 0 \<or> length (days i) > 7 \<or> (\<exists>d \<in> set (days i). d < 0 \<or> d > 6) then None
         else load_location tz (timezone i))
      else None)"

text \<open>Day 0 of the epoch was a Thursday.\<close>

definition weekday :: "int \<Rightarrow> int" where
  "weekday e = (e div day_ms + 4) mod 7"

definition clock_slot :: "sched_input \<Rightarrow> clock \<Rightarrow> string" where
  "clock_slot i c =
     (if weekday (date_epoch c) \<notin> set (days i) \<or> time c \<noteq> at_time i then []
      else date c @ ''T'' @ at_time i @ '':'' @ timezone i)"

definition one_time_slot :: "sched_input \<Rightarrow> string" where
  "one_time_slot i = at_date i @ ''T'' @ at_time i @ '':'' @ timezone i"

section \<open>Slots and runs\<close>

definition add_new :: "int list \<Rightarrow> int \<Rightarrow> int list" where
  "add_new offsets off = (if off \<in> set offsets then offsets else offsets @ [off])"

definition day_offsets :: "zone \<Rightarrow> int \<Rightarrow> int list" where
  "day_offsets z e =
     foldl (\<lambda>offsets h. add_new offsets (offset (local_clock z (e + h * hour)))) [] [-24, -12, 0, 12, 24, 36, 48]"

definition parse_clock :: "string \<Rightarrow> int \<times> int" where
  "parse_clock v =
     (int (digit_val (v ! 0)) * 10 + int (digit_val (v ! 1)),
      int (digit_val (v ! 3)) * 10 + int (digit_val (v ! 4)))"

definition wall_of :: "sched_input \<Rightarrow> int \<Rightarrow> int" where
  "wall_of i e = (let (h, m) = parse_clock (at_time i) in e + h * hour + m * minute)"

definition one_time_run :: "tzdb \<Rightarrow> sched_input \<Rightarrow> int option" where
  "one_time_run tz i =
     (case load_location tz (timezone i) of
        None \<Rightarrow> None
      | Some z \<Rightarrow>
          if \<not> time_pattern (at_time i) then None
          else
            (case parse_date (at_date i) of
               None \<Rightarrow> None
             | Some day \<Rightarrow>
                 if format_date day \<noteq> at_date i then None
                 else
                   (let e = day * day_ms;
                        candidates = filter (\<lambda>c. c \<ge> 0) (map (\<lambda>off. wall_of i e - off) (day_offsets z e))
                    in find (\<lambda>c. date_epoch (local_clock z c) = e \<and> time (local_clock z c) = at_time i)
                         (sort candidates))))"

definition pending_one_time :: "tzdb \<Rightarrow> sched_input \<Rightarrow> int \<Rightarrow> int option" where
  "pending_one_time tz i now =
     (case one_time_run tz i of
        Some run_at \<Rightarrow> if now < run_at + one_time_grace then Some run_at else None
      | None \<Rightarrow> None)"

definition slot :: "tzdb \<Rightarrow> sched_input \<Rightarrow> int \<Rightarrow> string" where
  "slot tz i now =
     (case valid_clock tz i now of
        None \<Rightarrow> []
      | Some z \<Rightarrow>
          if kind i = ''once'' then
            (case pending_one_time tz i now of
               Some run_at \<Rightarrow> if now \<ge> run_at then one_time_slot i else []
             | None \<Rightarrow> [])
          else clock_slot i (local_clock z now))"

text \<open>One day of the search of \<open>NextRun\<close>.\<close>

definition day_run :: "sched_input \<Rightarrow> zone \<Rightarrow> clock \<Rightarrow> string \<Rightarrow> int \<Rightarrow> int option" where
  "day_run i z current last_slot offset_day =
     (let e = date_epoch current + offset_day * day_ms
      in if weekday e \<notin> set (days i) then None
         else
           (let candidates = filter (\<lambda>c. c \<ge> minute_start current \<and> c \<ge> 0)
                  (map (\<lambda>off. wall_of i e - off) (day_offsets z e))
            in find (\<lambda>c. let cl = local_clock z c; s = clock_slot i cl
                         in date_epoch cl = e \<and> s \<noteq> [] \<and> s \<noteq> last_slot)
                 (sort candidates)))"

fun first_run :: "('a \<Rightarrow> 'b option) \<Rightarrow> 'a list \<Rightarrow> 'b option" where
  "first_run f [] = None"
| "first_run f (x # xs) = (case f x of None \<Rightarrow> first_run f xs | Some r \<Rightarrow> Some r)"

definition next_run :: "tzdb \<Rightarrow> sched_input \<Rightarrow> int \<Rightarrow> string \<Rightarrow> int option" where
  "next_run tz i now last_slot =
     (case valid_clock tz i now of
        None \<Rightarrow> None
      | Some z \<Rightarrow>
          if kind i = ''once'' then
            (if one_time_slot i = last_slot then None else pending_one_time tz i now)
          else first_run (day_run i z (local_clock z now) last_slot) [-1 .. 14])"

definition local_date :: "tzdb \<Rightarrow> string \<Rightarrow> int \<Rightarrow> string option" where
  "local_date tz name now = map_option (\<lambda>z. date (local_clock z now)) (load_location tz name)"

section \<open>Clocks: lemmas\<close>

lemma floor_div_div: "0 < k \<Longrightarrow> floor_div v k = v div k"
proof -
  assume k: "0 < k"
  show ?thesis
  proof (cases "0 \<le> v")
    case True
    then show ?thesis
      using k by (cases "v = 0") (simp_all add: floor_div_def signed_divide_int_def signed_modulo_int_def)
  next
    case False
    have v: "v = v sdiv k * k + v smod k" by (simp add: mult_sdiv_smod_eq mult.commute)
    have m: "v smod k = - ((- v) mod k)" "v sdiv k = - ((- v) div k)"
      using False k by (simp_all add: signed_divide_int_def signed_modulo_int_def sgn_if)
    have "0 \<le> (- v) mod k" "(- v) mod k < k" using k by simp_all
    then have r: "v smod k \<le> 0" "- k < v smod k" using m by simp_all
    have kq: "k * (v sdiv k) = v - v smod k" using v by (simp add: mult.commute)
    show ?thesis
    proof (cases "v smod k = 0")
      case True
      then have "v div k = v sdiv k" using k kq by (intro div_unique_range) linarith+
      then show ?thesis using True by (simp add: floor_div_def)
    next
      case nz: False
      have "k * (v sdiv k - 1) = v - v smod k - k" using kq by (simp add: right_diff_distrib)
      then have "v div k = v sdiv k - 1" using k r nz by (intro div_unique_range) linarith+
      then show ?thesis using nz False k by (simp add: floor_div_def Let_def)
    qed
  qed
qed

text \<open>The second of an instant and the local second: everything a clock shows comes from them.\<close>

definition wall_seconds :: "zone \<Rightarrow> int \<Rightarrow> int" where
  "wall_seconds z t = t div 1000 + z (t div 1000)"

lemma local_clock_simps:
  "date (local_clock z t) = format_date (wall_seconds z t div 86400)"
  "date_epoch (local_clock z t) = wall_seconds z t div 86400 * day_ms"
  "time (local_clock z t) = pad_nat 10 2 (nat (wall_seconds z t mod 86400 div 3600)) @ '':'' @
     pad_nat 10 2 (nat (wall_seconds z t mod 3600 div 60))"
  "minute_start (local_clock z t) = (t div 1000 - wall_seconds z t mod 60) * 1000"
  "offset (local_clock z t) = z (t div 1000) * 1000"
  by (simp_all add: local_clock_def wall_seconds_def Let_def floor_div_div left_diff_distrib)

lemma zero_char: "CHR ''0'' = digit_char 0"
  by code_simp

lemma pad_two:
  assumes "n < 100"
  shows "pad_nat 10 2 n = [digit_char (n div 10), digit_char (n mod 10)]"
proof (cases "n < 10")
  case True
  then have "format_nat 10 n = [digit_char n]" by (subst format_nat.simps) simp
  then show ?thesis using True by (simp add: pad_nat_def zero_char)
next
  case False
  then have "format_nat 10 n = format_nat 10 (n div 10) @ [digit_char (n mod 10)]"
    by (subst format_nat.simps) simp
  moreover have "format_nat 10 (n div 10) = [digit_char (n div 10)]"
    using assms by (subst format_nat.simps) simp
  ultimately show ?thesis by (simp add: pad_nat_def)
qed

lemma parse_clock_pads:
  assumes "h < 100" "m < 100"
  shows "parse_clock (pad_nat 10 2 h @ '':'' @ pad_nat 10 2 m) = (int h, int m)"
proof -
  have "h div 10 < 10" "m div 10 < 10" "h mod 10 < 10" "m mod 10 < 10" using assms by auto
  then have "parse_clock (pad_nat 10 2 h @ '':'' @ pad_nat 10 2 m) =
      (int (h div 10) * 10 + int (h mod 10), int (m div 10) * 10 + int (m mod 10))"
    by (simp add: pad_two [OF assms(1)] pad_two [OF assms(2)] parse_clock_def)
  also have "\<dots> = (int (h div 10 * 10 + h mod 10), int (m div 10 * 10 + m mod 10))"
    by (simp only: of_nat_add of_nat_mult of_nat_numeral)
  also have "\<dots> = (int h, int m)" by (simp only: div_mult_mod_eq)
  finally show ?thesis .
qed

lemma hour_minute_bounds:
  fixes w :: int
  shows "0 \<le> w mod 86400 div 3600" "w mod 86400 div 3600 < 24" "0 \<le> w mod 3600 div 60" "w mod 3600 div 60 < 60"
  using pos_mod_bound [of 86400 w] pos_mod_sign [of 86400 w] pos_mod_bound [of 3600 w] pos_mod_sign [of 3600 w]
  by (simp_all add: pos_imp_zdiv_nonneg_iff div_less_iff_less_mult)

lemma parse_clock_time:
  assumes "time (local_clock z t) = v"
  shows "parse_clock v = (wall_seconds z t mod 86400 div 3600, wall_seconds z t mod 3600 div 60)"
proof -
  define w where "w = wall_seconds z t"
  have "nat (w mod 86400 div 3600) < 100" "nat (w mod 3600 div 60) < 100"
    using hour_minute_bounds [of w] by linarith+
  from parse_clock_pads [OF this]
  have "parse_clock v = (int (nat (w mod 86400 div 3600)), int (nat (w mod 3600 div 60)))"
    using assms unfolding local_clock_simps w_def by simp
  then show ?thesis using hour_minute_bounds(1,3) [of w] by (simp only: nat_0_le w_def [symmetric])
qed

lemma wall_of_clock:
  assumes "time (local_clock z t) = at_time i" "date_epoch (local_clock z t) = e"
  shows "wall_of i e = (wall_seconds z t - wall_seconds z t mod 60) * 1000"
proof -
  define w where "w = wall_seconds z t"
  have "wall_of i e = (w div 86400 * 86400 + w mod 86400 div 3600 * 3600 + w mod 3600 div 60 * 60) * 1000"
    using parse_clock_time [OF assms(1)] assms(2)
    by (simp add: wall_of_def local_clock_simps w_def Let_def)
  also have "w div 86400 * 86400 + w mod 86400 div 3600 * 3600 + w mod 3600 div 60 * 60 = w - w mod 60"
  proof -
    have "w mod 86400 mod 3600 = w mod 3600" "w mod 3600 mod 60 = w mod 60"
      by (simp_all add: mod_mod_cancel)
    moreover have "w mod 86400 div 3600 * 3600 + w mod 86400 mod 3600 = w mod 86400"
      "w mod 3600 div 60 * 60 + w mod 3600 mod 60 = w mod 3600" "w div 86400 * 86400 + w mod 86400 = w"
      by (rule div_mult_mod_eq)+
    ultimately show ?thesis by linarith
  qed
  finally show ?thesis by (simp add: w_def)
qed

section \<open>Time zones that behave\<close>

text \<open>
  What the searches rely on in the time zone database, from 1970 on: seconds before the epoch
  (local mean times, the date line moves of the 19th century) are left free. \<open>within_a_day\<close>: an
  offset is at most a day. \<open>calm\<close>: moreover a clock is never moved back by a day or more.
  \<open>steady z e\<close>: from a day before to two days after the second \<open>e\<close> the offset changes at most
  once, on a whole minute, and the offsets are whole minutes. Every zone of the IANA database
  is calm, and steady on each of these days, but for Africa/Monrovia before 7 January 1972,
  whose offset was not a whole minute.
\<close>

definition within_a_day :: "zone \<Rightarrow> bool" where
  "within_a_day z \<longleftrightarrow> (\<forall>s \<ge> 0. \<bar>z s\<bar> \<le> 86400)"

definition calm :: "zone \<Rightarrow> bool" where
  "calm z \<longleftrightarrow> within_a_day z \<and> (\<forall>s t. 0 \<le> s \<and> s \<le> t \<longrightarrow> z s - z t < 86340)"

definition steady :: "zone \<Rightarrow> int \<Rightarrow> bool" where
  "steady z e \<longleftrightarrow>
     (\<exists>change a b. change mod 60 = 0 \<and> a mod 60 = 0 \<and> b mod 60 = 0 \<and>
        (\<forall>s. e - 86400 \<le> s \<and> s \<le> e + 172800 \<longrightarrow> z s = (if s < change then a else b)))"

lemma calm_within: "calm z \<Longrightarrow> within_a_day z"
  by (simp add: calm_def)

lemma offset_bound: "within_a_day z \<Longrightarrow> 0 \<le> t \<Longrightarrow> \<bar>z (t div 1000)\<bar> \<le> 86400"
  by (simp add: within_a_day_def pos_imp_zdiv_nonneg_iff)

lemma day_of_instant:
  assumes "within_a_day z" "0 \<le> t"
  shows "-1 \<le> wall_seconds z t div 86400"
proof -
  have "0 \<le> t div 1000" using assms(2) by (simp add: pos_imp_zdiv_nonneg_iff)
  then have "-1 * 86400 \<le> wall_seconds z t"
    using offset_bound [OF assms] unfolding wall_seconds_def by linarith
  then show ?thesis by simp
qed

lemma set_add_new: "set (add_new xs x) = insert x (set xs)"
  by (auto simp: add_new_def)

lemma add_new_set: "set (foldl (\<lambda>offsets h. add_new offsets (f h)) acc hs) = set acc \<union> f ` set hs"
  by (induction hs arbitrary: acc) (auto simp: set_add_new)

lemma day_offsets_set:
  "set (day_offsets z e) = (\<lambda>h. z ((e + h * hour) div 1000) * 1000) ` set [-24, -12, 0, 12, 24, 36, 48]"
  unfolding day_offsets_def add_new_set local_clock_simps by (simp only: list.set(1) Un_empty_left)

lemma by_minutes:
  fixes w :: int
  shows "w div 86400 = w div 60 div 1440" and "w mod 86400 div 3600 = w div 60 mod 1440 div 60"
    and "w mod 3600 div 60 = w div 60 mod 60"
proof -
  have r: "0 \<le> w mod 60" "w mod 60 < 60" by simp_all
  have d: "(60 * x + w mod 60) div 60 = x" for x
    using r by (intro div_unique_range) linarith+
  show "w div 86400 = w div 60 div 1440" using zdiv_zmult2_eq [of 1440 w 60] by simp
  have "w mod 86400 = 60 * (w div 60 mod 1440) + w mod 60"
    using zmod_zmult2_eq [of 1440 w 60] by simp
  moreover have "w mod 86400 div 3600 = w mod 86400 div 60 div 60"
    using zdiv_zmult2_eq [of 60 "w mod 86400" 60] by simp
  ultimately show "w mod 86400 div 3600 = w div 60 mod 1440 div 60" by (simp only: d)
  have "w mod 3600 = 60 * (w div 60 mod 60) + w mod 60"
    using zmod_zmult2_eq [of 60 w 60] by simp
  then show "w mod 3600 div 60 = w div 60 mod 60" by (simp only: d)
qed

text \<open>The start of the minute an instant shows is one of the candidates of its local day.\<close>

lemma candidate_before:
  assumes calm: "within_a_day z" and steady: "steady z (day * 86400)" and t0: "0 \<le> t"
    and e: "date_epoch (local_clock z t) = day * day_ms" and v: "time (local_clock z t) = at_time i"
  defines "c \<equiv> minute_start (local_clock z t)"
  shows "c \<in> (\<lambda>off. wall_of i (day * day_ms) - off) ` set (day_offsets z (day * day_ms))"
    and "c \<le> t" and "t < c + minute" and "date_epoch (local_clock z c) = day * day_ms"
    and "time (local_clock z c) = at_time i" and "date (local_clock z c) = date (local_clock z t)"
proof -
  define s where "s = t div 1000"
  define w where "w = wall_seconds z t"
  have w: "w = s + z s" by (simp add: w_def wall_seconds_def s_def)
  have ts: "1000 * s \<le> t" "t < 1000 * s + 1000" using div_range [of 1000 t] by (simp_all add: s_def)
  have day: "w div 86400 = day" using e by (simp add: local_clock_simps w_def)
  then have wd: "86400 * day \<le> w" "w < 86400 * day + 86400" using div_range [of 86400 w] by simp_all
  have m: "0 \<le> w mod 60" "w mod 60 < 60" by simp_all
  have c: "c = (s - w mod 60) * 1000" by (simp add: c_def local_clock_simps s_def w_def)
  show "c \<le> t" "t < c + minute" using ts m unfolding c by (simp_all add: left_diff_distrib)
  have bound: "\<bar>z s\<bar> \<le> 86400" using offset_bound [OF calm t0] by (simp add: s_def)
  obtain change a b where mod: "change mod 60 = 0" "a mod 60 = 0" "b mod 60 = 0"
      and all: "\<forall>s. day * 86400 - 86400 \<le> s \<and> s \<le> day * 86400 + 172800 \<longrightarrow> z s = (if s < change then a else b)"
    using steady unfolding steady_def by (elim exE conjE) (rule that)
  have win: "z x = (if x < change then a else b)" if "day * 86400 - 86400 \<le> x" "x \<le> day * 86400 + 172800" for x
    using all that by blast
  have sw: "day * 86400 - 86400 \<le> s" "s \<le> day * 86400 + 172800" using wd w bound by linarith+
  have zs: "z s = (if s < change then a else b)" by (rule win [OF sw])
  then have "z s mod 60 = 0" using mod by simp
  then have ms: "w mod 60 = s mod 60" unfolding w by (metis add.right_neutral mod_add_right_eq)
  have low: "day * 86400 - 86400 \<le> s - s mod 60"
  proof -
    have "60 * (1440 * day - 1440) \<le> s" using sw(1) by simp
    then have "1440 * day - 1440 \<le> s div 60" by simp
    then show ?thesis using mult_div_mod_eq [of 60 s] by linarith
  qed
  have same: "(s - s mod 60 < change) = (s < change)"
  proof
    assume "s - s mod 60 < change"
    moreover have sd: "s - s mod 60 = 60 * (s div 60)"
      by (rule minus_mod_eq_mult_div)
    moreover have cd: "change = 60 * (change div 60)"
      using mult_div_mod_eq [of 60 change] mod by simp
    ultimately have "s div 60 + 1 \<le> change div 60" by linarith
    then show "s < change" using sd cd m(2) ms by linarith
  qed (use m ms in linarith)
  have zc: "z (s - w mod 60) = z s"
  proof -
    have "z (s - w mod 60) = (if s - w mod 60 < change then a else b)"
      using low sw(2) m unfolding ms by (intro win) linarith+
    then show ?thesis unfolding ms same zs by simp
  qed
  have wc: "wall_seconds z c = w - w mod 60"
    using zc w by (simp add: wall_seconds_def c)
  have d60: "(w - w mod 60) div 86400 = w div 86400" "(w - w mod 60) mod 86400 div 3600 = w mod 86400 div 3600"
      "(w - w mod 60) mod 3600 div 60 = w mod 3600 div 60"
    unfolding by_minutes minus_mod_eq_mult_div by simp_all
  show "date_epoch (local_clock z c) = day * day_ms" "date (local_clock z c) = date (local_clock z t)"
    by (simp_all add: local_clock_simps wc d60 day w_def [symmetric])
  show "time (local_clock z c) = at_time i"
    using v by (simp add: local_clock_simps wc d60 w_def [symmetric])
  have "z s \<in> {z (day * 86400 - 86400), z (day * 86400 + 172800)}"
    using zs win [of "day * 86400 - 86400"] win [of "day * 86400 + 172800"] sw by auto
  then have "z s * 1000 \<in> set (day_offsets z (day * day_ms))"
    unfolding day_offsets_set by (auto simp: mult.commute [of day])
  moreover have "wall_of i (day * day_ms) - z s * 1000 = c"
    using wall_of_clock [OF v e] by (simp add: c w_def [symmetric] w algebra_simps)
  ultimately show "c \<in> (\<lambda>off. wall_of i (day * day_ms) - off) ` set (day_offsets z (day * day_ms))" by force
qed

lemma minute_start_steady:
  assumes calm: "within_a_day z" and steady: "steady z (day * 86400)" and t0: "0 \<le> t"
    and e: "date_epoch (local_clock z t) = day * day_ms"
  shows "minute_start (local_clock z t) = t div minute * minute"
proof -
  define s where "s = t div 1000"
  define w where "w = wall_seconds z t"
  have w: "w = s + z s" by (simp add: w_def wall_seconds_def s_def)
  have "w div 86400 = day" using e by (simp add: local_clock_simps w_def)
  then have wd: "86400 * day \<le> w" "w < 86400 * day + 86400" using div_range [of 86400 w] by simp_all
  have bound: "\<bar>z s\<bar> \<le> 86400" using offset_bound [OF calm t0] by (simp add: s_def)
  then have "day * 86400 - 86400 \<le> s" "s \<le> day * 86400 + 172800" using wd w by linarith+
  then have "z s mod 60 = 0" using steady unfolding steady_def by (auto split: if_splits)
  then have ms: "w mod 60 = s mod 60" unfolding w by (metis add.right_neutral mod_add_right_eq)
  have "minute_start (local_clock z t) = (s - s mod 60) * 1000"
    by (simp add: local_clock_simps s_def [symmetric] w_def [symmetric] ms)
  also have "\<dots> = t div minute * minute"
    using zdiv_zmult2_eq [of 60 t 1000] by (simp add: s_def minus_mod_eq_div_mult)
  finally show ?thesis .
qed

section \<open>The searches: lemmas\<close>

lemma find_least: "sorted xs \<Longrightarrow> x \<in> set xs \<Longrightarrow> P x \<Longrightarrow> \<exists>r. find P xs = Some r \<and> r \<le> (x :: int)"
proof (induction xs)
  case (Cons y ys)
  then show ?case by (cases "P y") auto
qed simp

lemma find_sort: "x \<in> set xs \<Longrightarrow> P x \<Longrightarrow> \<exists>r. find P (sort xs) = Some r \<and> r \<le> (x :: int)"
  by (rule find_least) simp_all

lemma find_sort_sound: "find P (sort xs) = Some r \<Longrightarrow> r \<in> set xs \<and> P (r :: int)"
proof -
  assume "find P (sort xs) = Some r"
  then have "r \<in> set (sort xs) \<and> P r" unfolding find_Some_iff using nth_mem by metis
  then show ?thesis by simp
qed

lemma first_run_Some:
  "first_run f xs = Some r \<Longrightarrow> \<exists>ys x zs. xs = ys @ x # zs \<and> f x = Some r \<and> (\<forall>y \<in> set ys. f y = None)"
proof (induction xs)
  case (Cons x xs)
  show ?case
  proof (cases "f x")
    case None
    then obtain ys x' zs where "xs = ys @ x' # zs" "f x' = Some r" "\<forall>y \<in> set ys. f y = None"
      using Cons by auto
    then show ?thesis using None by (intro exI [of _ "x # ys"]) auto
  next
    case (Some r')
    then show ?thesis using Cons.prems by (intro exI [of _ "[]"]) auto
  qed
qed simp

lemma first_run_None: "first_run f xs = None \<longleftrightarrow> (\<forall>x \<in> set xs. f x = None)"
  by (induction xs) (auto split: option.splits)

lemma first_run_upto:
  assumes "first_run f [a .. b] = Some r" "k \<in> {a .. b}" "f k \<noteq> None"
  shows "\<exists>j. a \<le> j \<and> j \<le> k \<and> f j = Some r"
proof -
  obtain ys j zs where j: "[a .. b] = ys @ j # zs" "f j = Some r" "\<forall>y \<in> set ys. f y = None"
    using first_run_Some [OF assms(1)] by blast
  have "k \<in> set [a .. b]" using assms(2) by simp
  then have "k = j \<or> k \<in> set zs" using j assms(3) by auto
  moreover have "sorted (ys @ j # zs)" unfolding j(1) [symmetric] by (rule sorted_upto)
  ultimately have "j \<le> k" by (auto simp: sorted_append)
  moreover have "j \<in> set [a .. b]" unfolding j(1) by simp
  ultimately show ?thesis using j(2) by auto
qed

text \<open>The same clock time on an earlier local day comes first.\<close>

lemma day_order:
  assumes "calm z" and t0: "0 \<le> t" and "time (local_clock z r) = at_time (i :: sched_input)" "time (local_clock z t) = at_time i"
    and "date_epoch (local_clock z r) < date_epoch (local_clock z t)"
  shows "r \<le> t"
proof (rule ccontr)
  assume "\<not> r \<le> t"
  then have s: "t div 1000 \<le> r div 1000" by (intro zdiv_mono1) simp_all
  moreover have "0 \<le> t div 1000" using t0 by (simp add: pos_imp_zdiv_nonneg_iff)
  ultimately have bk: "z (t div 1000) - z (r div 1000) < 86340" using assms(1) by (auto simp: calm_def)
  have r: "wall_of i (date_epoch (local_clock z r)) = (wall_seconds z r - wall_seconds z r mod 60) * 1000"
    and t: "wall_of i (date_epoch (local_clock z t)) = (wall_seconds z t - wall_seconds z t mod 60) * 1000"
    using wall_of_clock assms(3,4) by blast+
  have "date_epoch (local_clock z r) + day_ms \<le> date_epoch (local_clock z t)"
    using assms(5) by (simp add: local_clock_simps)
  then have "wall_of i (date_epoch (local_clock z r)) + day_ms \<le> wall_of i (date_epoch (local_clock z t))"
    by (simp add: wall_of_def split_def Let_def)
  then have "wall_seconds z r - wall_seconds z r mod 60 + 86400 \<le> wall_seconds z t - wall_seconds z t mod 60"
    unfolding r t by simp
  moreover have "wall_seconds z r mod 60 < 60" "0 \<le> wall_seconds z t mod 60" by simp_all
  ultimately have "wall_seconds z r + 86340 \<le> wall_seconds z t" by linarith
  then show False using s bk by (simp add: wall_seconds_def)
qed

lemma clock_date_year:
  assumes "within_a_day z" "0 \<le> t" "date_of (wall_seconds z t div 86400) = (y, m, d)"
  shows "0 \<le> y"
proof (rule ccontr)
  assume "\<not> 0 \<le> y"
  have "-1 \<le> wall_seconds z t div 86400" by (rule day_of_instant [OF assms(1,2)])
  moreover have "wall_seconds z t div 86400 + 719528 < year_start (y + 1)"
    using assms(3) year_of_bounds [of "wall_seconds z t div 86400 + 719528"]
    by (auto simp: date_of_def Let_def split: prod.splits)
  moreover have "year_start (y + 1) \<le> year_start 0"
    using \<open>\<not> 0 \<le> y\<close> year_start_less [of "y + 1" 0] by (cases "y + 1 = 0") auto
  moreover have "year_start 0 = 0" by (simp add: year_start_def)
  ultimately show False by linarith
qed

definition shows_at :: "zone \<Rightarrow> sched_input \<Rightarrow> int \<Rightarrow> bool" where
  "shows_at z i t \<longleftrightarrow> date (local_clock z t) = at_date i \<and> time (local_clock z t) = at_time i"

text \<open>An instant that shows the date lies on the day the date names.\<close>

lemma shown_day:
  assumes "within_a_day z" "0 \<le> t" "date (local_clock z t) = v" "date_pattern v"
  shows "parse_date v = Some (wall_seconds z t div 86400)" and "format_date (wall_seconds z t div 86400) = v"
proof -
  obtain y m d where d: "date_of (wall_seconds z t div 86400) = (y, m, d)" by (metis prod_cases3)
  have v: "format_date (wall_seconds z t div 86400) = v" using assms(3) by (simp add: local_clock_simps)
  have "length v = 10" using assms(4) by (simp add: date_shape_def)
  then have "0 \<le> y" "y < 10000"
    using clock_date_year [OF assms(1,2) d] format_date_year [OF d] v by simp_all
  from parse_format_date(1) [OF d this] v
  show "parse_date v = Some (wall_seconds z t div 86400)" by simp
  show "format_date (wall_seconds z t div 86400) = v" by (rule v)
qed

lemma one_time_run_sound:
  assumes "one_time_run tz i = Some r" "load_location tz (timezone i) = Some z"
  shows "0 \<le> r \<and> shows_at z i r"
proof -
  obtain day where d: "format_date day = at_date i" and f: "find (\<lambda>c. date_epoch (local_clock z c) = day * day_ms \<and>
      time (local_clock z c) = at_time i) (sort (filter (\<lambda>c. c \<ge> 0)
        (map (\<lambda>off. wall_of i (day * day_ms) - off) (day_offsets z (day * day_ms))))) = Some r"
    using assms by (auto simp: one_time_run_def Let_def split: if_splits option.splits)
  from find_sort_sound [OF f] have "0 \<le> r" "wall_seconds z r div 86400 = day" "time (local_clock z r) = at_time i"
    by (auto simp: local_clock_simps)
  then show ?thesis using d by (simp add: shows_at_def local_clock_simps(1))
qed

lemma one_time_run_least:
  assumes "load_location tz (timezone i) = Some z" "time_pattern (at_time i)" "date_pattern (at_date i)"
    and "within_a_day z"
    and steady: "\<And>day. parse_date (at_date i) = Some day \<Longrightarrow> -1 \<le> day \<Longrightarrow> steady z (day * 86400)"
    and t: "0 \<le> t" "shows_at z i t"
  shows "\<exists>r. one_time_run tz i = Some r \<and> r \<le> t"
proof -
  define day where "day = wall_seconds z t div 86400"
  have p: "parse_date (at_date i) = Some day" "format_date day = at_date i"
    using shown_day [OF assms(4) t(1) _ assms(3)] t(2) by (simp_all add: shows_at_def day_def)
  have e: "date_epoch (local_clock z t) = day * day_ms" by (simp add: local_clock_simps day_def)
  have v: "time (local_clock z t) = at_time i" using t(2) by (simp add: shows_at_def)
  let ?c = "minute_start (local_clock z t)"
  have "-1 \<le> day" unfolding day_def by (rule day_of_instant [OF assms(4) t(1)])
  note st = steady [OF p(1) this]
  note c = candidate_before [OF assms(4) st t(1) e v]
  have "0 \<le> ?c"
    using minute_start_steady [OF assms(4) st t(1) e] t(1) by (simp add: pos_imp_zdiv_nonneg_iff)
  then have "?c \<in> set (filter (\<lambda>c. c \<ge> 0)
      (map (\<lambda>off. wall_of i (day * day_ms) - off) (day_offsets z (day * day_ms))))"
    using c(1) by auto
  from find_sort [OF this, of "\<lambda>c. date_epoch (local_clock z c) = day * day_ms \<and> time (local_clock z c) = at_time i"] c(2,4,5)
  obtain r where "find (\<lambda>c. date_epoch (local_clock z c) = day * day_ms \<and> time (local_clock z c) = at_time i)
      (sort (filter (\<lambda>c. c \<ge> 0)
        (map (\<lambda>off. wall_of i (day * day_ms) - off) (day_offsets z (day * day_ms))))) = Some r" "r \<le> t"
    by auto
  then show ?thesis using assms(1,2) p by (simp add: one_time_run_def Let_def)
qed

section \<open>Recurring schedules: lemmas\<close>

definition eligible :: "tzdb \<Rightarrow> sched_input \<Rightarrow> string \<Rightarrow> int \<Rightarrow> bool" where
  "eligible tz i last_slot t \<longleftrightarrow> slot tz i t \<noteq> [] \<and> slot tz i t \<noteq> last_slot"

text \<open>The local day of an instant.\<close>

definition local_day :: "zone \<Rightarrow> int \<Rightarrow> int" where
  "local_day z t = date_epoch (local_clock z t) div day_ms"

lemma local_day_epoch: "date_epoch (local_clock z t) = local_day z t * day_ms"
  by (simp add: local_day_def local_clock_simps)

lemma local_day_low: "within_a_day z \<Longrightarrow> 0 \<le> t \<Longrightarrow> -1 \<le> local_day z t"
  using day_of_instant [of z t] by (simp add: local_day_def local_clock_simps)

lemma valid_clock_now: "valid_clock tz i now = Some z \<Longrightarrow> 0 \<le> now"
  by (auto simp: valid_clock_def split: if_splits)

lemma valid_clock_later: "valid_clock tz i now = Some z \<Longrightarrow> 0 \<le> t \<Longrightarrow> valid_clock tz i t = Some z"
  by (auto simp: valid_clock_def split: if_splits)

lemma slot_recurring:
  assumes "valid_clock tz i now = Some z" "kind i \<noteq> ''once''" "0 \<le> t"
  shows "slot tz i t = clock_slot i (local_clock z t)"
  using valid_clock_later [OF assms(1,3)] assms(2) by (simp add: slot_def)

lemma slot_shown:
  "clock_slot i c \<noteq> [] \<Longrightarrow> time c = at_time i \<and> weekday (date_epoch c) \<in> set (days i)"
  by (auto simp: clock_slot_def split: if_splits)

lemma eligible_nonneg: "eligible tz i l t \<Longrightarrow> 0 \<le> t"
  by (auto simp: eligible_def slot_def valid_clock_def split: if_splits)

lemma day_run_sound:
  assumes "day_run i z cur l k = Some r"
  shows "minute_start cur \<le> r \<and> 0 \<le> r \<and> date_epoch (local_clock z r) = date_epoch cur + k * day_ms \<and>
    clock_slot i (local_clock z r) \<noteq> [] \<and> clock_slot i (local_clock z r) \<noteq> l"
  using assms by (auto simp: day_run_def Let_def split: if_splits dest!: find_sort_sound)

lemma day_run_least:
  assumes "calm z" "steady z (local_day z t * 86400)" "date_epoch cur + k * day_ms = date_epoch (local_clock z t)"
    and "clock_slot i (local_clock z t) \<noteq> []" "clock_slot i (local_clock z t) \<noteq> l"
    and "minute_start cur \<le> minute_start (local_clock z t)" "0 \<le> t"
  shows "\<exists>r. day_run i z cur l k = Some r \<and> r \<le> t"
proof -
  let ?c = "minute_start (local_clock z t)" and ?e = "local_day z t * day_ms"
  note w = slot_shown [OF assms(4)]
  note c = candidate_before [OF calm_within [OF assms(1)] assms(2,7) local_day_epoch conjunct1 [OF w]]
  have "0 \<le> ?c"
    using minute_start_steady [OF calm_within [OF assms(1)] assms(2,7) local_day_epoch] assms(7) by (simp add: pos_imp_zdiv_nonneg_iff)
  then have m: "?c \<in> set (filter (\<lambda>c. c \<ge> minute_start cur \<and> c \<ge> 0)
      (map (\<lambda>off. wall_of i ?e - off) (day_offsets z ?e)))"
    using c(1) assms(6) by auto
  have same: "clock_slot i (local_clock z ?c) = clock_slot i (local_clock z t)"
    using c(4-6) w by (simp add: clock_slot_def local_day_epoch)
  let ?P = "\<lambda>c. let cl = local_clock z c; s = clock_slot i cl in date_epoch cl = ?e \<and> s \<noteq> [] \<and> s \<noteq> l"
  have "?P ?c" using c(4) same assms(4,5) by simp
  from find_sort [of ?c _ ?P, OF m this] c(2)
  obtain r where "find ?P (sort (filter (\<lambda>c. c \<ge> minute_start cur \<and> c \<ge> 0)
      (map (\<lambda>off. wall_of i ?e - off) (day_offsets z ?e)))) = Some r" "r \<le> t" by auto
  moreover have "date_epoch cur + k * day_ms = ?e" using assms(3) local_day_epoch by simp
  ultimately show ?thesis using w by (simp add: day_run_def Let_def local_day_epoch)
qed

text \<open>Time forward, the local day goes back by one at most.\<close>

lemma local_day_back:
  assumes "calm z" "0 \<le> now" "now \<le> t"
  shows "local_day z now - 1 \<le> local_day z t"
proof -
  have "now div 1000 \<le> t div 1000" using assms(3) by (rule zdiv_mono1) simp
  moreover from this have "0 \<le> now div 1000" using assms(2) by (simp add: pos_imp_zdiv_nonneg_iff)
  moreover from calculation have "z (now div 1000) - z (t div 1000) < 86340" using assms(1) by (auto simp: calm_def)
  ultimately have "wall_seconds z now + -1 * 86400 \<le> wall_seconds z t" unfolding wall_seconds_def by linarith
  then have "(wall_seconds z now + -1 * 86400) div 86400 \<le> wall_seconds z t div 86400" by (rule zdiv_mono1) simp
  then show ?thesis by (simp add: local_day_def local_clock_simps)
qed

lemma day_run_day:
  "day_run i z (local_clock z now) l k = Some r \<Longrightarrow> local_day z r = local_day z now + k"
  using day_run_sound [of i z "local_clock z now" l k r] by (simp add: local_day_epoch)

lemma eligible_clock:
  assumes "valid_clock tz i now = Some z" "kind i \<noteq> ''once''" "eligible tz i l t"
  shows "0 \<le> t" and "time (local_clock z t) = at_time i"
    and "clock_slot i (local_clock z t) \<noteq> []" and "clock_slot i (local_clock z t) \<noteq> l"
  using eligible_nonneg [OF assms(3)] slot_recurring [OF assms(1,2), of t] assms(3) slot_shown
  by (auto simp: eligible_def)

text \<open>Of two eligible instants, the one on the earlier local day is the earlier one.\<close>

lemma eligible_order:
  assumes "valid_clock tz i now = Some z" "kind i \<noteq> ''once''" "calm z" "eligible tz i l r" "eligible tz i l t"
  shows "local_day z r < local_day z t \<Longrightarrow> r \<le> t"
  using day_order [OF assms(3), of t r i] eligible_clock(1,2) [OF assms(1,2)] assms(4,5)
  by (simp add: local_day_epoch)

text \<open>The search of a day finds an instant no later than any eligible one of that day.\<close>

lemma day_search:
  assumes valid: "valid_clock tz i now = Some z" and rec: "kind i \<noteq> ''once''" and calm: "calm z"
    and steady: "\<And>k. -1 \<le> k \<Longrightarrow> k \<le> 14 \<Longrightarrow> -1 \<le> local_day z now + k \<Longrightarrow>
      steady z ((local_day z now + k) * 86400)"
    and t: "now \<le> t" "eligible tz i last_slot t" "local_day z t \<le> local_day z now + 14"
  shows "\<exists>r. day_run i z (local_clock z now) last_slot (local_day z t - local_day z now) = Some r \<and> r \<le> t"
proof (rule day_run_least [OF calm])
  have now: "0 \<le> now" and t0: "0 \<le> t" using valid_clock_now [OF valid] t(1) by simp_all
  note low = local_day_low [OF calm_within [OF calm]]
  have k: "-1 \<le> local_day z t - local_day z now" using local_day_back [OF calm now t(1)] by simp
  show st: "steady z (local_day z t * 86400)" using steady [OF k] low [OF t0] t(3) by simp
  show "date_epoch (local_clock z now) + (local_day z t - local_day z now) * day_ms = date_epoch (local_clock z t)"
    by (simp add: local_day_epoch left_diff_distrib)
  have "minute_start (local_clock z now) = now div minute * minute"
    by (rule minute_start_steady [OF calm_within [OF calm] _ now local_day_epoch])
      (use steady [of 0] low [OF now] in simp)
  then show "minute_start (local_clock z now) \<le> minute_start (local_clock z t)"
    using minute_start_steady [OF calm_within [OF calm] st t0 local_day_epoch] t(1) by (simp add: zdiv_mono1)
qed (use eligible_clock [OF valid rec t(2)] in simp_all)

section \<open>Properties\<close>

text \<open>
  C13. \<open>OneTimeRun\<close> is the first instant at which clocks in the zone show the schedule's date and
  time, and gives nothing exactly when no instant shows them (a spring gap or an invalid date).
  Hypotheses on the zone: from 1970 on its offsets are at most a day, and around the date, when
  that is not before 31 December 1969, the offset changes at most once, on a whole minute, between
  offsets of whole minutes.
\<close>

theorem one_time_run_first:
  assumes "load_location tz (timezone i) = Some z" "time_pattern (at_time i)" "date_pattern (at_date i)"
    and "within_a_day z"
    and "\<And>day. parse_date (at_date i) = Some day \<Longrightarrow> -1 \<le> day \<Longrightarrow> steady z (day * 86400)"
  shows "(\<forall>r. one_time_run tz i = Some r \<longrightarrow>
            0 \<le> r \<and> shows_at z i r \<and> (\<forall>t. 0 \<le> t \<and> shows_at z i t \<longrightarrow> r \<le> t)) \<and>
         (one_time_run tz i = None \<longrightarrow> (\<nexists>t. 0 \<le> t \<and> shows_at z i t))"
  using one_time_run_sound [OF _ assms(1)] one_time_run_least [OF assms] by fastforce

text \<open>A zone that leaves summer time at 01:00 UTC on 2026-10-25: 02:30 local time happens twice.\<close>

definition autumn :: zone where
  "autumn s = (if s < 1792890000 then 7200 else 3600)"

definition autumn_db :: tzdb where
  "autumn_db name = (if name = ''X'' then Some autumn else None)"

definition autumn_once :: sched_input where
  "autumn_once = \<lparr>kind = ''once'', enabled = True, at_time = ''02:30'', timezone = ''X'', days = [],
     at_date = ''2026-10-25''\<rparr>"

lemma autumn_calm: "calm autumn"
  by (simp add: calm_def within_a_day_def autumn_def)

lemma autumn_steady: "steady autumn e"
  unfolding steady_def autumn_def by (intro exI [of _ 1792890000] exI [of _ 7200] exI [of _ 3600]) simp

lemma autumn_loads: "load_location autumn_db ''X'' = Some autumn"
  by (simp add: load_location_def autumn_db_def)

lemma one_time_run_first_witness:
  "\<exists>r. one_time_run autumn_db autumn_once = Some r \<and>
     (\<forall>t. 0 \<le> t \<and> shows_at autumn autumn_once t \<longrightarrow> r \<le> t)"
proof -
  have p: "time_pattern (at_time autumn_once)" "date_pattern (at_date autumn_once)"
    by (simp_all add: autumn_once_def time_pattern_def date_shape_def is_digit_def digit_val_def)
  have "one_time_run autumn_db autumn_once = Some 1792888200000" by code_simp
  then show ?thesis
    using one_time_run_first [of autumn_db autumn_once autumn, OF _ p calm_within [OF autumn_calm] autumn_steady]
    by (simp add: autumn_once_def autumn_loads)
qed

text \<open>
  C16. A one-time schedule has its slot exactly in the five minutes from its run, and once that
  slot is consumed there is no next run, whatever the time and the zone.
\<close>

theorem one_time_slot_once:
  assumes "kind i = ''once''"
  shows "(slot tz i now \<noteq> [] \<longleftrightarrow>
            valid_clock tz i now \<noteq> None \<and>
            (\<exists>r. one_time_run tz i = Some r \<and> r \<le> now \<and> now < r + 300000)) \<and>
         (slot tz i now \<noteq> [] \<longrightarrow> (\<forall>later. next_run tz i later (slot tz i now) = None))"
  using assms
  by (auto simp: slot_def next_run_def pending_one_time_def one_time_grace_def one_time_slot_def
      split: option.splits)

lemma one_time_slot_once_witness:
  "slot autumn_db autumn_once 1792888200000 = ''2026-10-25T02:30:X'' \<and>
   next_run autumn_db autumn_once 1792888200001 ''2026-10-25T02:30:X'' = None"
proof -
  have "slot autumn_db autumn_once 1792888200000 = ''2026-10-25T02:30:X''" by code_simp
  then show ?thesis
    using one_time_slot_once [of autumn_once autumn_db 1792888200000] by (simp add: autumn_once_def)
qed

text \<open>
  C14. For a recurring schedule, \<open>NextRun\<close> gives an instant, not before the current minute, that
  has a slot other than the last one, and none from now on comes before it; when it gives
  nothing, no such instant exists up to the end of the fourteenth local day from now. Hypotheses
  on the zone: from 1970 on its offsets are at most a day and it never moves a clock back by a
  day or more, and around each of the days searched the offset changes at most once, on a whole
  minute, between offsets of whole minutes.
\<close>

theorem next_run_first:
  assumes valid: "valid_clock tz i now = Some z" and rec: "kind i \<noteq> ''once''" and calm: "calm z"
    and steady: "\<And>k. -1 \<le> k \<Longrightarrow> k \<le> 14 \<Longrightarrow> -1 \<le> local_day z now + k \<Longrightarrow>
      steady z ((local_day z now + k) * 86400)"
  shows "case next_run tz i now last_slot of
      Some r \<Rightarrow> eligible tz i last_slot r \<and> now div minute * minute \<le> r \<and>
        (\<forall>t \<ge> now. eligible tz i last_slot t \<longrightarrow> r \<le> t)
    | None \<Rightarrow> (\<forall>t \<ge> now. eligible tz i last_slot t \<longrightarrow> local_day z now + 14 < local_day z t)"
proof -
  have nr: "next_run tz i now last_slot = first_run (day_run i z (local_clock z now) last_slot) [-1 .. 14]"
    using valid rec by (simp add: next_run_def)
  have now: "0 \<le> now" by (rule valid_clock_now [OF valid])
  have mn: "minute_start (local_clock z now) = now div minute * minute"
    by (rule minute_start_steady [OF calm_within [OF calm] _ now local_day_epoch])
      (use steady [of 0] local_day_low [OF calm_within [OF calm] now] in simp)
  show ?thesis
  proof (cases "next_run tz i now last_slot")
    case None
    then have none: "k \<in> {-1 .. 14} \<Longrightarrow> day_run i z (local_clock z now) last_slot k = None" for k
      unfolding nr first_run_None by simp
    have "local_day z now + 14 < local_day z t" if "now \<le> t" "eligible tz i last_slot t" for t
      using day_search [OF valid rec calm steady that] none [of "local_day z t - local_day z now"]
        local_day_back [OF calm now that(1)] by force
    then show ?thesis using None by simp
  next
    case (Some r)
    then obtain k where k: "k \<in> {-1 .. 14}" "day_run i z (local_clock z now) last_slot k = Some r"
      using first_run_Some [of _ "[-1 .. 14]" r] unfolding nr by (metis in_set_conv_decomp set_upto)
    have el: "eligible tz i last_slot r" and "now div minute * minute \<le> r"
      using day_run_sound [OF k(2)] mn slot_recurring [OF valid rec] by (simp_all add: eligible_def)
    moreover have "r \<le> t" if t: "now \<le> t" "eligible tz i last_slot t" for t
    proof (cases "local_day z t \<le> local_day z r")
      case True
      then have in14: "local_day z t - local_day z now \<in> {-1 .. 14}"
        using local_day_back [OF calm now t(1)] day_run_day [OF k(2)] k(1) by simp
      then obtain r' where r': "day_run i z (local_clock z now) last_slot (local_day z t - local_day z now) = Some r'" "r' \<le> t"
        using day_search [OF valid rec calm steady t] by auto
      obtain j where j: "j \<le> local_day z t - local_day z now" "day_run i z (local_clock z now) last_slot j = Some r"
        using first_run_upto [OF _ in14, of _ r] Some r'(1) unfolding nr by (metis option.distinct(1))
      show ?thesis
        using j r' day_run_day [OF j(2)] eligible_order [OF valid rec calm el t(2)]
        by (cases "j = local_day z t - local_day z now") auto
    qed (use eligible_order [OF valid rec calm el t(2)] in simp)
    ultimately show ?thesis using Some by simp
  qed
qed

definition autumn_weekly :: sched_input where
  "autumn_weekly = \<lparr>kind = ''recurring'', enabled = True, at_time = ''02:30'', timezone = ''X'', days = [0],
     at_date = []\<rparr>"

lemma next_run_first_witness:
  "\<exists>r. next_run autumn_db autumn_weekly 1792800000000 [] = Some r \<and>
     eligible autumn_db autumn_weekly [] r \<and> (\<forall>t \<ge> 1792800000000. eligible autumn_db autumn_weekly [] t \<longrightarrow> r \<le> t)"
proof -
  have v: "valid_clock autumn_db autumn_weekly 1792800000000 = Some autumn"
    by (simp add: valid_clock_def autumn_weekly_def time_pattern_def is_digit_def digit_val_def autumn_loads)
  have "next_run autumn_db autumn_weekly 1792800000000 [] = Some 1792888200000" by code_simp
  then show ?thesis
    using next_run_first [OF v _ autumn_calm autumn_steady, of "[]"] by (simp add: autumn_weekly_def)
qed

end
