(* ===== verification/Database.thy ===== *)
theory Database
  imports Base
begin

text \<open>
  The tables of \<open>src/internal/db/migrations.go\<close> that accounts, identity, authorization, operations and schedules use,
  and what SQLite does with them: transactions, the constraints of the schema, cascades, and
  the audit log of \<open>db/accounts.go\<close>. An operation maps a database to a database and a result;
  failures of SQLite itself (a full disk, a cancelled context) are not modelled, and times
  read with \<open>Now()\<close> are arguments. Details of audit entries are JSON values.
\<close>

datatype json =
    JNull
  | JBool bool
  | JNum string
  | JStr string
  | JArr "json list"
  | JObj "(string \<times> json) list"

section \<open>Rows\<close>

record user_row =
  u_id :: string
  u_name :: string
  u_hash :: string
  u_role :: string
  u_disabled :: int
  u_created :: int
  u_updated :: int

record session_row =
  s_token :: string
  s_id :: string
  s_user :: string
  s_created :: int
  s_expires :: int
  s_seen :: int
  s_ip :: "string option"
  s_agent :: "string option"

record attempt_row =
  l_key :: string
  l_failures :: int
  l_started :: int
  l_blocked :: int
  l_updated :: int

record audit_row =
  a_id :: int
  a_user :: "string option"
  a_action :: string
  a_type :: "string option"
  a_target :: "string option"
  a_details :: "json option"
  a_ip :: "string option"
  a_created :: int

record server_row =
  v_id :: string
  v_host :: string
  v_external :: string
  v_container :: "string option"
  v_name :: string
  v_game :: string
  v_status :: string
  v_revision :: int
  v_fingerprint :: string
  v_pending :: "string option"
  v_pending_game :: "string option"
  v_review :: int
  v_first :: int
  v_seen :: int

record binding_row =
  b_id :: int
  b_server :: string
  b_revision :: int
  b_container :: string
  b_fingerprint :: string
  b_observed :: int
  b_accepted :: int

record grant_row =
  g_user :: string
  g_server :: string
  g_caps :: string
  g_updated :: int

record operation_row =
  p_id :: string
  p_server :: string
  p_actor :: string
  p_kind :: string
  p_status :: string
  p_phase :: string
  p_input :: string
  p_recovery :: string
  p_binding :: int
  p_key :: "string option"
  p_created :: int
  p_updated :: int
  p_error :: "string option"
  p_result :: "string option"

record schedule_row =
  c_id :: string
  c_server :: string
  c_owner :: string
  c_input :: string
  c_binding :: int
  c_slot :: "string option"
  c_result :: "string option"
  c_created :: int
  c_revision :: int
  c_operation :: "string option"
  c_run_at :: "int option"

record announcement_row =
  w_schedule :: string
  w_slot :: string
  w_lead :: int

text \<open>\<open>audit_seq\<close> and \<open>binding_seq\<close> are SQLite's AUTOINCREMENT; the last two are counters of the process.\<close>

record database =
  users :: "user_row list"
  sessions :: "session_row list"
  attempts :: "attempt_row list"
  audits :: "audit_row list"
  audit_seq :: int
  settings :: "(string \<times> json) list"
  hosts :: "(string \<times> string) list"
  servers :: "server_row list"
  bindings :: "binding_row list"
  binding_seq :: int
  grants :: "grant_row list"
  operations :: "operation_row list"
  schedules :: "schedule_row list"
  announcements :: "announcement_row list"
  failures_since_prune :: nat
  audits_since_prune :: nat

definition empty_db :: database where
  "empty_db = \<lparr>users = [], sessions = [], attempts = [], audits = [], audit_seq = 0, settings = [], hosts = [],
     servers = [], bindings = [], binding_seq = 0, grants = [],
     operations = [], schedules = [], announcements = [], failures_since_prune = 0, audits_since_prune = 0\<rparr>"

section \<open>Operations and transactions\<close>

datatype db_error =
    SetupComplete
  | SessionGone
  | PasswordChanged
  | LastAdmin
  | UserNotFound
  | AccountChanged
  | NotAdmin
  | UniqueViolation
  | ConstraintViolation
  | NoRows
  | HashFailure
  | TooMany int
  | Suspended string
  | ScheduleMissed bool
  | ScheduleChanged
  | InvalidSaved
  | PublicError string int

type_synonym 'a db_op = "database \<Rightarrow> database \<times> (db_error + 'a)"

definition done_with :: "'a \<Rightarrow> 'a db_op" where
  "done_with x d = (d, Inr x)"

definition fail_with :: "db_error \<Rightarrow> 'a db_op" where
  "fail_with e d = (d, Inl e)"

definition and_then :: "'a db_op \<Rightarrow> ('a \<Rightarrow> 'b db_op) \<Rightarrow> 'b db_op" where
  "and_then m f d = (case m d of (d', Inl e) \<Rightarrow> (d', Inl e) | (d', Inr x) \<Rightarrow> f x d')"

definition check_that :: "bool \<Rightarrow> db_error \<Rightarrow> unit db_op" where
  "check_that b e d = (d, if b then Inr () else Inl e)"

definition reads :: "(database \<Rightarrow> 'a) \<Rightarrow> 'a db_op" where
  "reads f d = (d, Inr (f d))"

definition writes :: "(database \<Rightarrow> database) \<Rightarrow> unit db_op" where
  "writes f d = (f d, Inr ())"

text \<open>\<open>Tx\<close>: an error rolls the tables back; the counter of audit entries is not in them.\<close>

definition tx :: "'a db_op \<Rightarrow> 'a db_op" where
  "tx m d = (case m d of (d', Inl e) \<Rightarrow> (d\<lparr>audits_since_prune := audits_since_prune d'\<rparr>, Inl e)
                       | (d', Inr x) \<Rightarrow> (d', Inr x))"

definition map_failure :: "(db_error \<Rightarrow> db_error) \<Rightarrow> 'a db_op \<Rightarrow> 'a db_op" where
  "map_failure f m d = (case m d of (d', Inl e) \<Rightarrow> (d', Inl (f e)) | (d', Inr x) \<Rightarrow> (d', Inr x))"

lemma db_op_simps [simp]:
  "done_with x d = (d, Inr x)" "fail_with e d = (d, Inl e)" "reads f d = (d, Inr (f d))"
  "writes f' d = (f' d, Inr ())" "check_that b e d = (d, if b then Inr () else Inl e)"
  by (simp_all add: done_with_def fail_with_def reads_def writes_def check_that_def)

lemma and_then_Inr:
  "and_then m f d = (d2, Inr y) \<longleftrightarrow> (\<exists>d1 x. m d = (d1, Inr x) \<and> f x d1 = (d2, Inr y))"
  by (auto simp: and_then_def split: prod.splits sum.splits)

lemma tx_Inr [simp]: "tx m d = (d', Inr x) \<longleftrightarrow> m d = (d', Inr x)"
  by (auto simp: tx_def split: prod.splits sum.splits)

lemma map_failure_Inr [simp]: "map_failure f m d = (d', Inr x) \<longleftrightarrow> m d = (d', Inr x)"
  by (auto simp: map_failure_def split: prod.splits sum.splits)

text \<open>What every operation of a set keeps: rules that follow the structure of the operation.\<close>

definition keeps :: "(database \<Rightarrow> bool) \<Rightarrow> 'a db_op \<Rightarrow> bool" where
  "keeps P m \<longleftrightarrow> (\<forall>d. P d \<longrightarrow> P (fst (m d)))"

named_theorems db_keeps

lemma keeps_done [db_keeps]: "keeps P (done_with x)"
  and keeps_fail [db_keeps]: "keeps P (fail_with e)"
  and keeps_check [db_keeps]: "keeps P (check_that b e)"
  and keeps_reads [db_keeps]: "keeps P (reads f)"
  by (simp_all add: keeps_def)

lemma keeps_writes: "(\<And>d. P d \<Longrightarrow> P (f d)) \<Longrightarrow> keeps P (writes f)"
  by (simp add: keeps_def)

lemma keeps_and_then [db_keeps]: "keeps P m \<Longrightarrow> (\<And>x. keeps P (f x)) \<Longrightarrow> keeps P (and_then m f)"
  by (fastforce simp: keeps_def and_then_def split: prod.splits sum.splits)

lemma keeps_if [db_keeps]: "keeps P m \<Longrightarrow> keeps P m' \<Longrightarrow> keeps P (if b then m else m')"
  by simp

lemma keeps_option [db_keeps]:
  "keeps P m \<Longrightarrow> (\<And>x. keeps P (f x)) \<Longrightarrow> keeps P (case v of None \<Rightarrow> m | Some x \<Rightarrow> f x)"
  by (cases v) simp_all

lemma keeps_tx [db_keeps]:
  "(\<And>d n. P (d\<lparr>audits_since_prune := n\<rparr>) = P d) \<Longrightarrow> keeps P m \<Longrightarrow> keeps P (tx m)"
  by (fastforce simp: keeps_def tx_def split: prod.splits sum.splits)

lemma keeps_map_failure [db_keeps]: "keeps P m \<Longrightarrow> keeps P (map_failure f m)"
  by (fastforce simp: keeps_def map_failure_def split: prod.splits sum.splits)

lemma keeps_result: "keeps P m \<Longrightarrow> m d = (d', r) \<Longrightarrow> P d \<Longrightarrow> P d'"
  unfolding keeps_def by (metis fst_conv)

section \<open>The statements\<close>

text \<open>A text argument that is stored as NULL when empty.\<close>

definition nullable :: "string \<Rightarrow> string option" where
  "nullable v = (if v = [] then None else Some v)"

definition bool_int :: "bool \<Rightarrow> int" where
  "bool_int b = (if b then 1 else 0)"

definition valid_role :: "string \<Rightarrow> bool" where
  "valid_role v \<longleftrightarrow> v = ''admin'' \<or> v = ''operator'' \<or> v = ''viewer''"

definition user_exists :: "database \<Rightarrow> string \<Rightarrow> bool" where
  "user_exists d i \<longleftrightarrow> (\<exists>u \<in> set (users d). u_id u = i)"

text \<open>INSERT INTO users: the primary key, UNIQUE COLLATE NOCASE on the name, the CHECK on the role.\<close>

definition insert_user :: "user_row \<Rightarrow> unit db_op" where
  "insert_user u d =
     (if \<not> valid_role (u_role u) then (d, Inl ConstraintViolation)
      else if \<exists>v \<in> set (users d). u_id v = u_id u \<or> to_lower (u_name v) = to_lower (u_name u)
      then (d, Inl UniqueViolation)
      else (d\<lparr>users := users d @ [u]\<rparr>, Inr ()))"

definition insert_session :: "session_row \<Rightarrow> unit db_op" where
  "insert_session s d =
     (if \<exists>t \<in> set (sessions d). s_token t = s_token s \<or> s_id t = s_id s then (d, Inl UniqueViolation)
      else if \<not> user_exists d (s_user s) then (d, Inl ConstraintViolation)
      else (d\<lparr>sessions := sessions d @ [s]\<rparr>, Inr ()))"

definition delete_sessions :: "(session_row \<Rightarrow> bool) \<Rightarrow> unit db_op" where
  "delete_sessions p = writes (\<lambda>d. d\<lparr>sessions := filter (\<lambda>s. \<not> p s) (sessions d)\<rparr>)"

text \<open>UPDATE users SET ... WHERE id = ? (and more): how many rows it changes. It never changes a key.\<close>

definition update_users :: "(user_row \<Rightarrow> bool) \<Rightarrow> (user_row \<Rightarrow> user_row) \<Rightarrow> nat db_op" where
  "update_users p f d =
     (if \<exists>u \<in> set (users d). p u \<and> \<not> valid_role (u_role (f u)) then (d, Inl ConstraintViolation)
      else (d\<lparr>users := map (\<lambda>u. if p u then f u else u) (users d)\<rparr>, Inr (length (filter p (users d)))))"

text \<open>DELETE FROM users: sessions, grants and schedules cascade, audit entries forget the account.\<close>

definition delete_user :: "string \<Rightarrow> unit db_op" where
  "delete_user i = writes (\<lambda>d. d\<lparr>users := filter (\<lambda>u. u_id u \<noteq> i) (users d),
     sessions := filter (\<lambda>s. s_user s \<noteq> i) (sessions d),
     grants := filter (\<lambda>g. g_user g \<noteq> i) (grants d),
     schedules := filter (\<lambda>c. c_owner c \<noteq> i) (schedules d),
     announcements := filter (\<lambda>w. \<not> (\<exists>c \<in> set (schedules d). c_id c = w_schedule w \<and> c_owner c = i)) (announcements d),
     audits := map (\<lambda>a. if a_user a = Some i then a\<lparr>a_user := None\<rparr> else a) (audits d)\<rparr>)"

definition delete_attempts :: "(attempt_row \<Rightarrow> bool) \<Rightarrow> unit db_op" where
  "delete_attempts p = writes (\<lambda>d. d\<lparr>attempts := filter (\<lambda>l. \<not> p l) (attempts d)\<rparr>)"

section \<open>The audit log\<close>

record audit_entry =
  e_user :: string
  e_action :: string
  e_type :: string
  e_target :: string
  e_details :: "json option"
  e_ip :: string

definition audit_prune_interval :: nat where
  "audit_prune_interval = 500"

definition audit_max_rows :: int where
  "audit_max_rows = 100000"

text \<open>\<open>PruneAudit\<close>: with an empty log the subquery is NULL and nothing is deleted.\<close>

definition prune_audit :: "unit db_op" where
  "prune_audit = writes (\<lambda>d. case audits d of
       [] \<Rightarrow> d
     | a # as \<Rightarrow> d\<lparr>audits := filter (\<lambda>r. \<not> a_id r \<le> Max (a_id ` set (audits d)) - audit_max_rows) (audits d)\<rparr>)"

definition prune_audit_if_needed :: "unit db_op" where
  "prune_audit_if_needed d =
     (if audits_since_prune d \<ge> audit_prune_interval then prune_audit (d\<lparr>audits_since_prune := 0\<rparr>)
      else (d, Inr ()))"

definition write_audit :: "int \<Rightarrow> bool \<Rightarrow> audit_entry \<Rightarrow> unit db_op" where
  "write_audit now in_tx e d =
     (if e_user e \<noteq> [] \<and> \<not> user_exists d (e_user e) then (d, Inl ConstraintViolation)
      else
        (let row = \<lparr>a_id = audit_seq d + 1, a_user = nullable (e_user e), a_action = e_action e,
                    a_type = nullable (e_type e), a_target = nullable (e_target e), a_details = e_details e,
                    a_ip = nullable (e_ip e), a_created = now\<rparr>;
             d' = d\<lparr>audits := audits d @ [row], audit_seq := audit_seq d + 1,
                    audits_since_prune := audits_since_prune d + 1\<rparr>
         in if in_tx then (d', Inr ()) else prune_audit_if_needed d'))"

section \<open>Settings\<close>

definition setting :: "database \<Rightarrow> string \<Rightarrow> json option" where
  "setting d key = map_of (settings d) key"

definition set_setting :: "string \<Rightarrow> json \<Rightarrow> unit db_op" where
  "set_setting key v = writes (\<lambda>d. d\<lparr>settings := AList.update key v (settings d)\<rparr>)"

definition delete_setting :: "string \<Rightarrow> unit db_op" where
  "delete_setting key = writes (\<lambda>d. d\<lparr>settings := AList.delete key (settings d)\<rparr>)"

section \<open>Integrity\<close>

text \<open>What the schema promises, as a predicate on the tables.\<close>

definition accounts_ok :: "database \<Rightarrow> bool" where
  "accounts_ok d \<longleftrightarrow>
     distinct (map u_id (users d)) \<and> distinct (map (\<lambda>u. to_lower (u_name u)) (users d)) \<and>
     list_all (\<lambda>u. valid_role (u_role u)) (users d) \<and>
     distinct (map s_token (sessions d)) \<and> distinct (map s_id (sessions d)) \<and>
     list_all (\<lambda>s. user_exists d (s_user s)) (sessions d) \<and>
     list_all (\<lambda>g. user_exists d (g_user g)) (grants d) \<and>
     list_all (\<lambda>a. \<forall>i \<in> set_option (a_user a). user_exists d i) (audits d) \<and>
     sorted_wrt (<) (map a_id (audits d)) \<and> list_all (\<lambda>a. a_id a \<le> audit_seq d) (audits d) \<and>
     distinct (map l_key (attempts d)) \<and> distinct (map fst (settings d))"

lemma accounts_ok_counter [simp]: "accounts_ok (d\<lparr>audits_since_prune := n\<rparr>) = accounts_ok d"
  by (simp add: accounts_ok_def user_exists_def)

lemma keeps_insert_user [db_keeps]: "keeps accounts_ok (insert_user u)"
  by (auto simp: keeps_def insert_user_def accounts_ok_def user_exists_def list_all_iff distinct_map
)

lemma keeps_insert_session [db_keeps]: "keeps accounts_ok (insert_session s)"
  by (auto simp: keeps_def insert_session_def accounts_ok_def user_exists_def list_all_iff)

lemma keeps_delete_sessions [db_keeps]: "keeps accounts_ok (delete_sessions p)"
  unfolding delete_sessions_def
  by (rule keeps_writes) (auto simp: accounts_ok_def user_exists_def list_all_iff distinct_map_filter)

lemma map_update_same: "(\<And>u. p u \<Longrightarrow> g (f u) = g u) \<Longrightarrow> map g (map (\<lambda>u. if p u then f u else u) xs) = map g xs"
  by simp

lemma keeps_update_users [db_keeps]:
  assumes "\<And>u. u_id (f u) = u_id u" "\<And>u. u_name (f u) = u_name u"
  shows "keeps accounts_ok (update_users p f)"
proof -
  have e: "user_exists (d\<lparr>users := map (\<lambda>u. if p u then f u else u) (users d)\<rparr>) i = user_exists d i" for d i
    using assms(1) by (auto simp: user_exists_def)
  show ?thesis
    using assms by (auto simp: keeps_def update_users_def accounts_ok_def e list_all_iff o_def if_distrib cong: if_cong)
qed

lemma keeps_delete_user [db_keeps]: "keeps accounts_ok (delete_user i)"
  unfolding delete_user_def
proof (rule keeps_writes)
  fix d assume ok: "accounts_ok d"
  have e: "user_exists (d\<lparr>users := filter (\<lambda>u. u_id u \<noteq> i) (users d), sessions := ss, grants := gs,
      schedules := cs, announcements := ws, audits := as\<rparr>) j =
      (user_exists d j \<and> j \<noteq> i)" for ss gs cs ws as j
    by (auto simp: user_exists_def)
  show "accounts_ok (d\<lparr>users := filter (\<lambda>u. u_id u \<noteq> i) (users d),
     sessions := filter (\<lambda>s. s_user s \<noteq> i) (sessions d),
     grants := filter (\<lambda>g. g_user g \<noteq> i) (grants d),
     schedules := filter (\<lambda>c. c_owner c \<noteq> i) (schedules d),
     announcements := filter (\<lambda>w. \<not> (\<exists>c \<in> set (schedules d). c_id c = w_schedule w \<and> c_owner c = i)) (announcements d),
     audits := map (\<lambda>a. if a_user a = Some i then a\<lparr>a_user := None\<rparr> else a) (audits d)\<rparr>)"
    using ok unfolding accounts_ok_def e
    by (auto simp: list_all_iff distinct_map_filter o_def if_distrib split: option.splits cong: if_cong)
qed

lemma keeps_delete_attempts [db_keeps]: "keeps accounts_ok (delete_attempts p)"
  unfolding delete_attempts_def
  by (rule keeps_writes) (auto simp: accounts_ok_def user_exists_def list_all_iff distinct_map_filter)

lemma keeps_prune_audit [db_keeps]: "keeps accounts_ok prune_audit"
  unfolding prune_audit_def
  by (rule keeps_writes)
     (auto simp: accounts_ok_def user_exists_def list_all_iff sorted_wrt_map sorted_wrt_filter split: list.split)

lemma keeps_prune_if_needed [db_keeps]: "keeps accounts_ok prune_audit_if_needed"
  using keeps_prune_audit by (auto simp: keeps_def prune_audit_if_needed_def)

lemma keeps_write_audit [db_keeps]: "keeps accounts_ok (write_audit now in_tx e)"
proof -
  have ok: "accounts_ok (d\<lparr>audits := audits d @ [r], audit_seq := audit_seq d + 1\<rparr>)"
    if "accounts_ok d" "a_id r = audit_seq d + 1" "\<And>i. a_user r = Some i \<Longrightarrow> user_exists d i" for d r
    using that by (fastforce simp: accounts_ok_def user_exists_def list_all_iff sorted_wrt_append)
  have p: "accounts_ok d \<Longrightarrow> accounts_ok (fst (prune_audit_if_needed d))" for d
    using keeps_prune_if_needed by (auto simp: keeps_def)
  show ?thesis
    by (auto simp: keeps_def write_audit_def Let_def nullable_def intro!: ok p)
qed

lemma keeps_settings [db_keeps]: "keeps accounts_ok (set_setting k v)" "keeps accounts_ok (delete_setting k)"
  unfolding set_setting_def delete_setting_def
  by (rule keeps_writes; auto simp: accounts_ok_def user_exists_def list_all_iff distinct_update distinct_delete)+

end
