(* ===== verification/Accounts.thy ===== *)
theory Accounts
  imports Database
begin

text \<open>
  Accounts, sessions, login throttles and the transactions over them:
  \<open>src/internal/db/accounts.go\<close>. A prune of the login attempts that fails is not modelled.
\<close>

section \<open>Accounts\<close>

record session_user =
  su_id :: string
  su_name :: string
  su_role :: string

definition user_disabled :: "user_row \<Rightarrow> bool" where
  "user_disabled u \<longleftrightarrow> u_disabled u = 1"

definition count_users :: "database \<Rightarrow> nat" where
  "count_users d = length (users d)"

definition create_user :: "user_row \<Rightarrow> unit db_op" where
  "create_user u = insert_user (u\<lparr>u_updated := u_created u\<rparr>)"

definition find_user :: "(user_row \<Rightarrow> bool) \<Rightarrow> database \<Rightarrow> user_row option" where
  "find_user p d = find p (users d)"

definition find_user_by_username :: "string \<Rightarrow> database \<Rightarrow> user_row option" where
  "find_user_by_username name = find_user (\<lambda>u. to_lower (u_name u) = to_lower name)"

definition find_user_by_id :: "string \<Rightarrow> database \<Rightarrow> user_row option" where
  "find_user_by_id i = find_user (\<lambda>u. u_id u = i)"

definition list_users :: "database \<Rightarrow> user_row list" where
  "list_users d = sort_key (\<lambda>u. to_lower (u_name u)) (users d)"

definition count_enabled_admins :: "database \<Rightarrow> nat" where
  "count_enabled_admins d = length (filter (\<lambda>u. u_role u = ''admin'' \<and> u_disabled u = 0) (users d))"

definition update_user_access :: "int \<Rightarrow> string \<Rightarrow> string \<Rightarrow> bool \<Rightarrow> unit db_op" where
  "update_user_access now i role disabled = tx (
     and_then (update_users (\<lambda>u. u_id u = i) (\<lambda>u. u\<lparr>u_role := role, u_disabled := bool_int disabled, u_updated := now\<rparr>)) (\<lambda>_.
     if disabled then delete_sessions (\<lambda>s. s_user s = i) else done_with ()))"

definition update_user_password :: "int \<Rightarrow> string \<Rightarrow> string \<Rightarrow> audit_entry \<Rightarrow> unit db_op" where
  "update_user_password now i hash audit = tx (
     and_then (update_users (\<lambda>u. u_id u = i) (\<lambda>u. u\<lparr>u_hash := hash, u_updated := now\<rparr>)) (\<lambda>_.
     and_then (delete_sessions (\<lambda>s. s_user s = i)) (\<lambda>_.
     write_audit now True audit)))"

definition upgrade_user_password_hash :: "int \<Rightarrow> string \<Rightarrow> string \<Rightarrow> unit db_op" where
  "upgrade_user_password_hash now i hash =
     and_then (update_users (\<lambda>u. u_id u = i) (\<lambda>u. u\<lparr>u_hash := hash, u_updated := now\<rparr>)) (\<lambda>_. done_with ())"

definition delete_user_sessions :: "string \<Rightarrow> unit db_op" where
  "delete_user_sessions i = delete_sessions (\<lambda>s. s_user s = i)"

section \<open>Sessions\<close>

text \<open>\<open>i_hash\<close> is empty when no password was verified.\<close>

record session_input =
  i_session :: string
  i_token :: string
  i_user :: string
  i_created :: int
  i_expires :: int
  i_ip :: string
  i_agent :: string
  i_hash :: string
  i_audit :: "audit_entry option"

definition session_of :: "session_input \<Rightarrow> session_row" where
  "session_of i = \<lparr>s_token = i_token i, s_id = i_session i, s_user = i_user i, s_created = i_created i,
     s_expires = i_expires i, s_seen = i_created i, s_ip = nullable (i_ip i), s_agent = nullable (i_agent i)\<rparr>"

definition insert_session_input :: "int \<Rightarrow> session_input \<Rightarrow> unit db_op" where
  "insert_session_input now i =
     and_then (reads (\<lambda>d. i_hash i = [] \<or>
         (\<exists>u \<in> set (users d). u_id u = i_user i \<and> u_hash u = i_hash i \<and> u_disabled u = 0))) (\<lambda>found.
     and_then (check_that found AccountChanged) (\<lambda>_.
     and_then (insert_session (session_of i)) (\<lambda>_.
       (case i_audit i of None \<Rightarrow> done_with () | Some a \<Rightarrow> write_audit now True a))))"

definition create_session :: "int \<Rightarrow> session_input \<Rightarrow> unit db_op" where
  "create_session now i = tx (
     and_then (delete_sessions (\<lambda>s. s_expires s \<le> i_created i)) (\<lambda>_. insert_session_input now i))"

text \<open>\<open>ListUserSessions\<close>: each session and whether it is the current one, newest activity first.\<close>

definition list_user_sessions :: "int \<Rightarrow> string \<Rightarrow> string \<Rightarrow> database \<Rightarrow> (session_row \<times> bool) list" where
  "list_user_sessions now i current d =
     map (\<lambda>s. (s, s_token s = current))
       (filter (\<lambda>s. s_id s \<noteq> [])
         (sort_key (\<lambda>s. - s_seen s) (filter (\<lambda>s. s_user s = i \<and> s_expires s > now) (sessions d))))"

definition delete_user_session_by_id :: "int \<Rightarrow> string \<Rightarrow> string \<Rightarrow> audit_entry \<Rightarrow> bool db_op" where
  "delete_user_session_by_id now i session audit = tx (
     and_then (reads (\<lambda>d. \<exists>s \<in> set (sessions d). s_user s = i \<and> s_id s = session)) (\<lambda>found.
     and_then (delete_sessions (\<lambda>s. s_user s = i \<and> s_id s = session)) (\<lambda>_.
     if \<not> found then done_with False
     else and_then (write_audit now True audit) (\<lambda>_. done_with True))))"

definition last_seen_write_interval :: int where
  "last_seen_write_interval = 60000"

definition delete_session :: "string \<Rightarrow> unit db_op" where
  "delete_session token = delete_sessions (\<lambda>s. s_token s = token)"

text \<open>The row of \<open>sessions JOIN users\<close> for a token.\<close>

definition session_join :: "string \<Rightarrow> database \<Rightarrow> (session_row \<times> user_row) option" where
  "session_join token d =
     (case find (\<lambda>s. s_token s = token) (sessions d) of
        None \<Rightarrow> None
      | Some s \<Rightarrow> map_option (Pair s) (find_user_by_id (s_user s) d))"

definition find_session_user :: "string \<Rightarrow> int \<Rightarrow> session_user option db_op" where
  "find_session_user token now =
     and_then (reads (session_join token)) (\<lambda>row.
       (case row of
          None \<Rightarrow> done_with None
        | Some (s, u) \<Rightarrow>
            if u_disabled u = 1 \<or> s_expires s \<le> now then
              and_then (delete_session token) (\<lambda>_. done_with None)
            else
              and_then
                (if now - s_seen s \<ge> last_seen_write_interval
                 then writes (\<lambda>d. d\<lparr>sessions := map (\<lambda>s. if s_token s = token then s\<lparr>s_seen := now\<rparr> else s) (sessions d)\<rparr>)
                 else done_with ())
                (\<lambda>_. done_with (Some \<lparr>su_id = u_id u, su_name = u_name u, su_role = u_role u\<rparr>))))"

definition logout :: "int \<Rightarrow> string \<Rightarrow> audit_entry \<Rightarrow> unit db_op" where
  "logout now token audit = tx (and_then (delete_session token) (\<lambda>_. write_audit now True audit))"

section \<open>Login throttles\<close>

record login_throttle =
  t_failures :: int
  t_blocked :: int

definition no_throttle :: login_throttle where
  "no_throttle = \<lparr>t_failures = 0, t_blocked = 0\<rparr>"

definition attempt_expired :: "int \<Rightarrow> int \<Rightarrow> attempt_row \<Rightarrow> bool" where
  "attempt_expired now window l \<longleftrightarrow> l_blocked l \<le> now \<and> now - l_started l \<ge> window"

definition find_attempt :: "string \<Rightarrow> database \<Rightarrow> attempt_row option" where
  "find_attempt key d = find (\<lambda>l. l_key l = key) (attempts d)"

text \<open>The throttle, when the window started, and whether there is a row.\<close>

definition get_throttle :: "string \<Rightarrow> int \<Rightarrow> int \<Rightarrow> (login_throttle \<times> int \<times> bool) db_op" where
  "get_throttle key now window =
     and_then (reads (find_attempt key)) (\<lambda>row.
       (case row of
          None \<Rightarrow> done_with (no_throttle, 0, False)
        | Some l \<Rightarrow>
            if attempt_expired now window l then
              and_then (delete_attempts (\<lambda>l. l_key l = key)) (\<lambda>_. done_with (no_throttle, 0, False))
            else done_with (\<lparr>t_failures = l_failures l, t_blocked = l_blocked l\<rparr>, l_started l, True)))"

definition get_login_throttle :: "string \<Rightarrow> int \<Rightarrow> int \<Rightarrow> login_throttle db_op" where
  "get_login_throttle key now window =
     and_then (reads (find_attempt key)) (\<lambda>row.
       (case row of
          None \<Rightarrow> done_with no_throttle
        | Some l \<Rightarrow>
            if attempt_expired now window l then
              and_then (delete_attempts (\<lambda>l. l_key l = key \<and> attempt_expired now window l)) (\<lambda>_. done_with no_throttle)
            else done_with \<lparr>t_failures = l_failures l, t_blocked = l_blocked l\<rparr>))"

text \<open>INSERT ... ON CONFLICT DO UPDATE: a conflict keeps the start of the window.\<close>

definition upsert_attempt :: "attempt_row \<Rightarrow> unit db_op" where
  "upsert_attempt l = writes (\<lambda>d. d\<lparr>attempts :=
     (if \<exists>m \<in> set (attempts d). l_key m = l_key l then
        map (\<lambda>m. if l_key m = l_key l
                 then m\<lparr>l_failures := l_failures l, l_blocked := l_blocked l, l_updated := l_updated l\<rparr> else m) (attempts d)
      else attempts d @ [l])\<rparr>)"

definition login_prune_interval :: nat where
  "login_prune_interval = 200"

definition prune_login_attempts :: "int \<Rightarrow> int \<Rightarrow> unit db_op" where
  "prune_login_attempts now window = delete_attempts (\<lambda>l. l_blocked l \<le> now \<and> l_updated l < now - window)"

definition count_failure :: "string \<Rightarrow> int \<Rightarrow> int \<Rightarrow> int \<Rightarrow> int \<Rightarrow> login_throttle db_op" where
  "count_failure key now window max_failures block =
     and_then (get_throttle key now window) (\<lambda>(current, started, found).
       (let failures = t_failures current + 1;
            blocked = (if failures \<ge> max_failures then now + block else t_blocked current)
        in and_then (upsert_attempt \<lparr>l_key = key, l_failures = failures,
               l_started = (if found then started else now), l_blocked = blocked, l_updated = now\<rparr>) (\<lambda>_.
           done_with \<lparr>t_failures = failures, t_blocked = blocked\<rparr>)))"

definition prune_if_due :: "int \<Rightarrow> int \<Rightarrow> unit db_op" where
  "prune_if_due now window =
     and_then (writes (\<lambda>d. d\<lparr>failures_since_prune := failures_since_prune d + 1\<rparr>)) (\<lambda>_.
     and_then (reads (\<lambda>d. failures_since_prune d \<ge> login_prune_interval)) (\<lambda>prune.
       if prune then
         and_then (writes (\<lambda>d. d\<lparr>failures_since_prune := 0\<rparr>)) (\<lambda>_. prune_login_attempts now window)
       else done_with ()))"

definition record_login_failure :: "string \<Rightarrow> int \<Rightarrow> int \<Rightarrow> int \<Rightarrow> int \<Rightarrow> login_throttle db_op" where
  "record_login_failure key now window max_failures block_ms =
     and_then (tx (count_failure key now window max_failures (if block_ms \<le> 0 then window else block_ms))) (\<lambda>result.
     and_then (prune_if_due now window) (\<lambda>_. done_with result))"

definition clear_login_throttle :: "string \<Rightarrow> unit db_op" where
  "clear_login_throttle key = delete_attempts (\<lambda>l. l_key l = key)"

section \<open>Guarded transactions\<close>

definition create_first_user :: "int \<Rightarrow> user_row \<Rightarrow> audit_entry \<Rightarrow> session_input \<Rightarrow> unit db_op" where
  "create_first_user now u audit session = tx (
     and_then (reads count_users) (\<lambda>count.
     and_then (check_that (count = 0) SetupComplete) (\<lambda>_.
     and_then (insert_user (u\<lparr>u_disabled := 0, u_updated := u_created u\<rparr>)) (\<lambda>_.
     and_then (write_audit now True audit) (\<lambda>_.
     insert_session_input now session)))))"

definition upgrade_password_hash_if_unchanged :: "int \<Rightarrow> string \<Rightarrow> string \<Rightarrow> string \<Rightarrow> unit db_op" where
  "upgrade_password_hash_if_unchanged now i old new =
     and_then (update_users (\<lambda>u. u_id u = i \<and> u_hash u = old \<and> u_disabled u = 0)
         (\<lambda>u. u\<lparr>u_hash := new, u_updated := now\<rparr>)) (\<lambda>_. done_with ())"

definition session_valid :: "string \<Rightarrow> string \<Rightarrow> int \<Rightarrow> database \<Rightarrow> bool" where
  "session_valid i token now d \<longleftrightarrow>
     length (filter (\<lambda>(s, u). u_id u = s_user s \<and> s_token s = token \<and> u_id u = i \<and> u_disabled u = 0 \<and> s_expires s > now)
       (List.product (sessions d) (users d))) = 1"

definition change_password ::
    "int \<Rightarrow> string \<Rightarrow> string \<Rightarrow> string \<Rightarrow> string \<Rightarrow> string \<Rightarrow> session_input \<Rightarrow> audit_entry \<Rightarrow> unit db_op" where
  "change_password now i token old new throttle_key session audit = tx (
     and_then (reads (session_valid i token (i_created session))) (\<lambda>valid.
     and_then (check_that valid SessionGone) (\<lambda>_.
     and_then (update_users (\<lambda>u. u_id u = i \<and> u_hash u = old) (\<lambda>u. u\<lparr>u_hash := new, u_updated := now\<rparr>)) (\<lambda>changed.
     and_then (check_that (changed = 1) PasswordChanged) (\<lambda>_.
     and_then (delete_sessions (\<lambda>s. s_user s = i)) (\<lambda>_.
     and_then (insert_session (session_of (session\<lparr>i_user := i\<rparr>))) (\<lambda>_.
     and_then (delete_attempts (\<lambda>l. l_key l = throttle_key)) (\<lambda>_.
     write_audit now True audit))))))))"

definition admin_mutation :: "string \<Rightarrow> string \<Rightarrow> int \<Rightarrow> 'a db_op \<Rightarrow> 'a db_op" where
  "admin_mutation i token now fn = tx (
     and_then (reads (session_valid i token now)) (\<lambda>valid.
     and_then (check_that valid SessionGone) (\<lambda>_.
     and_then (reads (find_user_by_id i)) (\<lambda>row.
       (case row of
          None \<Rightarrow> fail_with NoRows
        | Some u \<Rightarrow> if u_role u \<noteq> ''admin'' then fail_with NotAdmin else fn)))))"

definition removes_last_admin :: "string \<Rightarrow> string \<Rightarrow> bool \<Rightarrow> bool db_op" where
  "removes_last_admin target role disabled =
     and_then (reads (find_user_by_id target)) (\<lambda>row.
       (case row of
          None \<Rightarrow> fail_with UserNotFound
        | Some u \<Rightarrow>
            if u_role u \<noteq> ''admin'' \<or> u_disabled u = 1 \<or> role = ''admin'' \<and> \<not> disabled then done_with False
            else reads (\<lambda>d. count_enabled_admins d \<le> 1)))"

section \<open>Integrity\<close>

lemma keeps_seen [db_keeps]:
  "keeps accounts_ok (writes (\<lambda>d. d\<lparr>sessions := map (\<lambda>s. if s_token s = t then s\<lparr>s_seen := n\<rparr> else s) (sessions d)\<rparr>))"
  by (rule keeps_writes) (auto simp: accounts_ok_def user_exists_def list_all_iff o_def if_distrib cong: if_cong)

lemma keeps_upsert [db_keeps]: "keeps accounts_ok (upsert_attempt l)"
  unfolding upsert_attempt_def
  by (rule keeps_writes) (auto simp: accounts_ok_def user_exists_def list_all_iff o_def if_distrib cong: if_cong)

lemma keeps_failure_counter [db_keeps]: "keeps accounts_ok (writes (\<lambda>d. d\<lparr>failures_since_prune := f d\<rparr>))"
  by (rule keeps_writes) (auto simp: accounts_ok_def user_exists_def list_all_iff)

lemma keeps_accounts_tx [db_keeps]: "keeps accounts_ok m \<Longrightarrow> keeps accounts_ok (tx m)"
  by (rule keeps_tx) simp_all

lemma keeps_prod [db_keeps]: "(\<And>x y. keeps P (f x y)) \<Longrightarrow> keeps P (case p of (x, y) \<Rightarrow> f x y)"
  by (cases p) simp

end
