(* ===== verification/AuthService.thy ===== *)
theory AuthService
  imports Accounts Utf8 "HOL-Library.Signed_Division"
begin

text \<open>
  Setup, sign-in, sessions and account administration: \<open>src/internal/auth/service.go\<close> and
  \<open>setup.go\<close>. A call gets an environment: the random values it draws, the password hasher, the
  time when it starts (\<open>n_now\<close>) and the time after its password work (\<open>n_after\<close>), and what other
  requests do meanwhile: to the database while it is busy hashing (\<open>n_others\<close>), between its
  second look at the account and what it does with it (\<open>n_recheck\<close>), and up to the transaction
  it ends with (\<open>n_commit\<close>); and to the setup window (\<open>n_window\<close>).
\<close>

section \<open>Environment, clients, principals\<close>

record setup_window =
  w_expires :: int
  w_code :: string
  w_generated :: string
  w_completed :: bool

record auth_env =
  n_now :: int
  n_after :: int
  n_token :: string
  n_session :: string
  n_user :: string
  n_busy :: bool
  n_others :: "unit db_op"
  n_recheck :: "unit db_op"
  n_commit :: "unit db_op"
  n_window :: "setup_window \<Rightarrow> setup_window"
  token_hash :: "string \<Rightarrow> string"
  fold_name :: "string \<Rightarrow> string"
  pw_hash :: "string \<Rightarrow> string option"
  pw_verify :: "string \<Rightarrow> string \<Rightarrow> bool"
  pw_weak :: "string \<Rightarrow> bool"

record client =
  c_ip :: string
  c_agent :: string

definition source :: "client \<Rightarrow> string" where
  "source c = (if c_ip c = [] then ''unknown'' else c_ip c)"

record principal =
  p_user :: session_user
  p_token :: string
  p_hash :: string

text \<open>The environment after the password work.\<close>

definition later :: "auth_env \<Rightarrow> auth_env" where
  "later env = env\<lparr>n_now := n_after env\<rparr>"

definition session_ttl :: int where
  "session_ttl = 7 * 24 * 60 * 60 * 1000"

definition login_window :: int where
  "login_window = 15 * 60 * 1000"

definition throttle_key :: "auth_env \<Rightarrow> string \<Rightarrow> string \<Rightarrow> string" where
  "throttle_key env scope v = token_hash env (scope @ '':'' @ v)"

abbreviation auth_required :: db_error where
  "auth_required \<equiv> PublicError ''AUTHENTICATION_REQUIRED'' 401"

fun too_many_attempts :: "int \<Rightarrow> string list \<Rightarrow> bool db_op" where
  "too_many_attempts now [] = done_with False"
| "too_many_attempts now (key # keys) =
     and_then (get_login_throttle key now login_window) (\<lambda>t.
     if t_blocked t > now then done_with True else too_many_attempts now keys)"

definition name_char :: "char \<Rightarrow> bool" where
  "name_char c \<longleftrightarrow>
     is_digit c \<or> 65 \<le> byte c \<and> byte c \<le> 90 \<or> 97 \<le> byte c \<and> byte c \<le> 122 \<or> c \<in> {CHR ''.'', CHR ''_'', CHR ''-''}"

definition valid_username :: "string \<Rightarrow> string \<times> bool" where
  "valid_username name =
     (let n = trim_space name
      in (n, 3 \<le> utf16_length n \<and> utf16_length n \<le> 32 \<and> n \<noteq> [] \<and> list_all name_char n))"

definition valid_password :: "string \<Rightarrow> bool" where
  "valid_password p \<longleftrightarrow> 15 \<le> utf16_length p \<and> utf16_length p \<le> 128"

section \<open>The setup window\<close>

text \<open>\<open>authorization\<close> is the SHA-256 of the code; comparing hashes is comparing through \<open>digest\<close>.\<close>

definition new_setup_window ::
    "(string \<Rightarrow> string) \<Rightarrow> int \<Rightarrow> int \<Rightarrow> string \<Rightarrow> string \<Rightarrow> db_error + setup_window" where
  "new_setup_window digest now duration code random_code =
     (let c = (if code = [] then random_code else code)
      in if length c < 32 \<or> length c > 128 then Inl (PublicError ''INVALID_SETUP_CODE'' 400)
         else Inr \<lparr>w_expires = now + duration, w_code = digest c, w_generated = (if code = [] then random_code else []),
                   w_completed = False\<rparr>)"

definition setup_state :: "setup_window \<Rightarrow> int \<Rightarrow> bool \<Rightarrow> bool \<times> bool \<times> int \<times> int" where
  "setup_state w now required =
     (if \<not> required then (False, False, 0, 0)
      else (True, now \<ge> w_expires w, w_expires w, max 0 (w_expires w - now)))"

definition assert_open :: "setup_window \<Rightarrow> int \<Rightarrow> bool \<Rightarrow> db_error + unit" where
  "assert_open w now required =
     (case setup_state w now required of (r, locked, _, _) \<Rightarrow>
        if \<not> r then Inl (PublicError ''SETUP_COMPLETE'' 409)
        else if locked then Inl (PublicError ''SETUP_LOCKED'' 403) else Inr ())"

definition assert_authorized :: "(string \<Rightarrow> string) \<Rightarrow> setup_window \<Rightarrow> int \<Rightarrow> bool \<Rightarrow> string \<Rightarrow> db_error + unit" where
  "assert_authorized digest w now required candidate =
     res_bind (assert_open w now required) (\<lambda>_.
       if (w_completed w \<or> digest candidate \<noteq> w_code w) \<or> length candidate < 32 \<or> length candidate > 128
       then Inl (PublicError ''SETUP_AUTHORIZATION_REQUIRED'' 403) else Inr ())"

definition take_generated :: "setup_window \<Rightarrow> setup_window \<times> string" where
  "take_generated w = (w\<lparr>w_generated := []\<rparr>, w_generated w)"

text \<open>\<open>markCompleted\<close> clears the hash: 32 zero bytes match no code, and \<open>completed\<close> refuses all.\<close>

definition mark_completed :: "setup_window \<Rightarrow> setup_window" where
  "mark_completed w = w\<lparr>w_generated := [], w_completed := True, w_code := replicate 32 (CHR 0x00)\<rparr>"

section \<open>Sessions\<close>

definition lift_res :: "db_error + 'a \<Rightarrow> 'a db_op" where
  "lift_res r = (case r of Inl e \<Rightarrow> fail_with e | Inr x \<Rightarrow> done_with x)"

definition session_input :: "auth_env \<Rightarrow> string \<Rightarrow> client \<Rightarrow> session_input" where
  "session_input env i c = \<lparr>i_session = n_session env, i_token = token_hash env (n_token env), i_user = i,
     i_created = n_now env, i_expires = n_now env + session_ttl, i_ip = c_ip c, i_agent = c_agent c, i_hash = [],
     i_audit = None\<rparr>"

definition create_auth_session ::
    "auth_env \<Rightarrow> session_user \<Rightarrow> client \<Rightarrow> string \<Rightarrow> audit_entry option \<Rightarrow> principal db_op" where
  "create_auth_session env u c verified audit =
     and_then (create_session (n_now env) ((session_input env (su_id u) c)\<lparr>i_hash := verified, i_audit := audit\<rparr>)) (\<lambda>_.
     done_with \<lparr>p_user = u, p_token = n_token env, p_hash = token_hash env (n_token env)\<rparr>)"

text \<open>\<open>Work.Do\<close>: busy, or the work runs; whatever else runs in between is \<open>n_others\<close>.\<close>

definition work :: "auth_env \<Rightarrow> 'a db_op \<Rightarrow> 'a db_op" where
  "work env m = (if n_busy env then fail_with (TooMany 0) else m)"

definition hash_password :: "auth_env \<Rightarrow> string \<Rightarrow> string db_op" where
  "hash_password env p =
     and_then (n_others env) (\<lambda>_. case pw_hash env p of None \<Rightarrow> fail_with HashFailure | Some h \<Rightarrow> done_with h)"

definition plain_audit :: "string \<Rightarrow> string \<Rightarrow> string \<Rightarrow> string \<Rightarrow> json option \<Rightarrow> client \<Rightarrow> audit_entry" where
  "plain_audit user action typ target details c =
     \<lparr>e_user = user, e_action = action, e_type = typ, e_target = target, e_details = details, e_ip = c_ip c\<rparr>"

definition complete_setup ::
    "auth_env \<Rightarrow> string \<Rightarrow> setup_window \<Rightarrow> string \<Rightarrow> string \<Rightarrow> string \<Rightarrow> client \<Rightarrow> (principal \<times> setup_window) db_op" where
  "complete_setup env scope w name password code c =
     (let key = throttle_key env ''setup-source'' (scope @ '':'' @ source c); now = n_now env
      in and_then (reads count_users) (\<lambda>count.
         and_then (lift_res (assert_open w now (count = 0))) (\<lambda>_.
         and_then (too_many_attempts now [key]) (\<lambda>blocked.
         and_then (check_that (\<not> blocked) (TooMany 0)) (\<lambda>_.
         and_then (case assert_authorized (token_hash env) w now (count = 0) code of
              Inl e \<Rightarrow>
                if e = PublicError ''SETUP_AUTHORIZATION_REQUIRED'' 403 then
                  and_then (record_login_failure key now login_window 20 0) (\<lambda>_. fail_with e)
                else fail_with e
            | Inr _ \<Rightarrow> done_with ()) (\<lambda>_.
         and_then (clear_login_throttle key) (\<lambda>_.
         and_then (check_that (snd (valid_username name) \<and> valid_password password \<and>
              32 \<le> utf16_length code \<and> utf16_length code \<le> 128) (PublicError ''INVALID_REQUEST'' 400)) (\<lambda>_.
         and_then (work env (hash_password env password)) (\<lambda>hash.
         and_then (reads count_users) (\<lambda>count'.
         and_then (case assert_authorized (token_hash env) (n_window env w) (n_after env) (count' = 0) code of
              Inl e \<Rightarrow> fail_with (if e = PublicError ''SETUP_AUTHORIZATION_REQUIRED'' 403
                                   then PublicError ''SETUP_COMPLETE'' 409 else e)
            | Inr _ \<Rightarrow> done_with ()) (\<lambda>_.
         (let user = \<lparr>su_id = n_user env, su_name = fst (valid_username name), su_role = ''admin''\<rparr>
          in and_then (n_commit env) (\<lambda>_.
             and_then (map_failure (\<lambda>e. if e = SetupComplete then PublicError ''SETUP_COMPLETE'' 409 else e)
               (create_first_user (n_after env)
                 \<lparr>u_id = su_id user, u_name = su_name user, u_hash = hash, u_role = su_role user, u_disabled = 0,
                  u_created = n_after env, u_updated = n_after env\<rparr>
                 (plain_audit (su_id user) ''auth.setup.completed'' ''user'' (su_id user) None c)
                 (session_input (later env) (su_id user) c))) (\<lambda>_.
             done_with (\<lparr>p_user = user, p_token = n_token env, p_hash = token_hash env (n_token env)\<rparr>,
                        mark_completed (n_window env w))))))))))))))))"

section \<open>Sign-in\<close>

definition authenticate :: "auth_env \<Rightarrow> string \<Rightarrow> string \<Rightarrow> (session_user \<times> string) option db_op" where
  "authenticate env name password =
     and_then (reads (find_user_by_username name)) (\<lambda>record.
       (case record of
          None \<Rightarrow> and_then (hash_password env password) (\<lambda>_. done_with None)
        | Some r \<Rightarrow>
            if user_disabled r then and_then (hash_password env password) (\<lambda>_. done_with None)
            else
              and_then (n_others env) (\<lambda>_.
              if \<not> pw_verify env password (u_hash r) then done_with None
              else
                and_then (if pw_weak env (u_hash r)
                          then and_then (hash_password env password) (\<lambda>h. done_with (Some h)) else done_with None) (\<lambda>upgraded.
                and_then (reads (find_user_by_id (u_id r))) (\<lambda>current.
                  (case current of
                     None \<Rightarrow> done_with None
                   | Some cur \<Rightarrow>
                       if user_disabled cur \<or> u_hash cur \<noteq> u_hash r then done_with None
                       else
                         (let u = \<lparr>su_id = u_id cur, su_name = u_name cur, su_role = u_role cur\<rparr>
                          in case upgraded of
                               None \<Rightarrow> done_with (Some (u, u_hash r))
                             | Some h \<Rightarrow>
                                 and_then (n_recheck env) (\<lambda>_.
                                 and_then (upgrade_password_hash_if_unchanged (n_after env) (u_id cur) (u_hash r) h) (\<lambda>_.
                                 done_with (Some (u, h)))))))))))"

definition cooldown_ms :: "int \<Rightarrow> int" where
  "cooldown_ms failures = min 5000 (250 * 2 ^ nat (min 5 (max 0 ((failures + 1 - 20) sdiv 5))))"

definition login_failed :: "auth_env \<Rightarrow> string \<Rightarrow> string \<Rightarrow> string option \<Rightarrow> string \<Rightarrow> client \<Rightarrow> unit db_op" where
  "login_failed env name source_key account_source_key account_key c =
     (let now = n_now env
      in and_then (record_login_failure source_key now login_window 20 0) (\<lambda>_.
         and_then (case account_source_key of None \<Rightarrow> done_with ()
             | Some k \<Rightarrow> and_then (record_login_failure k now login_window 5 0) (\<lambda>_. done_with ())) (\<lambda>_.
         and_then (get_login_throttle account_key now login_window) (\<lambda>current.
         and_then (record_login_failure account_key now login_window 20 (cooldown_ms (t_failures current))) (\<lambda>_.
         write_audit now False (plain_audit [] ''auth.login.failed'' ''user'' []
             (Some (JObj [(''username'', JStr name)])) c))))))"

definition invalid_credentials :: db_error where
  "invalid_credentials = PublicError ''INVALID_CREDENTIALS'' 401"

definition login :: "auth_env \<Rightarrow> string \<Rightarrow> string \<Rightarrow> client \<Rightarrow> principal db_op" where
  "login env name password c =
     (let now = n_now env;
          requested = fold_name env name;
          source_key = throttle_key env ''login-source'' (source c);
          account_source_key = (if requested = [] then None
            else Some (throttle_key env ''login-account-source'' (source c @ [CHR 0x00] @ requested)));
          keys = source_key # (case account_source_key of None \<Rightarrow> [] | Some k \<Rightarrow> [k]);
          account_key = throttle_key env ''login-account-failures'' requested;
          (parsed, ok) = valid_username name
      in and_then (too_many_attempts now keys) (\<lambda>blocked.
         and_then (check_that (\<not> blocked) (TooMany 0)) (\<lambda>_.
         and_then (reads count_users) (\<lambda>count.
         and_then (check_that (ok \<and> valid_password password \<and> count \<noteq> 0) invalid_credentials) (\<lambda>_.
         and_then (get_login_throttle account_key now login_window) (\<lambda>cooldown.
         and_then (check_that (\<not> t_blocked cooldown > now) (TooMany (t_blocked cooldown - now))) (\<lambda>_.
         and_then (work env (authenticate env parsed password)) (\<lambda>result.
           (case result of
              None \<Rightarrow>
                and_then (login_failed (later env) parsed source_key account_source_key account_key c) (\<lambda>_.
                fail_with invalid_credentials)
            | Some (user, verified) \<Rightarrow>
                and_then (case account_source_key of None \<Rightarrow> done_with () | Some k \<Rightarrow> clear_login_throttle k) (\<lambda>_.
                and_then (clear_login_throttle account_key) (\<lambda>_.
                and_then (n_commit env) (\<lambda>_.
                map_failure (\<lambda>e. if e = AccountChanged then invalid_credentials else e)
                  (create_auth_session (later env) user c verified
                    (Some (plain_audit (su_id user) ''auth.login'' ''session'' [] None c)))))))))))))))"

section \<open>Signed-in requests\<close>

definition session :: "auth_env \<Rightarrow> string \<Rightarrow> principal option db_op" where
  "session env token =
     (if token = [] then done_with None
      else and_then (find_session_user (token_hash env token) (n_now env)) (\<lambda>user.
        done_with (map_option (\<lambda>u. \<lparr>p_user = u, p_token = token, p_hash = token_hash env token\<rparr>) user)))"

definition recheck :: "auth_env \<Rightarrow> principal \<Rightarrow> principal db_op" where
  "recheck env p =
     and_then (session env (p_token p)) (\<lambda>current.
       (case current of
          None \<Rightarrow> fail_with auth_required
        | Some q \<Rightarrow> if su_id (p_user q) \<noteq> su_id (p_user p) then fail_with auth_required else done_with q))"

definition auth_logout :: "auth_env \<Rightarrow> string \<Rightarrow> client \<Rightarrow> unit db_op" where
  "auth_logout env token c =
     and_then (session env token) (\<lambda>current.
       (case current of
          None \<Rightarrow> done_with ()
        | Some p \<Rightarrow> logout (n_now env) (p_hash p) (plain_audit (su_id (p_user p)) ''auth.logout'' ''session'' [] None c)))"

text \<open>\<open>ChangePassword\<close>. The work gives the account, whether the password matched, and the new hash.\<close>

definition change_work :: "auth_env \<Rightarrow> principal \<Rightarrow> string \<Rightarrow> string \<Rightarrow> (user_row option \<times> string) option db_op" where
  "change_work env p current new =
     and_then (reads (find_user_by_id (su_id (p_user p)))) (\<lambda>record.
     and_then (n_others env) (\<lambda>_.
     (let verified = (case record of None \<Rightarrow> False | Some r \<Rightarrow> pw_verify env current (u_hash r))
      in and_then (recheck (later env) p) (\<lambda>_.
         if verified then and_then (hash_password env new) (\<lambda>h. done_with (Some (record, h)))
         else done_with None))))"

definition auth_change_password :: "auth_env \<Rightarrow> principal \<Rightarrow> string \<Rightarrow> string \<Rightarrow> client \<Rightarrow> principal db_op" where
  "auth_change_password env p current new c =
     (let now = n_now env;
          source_key = throttle_key env ''password-change-source'' (source c);
          credential_key = throttle_key env ''password-change-credential'' (p_hash p);
          uid = su_id (p_user p)
      in and_then (check_that (1 \<le> utf16_length current \<and> utf16_length current \<le> 128 \<and> valid_password new)
             (PublicError ''INVALID_REQUEST'' 400)) (\<lambda>_.
         and_then (too_many_attempts now [source_key, credential_key]) (\<lambda>blocked.
         and_then (check_that (\<not> blocked) (TooMany 0)) (\<lambda>_.
         and_then (work env (change_work env p current new)) (\<lambda>result.
           (case result of
              None \<Rightarrow>
                and_then (record_login_failure source_key (n_after env) login_window 20 0) (\<lambda>_.
                and_then (record_login_failure credential_key (n_after env) login_window 5 0) (\<lambda>_.
                and_then (write_audit (n_after env) False (plain_audit uid ''auth.password.change-failed'' ''user'' uid None c)) (\<lambda>_.
                fail_with (PublicError ''INVALID_PASSWORD'' 400))))
            | Some (record, h) \<Rightarrow>
                and_then (recheck (later env) p) (\<lambda>current_principal.
                and_then (n_commit env) (\<lambda>_.
                and_then (map_failure (\<lambda>e. if e = SessionGone then auth_required
                      else if e = PasswordChanged then PublicError ''PASSWORD_CHANGED'' 409 else e)
                    (change_password (n_after env) uid (p_hash p) (case record of None \<Rightarrow> [] | Some r \<Rightarrow> u_hash r) h
                       credential_key (session_input (later env) uid c)
                       (plain_audit uid ''auth.password.changed'' ''user'' uid None c))) (\<lambda>_.
                done_with \<lparr>p_user = p_user current_principal, p_token = n_token env,
                           p_hash = token_hash env (n_token env)\<rparr>)))))))))"

definition revoke_session :: "auth_env \<Rightarrow> principal \<Rightarrow> string \<Rightarrow> client \<Rightarrow> unit db_op" where
  "revoke_session env p sid c =
     and_then (delete_user_session_by_id (n_now env) (su_id (p_user p)) sid
         (plain_audit (su_id (p_user p)) ''auth.session.revoked'' ''session'' sid None c)) (\<lambda>removed.
     check_that removed (PublicError ''SESSION_NOT_FOUND'' 404))"

section \<open>Administration of accounts\<close>

definition require_admin :: "principal option \<Rightarrow> unit db_op" where
  "require_admin p =
     (case p of
        None \<Rightarrow> fail_with auth_required
      | Some q \<Rightarrow> check_that (su_role (p_user q) = ''admin'') (PublicError ''FORBIDDEN'' 403))"

definition admin_mutation_error :: "db_error \<Rightarrow> db_error" where
  "admin_mutation_error e =
     (case e of
        SessionGone \<Rightarrow> auth_required
      | NotAdmin \<Rightarrow> PublicError ''FORBIDDEN'' 403
      | UserNotFound \<Rightarrow> PublicError ''USER_NOT_FOUND'' 404
      | LastAdmin \<Rightarrow> PublicError ''LAST_ADMIN'' 409
      | _ \<Rightarrow> e)"

text \<open>A mutation by the principal: its audit entry is written in the same transaction.\<close>

definition by_admin :: "auth_env \<Rightarrow> principal \<Rightarrow> unit db_op \<Rightarrow> string \<Rightarrow> string \<Rightarrow> json option \<Rightarrow> client \<Rightarrow> unit db_op" where
  "by_admin env p m action target details c =
     admin_mutation (su_id (p_user p)) (p_hash p) (n_now env)
       (and_then m (\<lambda>_. write_audit (n_now env) True (plain_audit (su_id (p_user p)) action ''user'' target details c)))"

definition found_user :: "string \<Rightarrow> user_row db_op" where
  "found_user i =
     and_then (reads (find_user_by_id i)) (\<lambda>row.
       (case row of None \<Rightarrow> fail_with (PublicError ''USER_NOT_FOUND'' 404) | Some u \<Rightarrow> done_with u))"

definition auth_create_user :: "auth_env \<Rightarrow> principal \<Rightarrow> string \<Rightarrow> string \<Rightarrow> string \<Rightarrow> client \<Rightarrow> user_row db_op" where
  "auth_create_user env p name password role c =
     (let now = n_after env; (n, ok) = valid_username name; i = n_user env
      in and_then (require_admin (Some p)) (\<lambda>_.
         and_then (check_that (ok \<and> valid_password password \<and> valid_role role) (PublicError ''INVALID_REQUEST'' 400)) (\<lambda>_.
         and_then (work env (hash_password env password)) (\<lambda>h.
         and_then (map_failure (\<lambda>e. if e = UniqueViolation then PublicError ''USERNAME_TAKEN'' 409 else admin_mutation_error e)
             (by_admin (later env) p
                (insert_user \<lparr>u_id = i, u_name = n, u_hash = h, u_role = role, u_disabled = 0, u_created = now, u_updated = now\<rparr>)
                ''user.created'' i (Some (JObj [(''username'', JStr n), (''role'', JStr role)])) c)) (\<lambda>_.
         found_user i)))))"

definition auth_update_access :: "auth_env \<Rightarrow> principal \<Rightarrow> string \<Rightarrow> string \<Rightarrow> bool \<Rightarrow> client \<Rightarrow> user_row db_op" where
  "auth_update_access env p i role disabled c =
     and_then (require_admin (Some p)) (\<lambda>_.
     and_then (found_user i) (\<lambda>_.
     and_then (check_that (valid_role role) (PublicError ''INVALID_REQUEST'' 400)) (\<lambda>_.
     and_then (n_commit env) (\<lambda>_.
     and_then (map_failure admin_mutation_error
         (by_admin env p
            (and_then (removes_last_admin i role disabled) (\<lambda>last.
             and_then (check_that (\<not> last) LastAdmin) (\<lambda>_.
             and_then (update_users (\<lambda>u. u_id u = i)
                 (\<lambda>u. u\<lparr>u_role := role, u_disabled := bool_int disabled, u_updated := n_now env\<rparr>)) (\<lambda>_.
             if disabled then delete_sessions (\<lambda>s. s_user s = i) else done_with ()))))
            ''user.access.updated'' i (Some (JObj [(''role'', JStr role), (''disabled'', JBool disabled)])) c)) (\<lambda>_.
     found_user i)))))"

definition auth_delete_user :: "auth_env \<Rightarrow> principal \<Rightarrow> string \<Rightarrow> client \<Rightarrow> unit db_op" where
  "auth_delete_user env p i c =
     and_then (require_admin (Some p)) (\<lambda>_.
     and_then (found_user i) (\<lambda>target.
     and_then (check_that (u_id target \<noteq> su_id (p_user p)) (PublicError ''SELF_DELETE'' 409)) (\<lambda>_.
     and_then (n_commit env) (\<lambda>_.
     map_failure admin_mutation_error
       (by_admin env p
          (and_then (removes_last_admin i ''viewer'' True) (\<lambda>last.
           and_then (check_that (\<not> last) LastAdmin) (\<lambda>_. delete_user i)))
          ''user.deleted'' i (Some (JObj [(''username'', JStr (u_name target)), (''role'', JStr (u_role target))])) c)))))"

definition auth_reset_password :: "auth_env \<Rightarrow> principal \<Rightarrow> string \<Rightarrow> string \<Rightarrow> client \<Rightarrow> unit db_op" where
  "auth_reset_password env p i password c =
     and_then (require_admin (Some p)) (\<lambda>_.
     and_then (found_user i) (\<lambda>_.
     and_then (check_that (valid_password password) (PublicError ''INVALID_REQUEST'' 400)) (\<lambda>_.
     and_then (work env (hash_password env password)) (\<lambda>h.
     map_failure admin_mutation_error
       (by_admin (later env) p
          (and_then (update_users (\<lambda>u. u_id u = i) (\<lambda>u. u\<lparr>u_hash := h, u_updated := n_after env\<rparr>)) (\<lambda>changed.
           and_then (check_that (changed = 1) UserNotFound) (\<lambda>_. delete_sessions (\<lambda>s. s_user s = i))))
          ''user.password.reset'' i None c)))))"

definition recover_password :: "auth_env \<Rightarrow> string \<Rightarrow> string \<Rightarrow> user_row option db_op" where
  "recover_password env name password =
     and_then (reads (find_user_by_username name)) (\<lambda>row.
       (case row of
          None \<Rightarrow> done_with None
        | Some u \<Rightarrow>
            and_then (hash_password env password) (\<lambda>h.
            and_then (update_user_password (n_after env) (u_id u) h
                \<lparr>e_user = [], e_action = ''user.password.recovered'', e_type = ''user'', e_target = u_id u,
                 e_details = Some (JObj [(''username'', JStr (u_name u))]), e_ip = []\<rparr>) (\<lambda>_.
            done_with (Some u)))))"

section \<open>What every operation keeps\<close>

text \<open>The tables are consistent and an enabled administrator exists.\<close>

definition enabled_admin :: "user_row \<Rightarrow> bool" where
  "enabled_admin u \<longleftrightarrow> u_role u = ''admin'' \<and> u_disabled u = 0"

definition has_admin :: "database \<Rightarrow> bool" where
  "has_admin d \<longleftrightarrow> (\<exists>u \<in> set (users d). enabled_admin u)"

definition panel_ok :: "database \<Rightarrow> bool" where
  "panel_ok d \<longleftrightarrow> accounts_ok d \<and> has_admin d"

lemma keeps_panel: "keeps accounts_ok m \<Longrightarrow> keeps has_admin m \<Longrightarrow> keeps panel_ok m"
  by (auto simp: keeps_def panel_ok_def)

lemma same_users: "(\<And>d. users (fst (m d)) = users d) \<Longrightarrow> keeps has_admin m"
  by (simp add: keeps_def has_admin_def)

lemma panel_tx [db_keeps]: "keeps panel_ok m \<Longrightarrow> keeps panel_ok (tx m)"
  by (rule keeps_tx) (simp_all add: panel_ok_def has_admin_def)

lemma keeps_sum [db_keeps]:
  "(\<And>e. keeps P (f e)) \<Longrightarrow> (\<And>x. keeps P (g x)) \<Longrightarrow> keeps P (case r of Inl e \<Rightarrow> f e | Inr x \<Rightarrow> g x)"
  by (cases r) simp_all

lemma keeps_lift [db_keeps]: "keeps P (lift_res r)"
  unfolding lift_res_def by (intro db_keeps)

lemma panel_insert_user [db_keeps]: "keeps panel_ok (insert_user u)"
  by (rule keeps_panel [OF keeps_insert_user]) (auto simp: keeps_def insert_user_def has_admin_def)

lemma panel_insert_session [db_keeps]: "keeps panel_ok (insert_session s)"
  by (rule keeps_panel [OF keeps_insert_session same_users]) (simp add: insert_session_def)

lemma panel_delete_sessions [db_keeps]: "keeps panel_ok (delete_sessions p)"
  by (rule keeps_panel [OF keeps_delete_sessions same_users]) (simp add: delete_sessions_def)

lemma panel_delete_attempts [db_keeps]: "keeps panel_ok (delete_attempts p)"
  by (rule keeps_panel [OF keeps_delete_attempts same_users]) (simp add: delete_attempts_def)

lemma panel_upsert [db_keeps]: "keeps panel_ok (upsert_attempt l)"
  by (rule keeps_panel [OF keeps_upsert same_users]) (simp add: upsert_attempt_def)

lemma panel_seen [db_keeps]:
  "keeps panel_ok (writes (\<lambda>d. d\<lparr>sessions := map (\<lambda>s. if s_token s = t then s\<lparr>s_seen := n\<rparr> else s) (sessions d)\<rparr>))"
  by (rule keeps_panel [OF keeps_seen same_users]) simp

lemma panel_counter [db_keeps]: "keeps panel_ok (writes (\<lambda>d. d\<lparr>failures_since_prune := f d\<rparr>))"
  by (rule keeps_panel [OF keeps_failure_counter same_users]) simp

lemma panel_write_audit [db_keeps]: "keeps panel_ok (write_audit now in_tx e)"
proof (rule keeps_panel [OF keeps_write_audit same_users])
  have "users (fst (prune_audit_if_needed d)) = users d" for d
    by (simp add: prune_audit_if_needed_def prune_audit_def split: list.split)
  then show "users (fst (write_audit now in_tx e d)) = users d" for d
    by (simp add: write_audit_def Let_def)
qed

lemma panel_update_users [db_keeps]:
  assumes "\<And>u. u_id (f u) = u_id u" "\<And>u. u_name (f u) = u_name u" "\<And>u. enabled_admin (f u) = enabled_admin u"
  shows "keeps panel_ok (update_users p f)"
proof (rule keeps_panel)
  show "keeps accounts_ok (update_users p f)" by (rule keeps_update_users) (simp_all add: assms)
  have "enabled_admin (if p u then f u else u) = enabled_admin u" for u by (simp add: assms(3))
  then have "(\<exists>v \<in> set (map (\<lambda>u. if p u then f u else u) us). enabled_admin v) = (\<exists>u \<in> set us. enabled_admin u)" for us
    unfolding set_map by blast
  then show "keeps has_admin (update_users p f)" by (simp add: keeps_def update_users_def has_admin_def)
qed

lemma two_admins:
  assumes "distinct (map u_id (users d))" "\<not> count_enabled_admins d \<le> 1"
  obtains u where "u \<in> set (users d)" "enabled_admin u" "u_id u \<noteq> i"
proof -
  let ?as = "filter enabled_admin (users d)"
  have two: "1 < length ?as" using assms(2) by (simp add: count_enabled_admins_def enabled_admin_def [abs_def])
  have "distinct (map u_id ?as)" using assms(1) by (simp add: distinct_map_filter)
  then have "map u_id ?as ! 0 \<noteq> map u_id ?as ! 1" using two by (subst nth_eq_iff_index_eq) auto
  moreover have "0 < length ?as" using two by linarith
  ultimately have "u_id (?as ! 0) \<noteq> u_id (?as ! 1)" using two by (metis nth_map)
  moreover have "?as ! 0 \<in> set ?as" by (rule nth_mem) (use two in linarith)
  moreover have "?as ! 1 \<in> set ?as" by (rule nth_mem) (use two in linarith)
  ultimately show thesis using that [of "?as ! 0"] that [of "?as ! 1"] by (cases "u_id (?as ! 0) = i") auto
qed

text \<open>When the guard says no, an enabled administrator other than the target remains, or none is lost.\<close>

lemma last_admin_guard:
  assumes "removes_last_admin i role disabled d = (d', Inr False)" "accounts_ok d" "has_admin d"
  obtains u where "u \<in> set (users d)" "enabled_admin u" "u_id u \<noteq> i" "d' = d"
  | "d' = d" "role = ''admin''" "\<not> disabled" "\<exists>u \<in> set (users d). u_id u = i"
proof -
  obtain t where t: "find_user_by_id i d = Some t" and d: "d' = d"
    using assms(1) by (auto simp: removes_last_admin_def and_then_def split: option.splits if_splits)
  have ti: "t \<in> set (users d)" "u_id t = i" using t by (auto simp: find_user_by_id_def find_user_def find_Some_iff)
  have dist: "distinct (map u_id (users d))" using assms(2) by (simp add: accounts_ok_def)
  consider "role = ''admin''" "\<not> disabled" | "\<not> enabled_admin t" | "\<not> count_enabled_admins d \<le> 1"
    using assms(1) t by (auto simp: removes_last_admin_def and_then_def enabled_admin_def split: if_splits)
  then show thesis
  proof cases
    case 2
    obtain u where u: "u \<in> set (users d)" "enabled_admin u" using assms(3) by (auto simp: has_admin_def)
    then have "u_id u \<noteq> i" using 2 ti dist by (metis distinct_map inj_onD)
    then show thesis using u d that(1) by blast
  qed (use that ti d dist two_admins in blast)+
qed

lemma then_keeps:
  assumes "P (fst (m d))" "\<And>x. keeps P (k x)"
  shows "P (fst (and_then m k d))"
  using assms by (cases "m d"; cases "snd (m d)") (simp_all add: and_then_def keeps_def)

lemma guard_keeps:
  assumes "m d = (d1, r)" "P d1" "r = Inr False \<Longrightarrow> P (fst (k d1))"
  shows "P (fst (and_then m (\<lambda>last. and_then (check_that (\<not> last) e) (\<lambda>_. k)) d))"
  using assms by (cases r) (auto simp: and_then_def)

lemma panel_update_access:
  assumes "\<And>x. keeps panel_ok (k x)"
  shows "keeps panel_ok (and_then (removes_last_admin i role disabled) (\<lambda>last.
     and_then (check_that (\<not> last) LastAdmin) (\<lambda>_.
     and_then (update_users (\<lambda>u. u_id u = i)
       (\<lambda>u. u\<lparr>u_role := role, u_disabled := bool_int disabled, u_updated := now\<rparr>)) k)))"
  unfolding keeps_def
proof (intro allI impI)
  fix d assume ok: "panel_ok d"
  let ?f = "\<lambda>u. u\<lparr>u_role := role, u_disabled := bool_int disabled, u_updated := now\<rparr>"
  let ?up = "update_users (\<lambda>u. u_id u = i) ?f"
  obtain d1 r where r: "removes_last_admin i role disabled d = (d1, r)" by force
  have d1: "d1 = d" using r by (auto simp: removes_last_admin_def and_then_def split: option.splits if_splits)
  have "panel_ok (fst (?up d))" if "r = Inr False"
  proof -
    have acc: "accounts_ok (fst (?up d))"
      using keeps_update_users [of ?f "\<lambda>u. u_id u = i"] ok by (simp add: keeps_def panel_ok_def)
    have "\<exists>u \<in> set (users (fst (?up d))). enabled_admin u"
    proof (cases rule: last_admin_guard [OF r [unfolded that]])
      case (3 u)
      then show ?thesis by (auto simp: update_users_def)
    next
      case 4
      then obtain u where u: "u \<in> set (users d)" "u_id u = i" by blast
      have "users (fst (?up d)) = map (\<lambda>u. if u_id u = i then ?f u else u) (users d)"
        using 4 by (simp add: update_users_def valid_role_def)
      then have "?f u \<in> set (users (fst (?up d)))" using u by (auto intro!: image_eqI [of _ _ u])
      moreover have "enabled_admin (?f u)" using 4 by (simp add: enabled_admin_def bool_int_def)
      ultimately show ?thesis by blast
    qed (use ok in \<open>simp_all add: panel_ok_def\<close>)
    then show ?thesis using acc by (simp add: panel_ok_def has_admin_def)
  qed
  then have "panel_ok (fst (and_then ?up k d))" if "r = Inr False"
    by (rule then_keeps) (use that assms in blast)+
  then show "panel_ok (fst (and_then (removes_last_admin i role disabled) (\<lambda>last.
     and_then (check_that (\<not> last) LastAdmin) (\<lambda>_. and_then ?up k)) d))"
    by (intro guard_keeps [where P = panel_ok and d = d and ?d1.0 = d1 and r = r]) (use r ok d1 in simp_all)
qed

lemma panel_delete_user:
  "keeps panel_ok (and_then (removes_last_admin i ''viewer'' True) (\<lambda>last.
     and_then (check_that (\<not> last) LastAdmin) (\<lambda>_. delete_user i)))"
  unfolding keeps_def
proof (intro allI impI)
  fix d assume ok: "panel_ok d"
  obtain d1 r where r: "removes_last_admin i ''viewer'' True d = (d1, r)" by force
  have d1: "d1 = d" using r by (auto simp: removes_last_admin_def and_then_def split: option.splits if_splits)
  have "panel_ok (fst (delete_user i d))" if "r = Inr False"
  proof (cases rule: last_admin_guard [OF r [unfolded that]])
    case (3 u)
    then show ?thesis
      using ok keeps_delete_user [of i] by (auto simp: keeps_def panel_ok_def has_admin_def delete_user_def)
  qed (use ok in \<open>simp_all add: panel_ok_def\<close>)
  then show "panel_ok (fst (and_then (removes_last_admin i ''viewer'' True) (\<lambda>last.
     and_then (check_that (\<not> last) LastAdmin) (\<lambda>_. delete_user i)) d))"
    by (intro guard_keeps [where P = panel_ok and d = d and ?d1.0 = d1 and r = r]) (use r ok d1 in simp_all)
qed


lemma panel_throttles [db_keeps]:
  "keeps panel_ok (get_throttle key now window)" "keeps panel_ok (get_login_throttle key now window)"
  "keeps panel_ok (clear_login_throttle key)" "keeps panel_ok (prune_login_attempts now window)"
  unfolding get_throttle_def get_login_throttle_def clear_login_throttle_def prune_login_attempts_def
  by (intro db_keeps)+

lemma panel_record_failure [db_keeps]: "keeps panel_ok (record_login_failure key now window n block)"
  unfolding record_login_failure_def count_failure_def prune_if_due_def Let_def by (intro db_keeps)

lemma panel_too_many [db_keeps]: "keeps panel_ok (too_many_attempts now keys)"
proof (induction keys)
  case (Cons key keys)
  then show ?case unfolding too_many_attempts.simps by (intro db_keeps)
qed (simp add: keeps_def)

lemma panel_sessions [db_keeps]:
  "keeps panel_ok (insert_session_input now i)" "keeps panel_ok (create_session now i)"
  "keeps panel_ok (delete_session token)" "keeps panel_ok (find_session_user token now)"
  "keeps panel_ok (logout now token audit)" "keeps panel_ok (delete_user_session_by_id now uid sid audit)"
  unfolding create_session_def insert_session_input_def delete_session_def find_session_user_def logout_def
    delete_user_session_by_id_def by (intro db_keeps)+

lemma panel_password_rows [db_keeps]:
  "keeps panel_ok (update_users p (\<lambda>u. u\<lparr>u_hash := h, u_updated := now\<rparr>))"
  by (rule panel_update_users) (simp_all add: enabled_admin_def)

lemma panel_passwords [db_keeps]:
  "keeps panel_ok (update_user_password now uid h audit)"
  "keeps panel_ok (upgrade_password_hash_if_unchanged now uid old new)"
  "keeps panel_ok (change_password now uid token old new key s audit)"
  unfolding update_user_password_def upgrade_password_hash_if_unchanged_def change_password_def
  by (intro db_keeps)+

lemma panel_admin_mutation [db_keeps]: "keeps panel_ok m \<Longrightarrow> keeps panel_ok (admin_mutation uid token now m)"
  unfolding admin_mutation_def by (intro db_keeps)

lemma panel_service [db_keeps]:
  "keeps panel_ok (session env token)" "keeps panel_ok (recheck env p)" "keeps panel_ok (require_admin q)"
  "keeps panel_ok (found_user uid)"
  unfolding recheck_def session_def require_admin_def found_user_def by (intro db_keeps)+

lemma panel_work [db_keeps]: "keeps panel_ok m \<Longrightarrow> keeps panel_ok (work env m)"
  unfolding work_def by (intro db_keeps)

lemma panel_by_admin [db_keeps]: "keeps panel_ok m \<Longrightarrow> keeps panel_ok (by_admin env p m action target details c)"
  unfolding by_admin_def by (intro db_keeps)

lemma panel_hash_password [db_keeps]: "keeps panel_ok (n_others env) \<Longrightarrow> keeps panel_ok (hash_password env p)"
  unfolding hash_password_def by (intro db_keeps)

lemma panel_authenticate [db_keeps]:
  "keeps panel_ok (n_others env) \<Longrightarrow> keeps panel_ok (n_recheck env) \<Longrightarrow> keeps panel_ok (authenticate env name p)"
  unfolding authenticate_def Let_def by (intro db_keeps)

lemma panel_login:
  "keeps panel_ok (n_others env) \<Longrightarrow> keeps panel_ok (n_recheck env) \<Longrightarrow> keeps panel_ok (n_commit env) \<Longrightarrow>
     keeps panel_ok (login env name p c)"
  unfolding login_def login_failed_def create_auth_session_def Let_def split_def by (intro db_keeps)

lemma panel_logout: "keeps panel_ok (auth_logout env token c)"
  unfolding auth_logout_def by (intro db_keeps)

lemma panel_change:
  "keeps panel_ok (n_others env) \<Longrightarrow> keeps panel_ok (n_commit env) \<Longrightarrow>
     keeps panel_ok (auth_change_password env p old new c)"
  unfolding auth_change_password_def change_work_def Let_def split_def by (intro db_keeps)

lemma panel_revoke: "keeps panel_ok (revoke_session env p sid c)"
  unfolding revoke_session_def by (intro db_keeps)

lemma panel_create: "keeps panel_ok (n_others env) \<Longrightarrow> keeps panel_ok (auth_create_user env p name pw role c)"
  unfolding auth_create_user_def Let_def split_def by (intro db_keeps)

lemma panel_update: "keeps panel_ok (n_commit env) \<Longrightarrow> keeps panel_ok (auth_update_access env p uid role disabled c)"
  unfolding auth_update_access_def by (intro panel_update_access db_keeps)

lemma panel_delete: "keeps panel_ok (n_commit env) \<Longrightarrow> keeps panel_ok (auth_delete_user env p uid c)"
  unfolding auth_delete_user_def by (intro panel_delete_user db_keeps)

lemma panel_reset: "keeps panel_ok (n_others env) \<Longrightarrow> keeps panel_ok (auth_reset_password env p uid pw c)"
  unfolding auth_reset_password_def by (intro panel_password_rows db_keeps)

lemma panel_recover: "keeps panel_ok (n_others env) \<Longrightarrow> keeps panel_ok (recover_password env name pw)"
  unfolding recover_password_def by (intro db_keeps)

section \<open>Throttles: lemmas\<close>

lemma and_then_eq: "m d = (d1, Inr x) \<Longrightarrow> and_then m f d = f x d1"
  by (simp add: and_then_def)

lemma fst_and_then_done: "fst (and_then m (\<lambda>_. done_with y) d) = fst (m d)"
  by (auto simp: and_then_def split: prod.split sum.split)

lemma and_then_simps:
  "and_then (reads g) f d = f (g d) d" "and_then (done_with x) f d = f x d" "and_then (writes h) f' d = f' () (h d)"
  "and_then (upsert_attempt l) f' d = f' () (fst (upsert_attempt l d))"
  "and_then (delete_attempts p) f' d = f' () (d\<lparr>attempts := filter (\<lambda>l. \<not> p l) (attempts d)\<rparr>)"
  by (simp_all add: and_then_def upsert_attempt_def delete_attempts_def)

lemma find_upsert_list:
  fixes ls :: "attempt_row list"
  shows "find (\<lambda>m. l_key m = key)
     (if \<exists>m \<in> set ls. l_key m = l_key l
      then map (\<lambda>m. if l_key m = l_key l
        then m\<lparr>l_failures := l_failures l, l_blocked := l_blocked l, l_updated := l_updated l\<rparr> else m) ls
      else ls @ [l]) =
     (if l_key l = key then
        Some (case find (\<lambda>m. l_key m = key) ls of None \<Rightarrow> l
              | Some m \<Rightarrow> m\<lparr>l_failures := l_failures l, l_blocked := l_blocked l, l_updated := l_updated l\<rparr>)
      else find (\<lambda>m. l_key m = key) ls)"
proof (cases "\<exists>m \<in> set ls. l_key m = l_key l")
  case True
  have "find (\<lambda>m. l_key m = key) (map (\<lambda>m. if l_key m = l_key l
      then m\<lparr>l_failures := l_failures l, l_blocked := l_blocked l, l_updated := l_updated l\<rparr> else m) ls) =
    map_option (\<lambda>m. if l_key l = key
         then m\<lparr>l_failures := l_failures l, l_blocked := l_blocked l, l_updated := l_updated l\<rparr> else m)
      (find (\<lambda>m. l_key m = key) ls)"
    by (induction ls) auto
  moreover have "l_key l = key \<Longrightarrow> find (\<lambda>m. l_key m = key) ls \<noteq> None"
    using True by (auto simp: find_None_iff)
  ultimately show ?thesis using True by (auto simp: option.map_id0 [unfolded id_def])
next
  case False
  have "find (\<lambda>m. l_key m = key) (ls @ [l]) =
    (case find (\<lambda>m. l_key m = key) ls of None \<Rightarrow> if l_key l = key then Some l else None | Some m \<Rightarrow> Some m)"
    by (induction ls) auto
  moreover have "l_key l = key \<Longrightarrow> find (\<lambda>m. l_key m = key) ls = None"
    using False by (auto simp: find_None_iff)
  ultimately show ?thesis using False by (auto split: option.splits)
qed

lemma find_upsert:
  "find_attempt key (fst (upsert_attempt l d)) =
     (if l_key l = key then
        Some (case find_attempt key d of None \<Rightarrow> l
              | Some m \<Rightarrow> m\<lparr>l_failures := l_failures l, l_blocked := l_blocked l, l_updated := l_updated l\<rparr>)
      else find_attempt key d)"
proof -
  have "attempts (fst (upsert_attempt l d)) =
     (if \<exists>m \<in> set (attempts d). l_key m = l_key l
      then map (\<lambda>m. if l_key m = l_key l
        then m\<lparr>l_failures := l_failures l, l_blocked := l_blocked l, l_updated := l_updated l\<rparr> else m) (attempts d)
      else attempts d @ [l])"
    by (simp add: upsert_attempt_def)
  show ?thesis unfolding find_attempt_def \<open>attempts (fst (upsert_attempt l d)) = _\<close> by (rule find_upsert_list)
qed

text \<open>One failure: the count goes up, or starts anew when the old window is over.\<close>

definition after_failure :: "int \<Rightarrow> int \<Rightarrow> int \<Rightarrow> int \<Rightarrow> string \<Rightarrow> attempt_row option \<Rightarrow> attempt_row" where
  "after_failure now window n block key row =
     (case row of
        Some l \<Rightarrow>
          if attempt_expired now window l
          then \<lparr>l_key = key, l_failures = 1, l_started = now, l_blocked = (if 1 \<ge> n then now + block else 0), l_updated = now\<rparr>
          else l\<lparr>l_failures := l_failures l + 1,
                 l_blocked := (if l_failures l + 1 \<ge> n then now + block else l_blocked l), l_updated := now\<rparr>
      | None \<Rightarrow>
          \<lparr>l_key = key, l_failures = 1, l_started = now, l_blocked = (if 1 \<ge> n then now + block else 0), l_updated = now\<rparr>)"

lemma find_delete_key: "find_attempt key (d\<lparr>attempts := filter (\<lambda>l. l_key l \<noteq> key) (attempts d)\<rparr>) = None"
  by (auto simp: find_attempt_def find_None_iff)

lemma find_prune:
  assumes "find_attempt key d = Some l" "l_updated l = now" "0 \<le> window"
  shows "find_attempt key (fst (prune_login_attempts now window d)) = Some l"
proof -
  have "find P xs = Some x \<Longrightarrow> Q x \<Longrightarrow> find P (filter Q xs) = Some x" for P Q and xs :: "attempt_row list" and x
    by (induction xs) (auto split: if_splits)
  from this [of _ "attempts d" l] show ?thesis
    using assms by (simp add: prune_login_attempts_def delete_attempts_def find_attempt_def)
qed

lemma record_failure_row:
  assumes "0 \<le> window"
  shows "find_attempt key (fst (record_login_failure key now window n block d)) =
     Some (after_failure now window n (if block \<le> 0 then window else block) key (find_attempt key d))"
proof -
  let ?b = "if block \<le> 0 then window else block"
  let ?row = "after_failure now window n ?b key (find_attempt key d)"
  let ?count = "count_failure key now window n ?b"
  have "\<exists>d1 t. ?count d = (d1, Inr t) \<and> find_attempt key d1 = Some ?row"
  proof (cases "find_attempt key d")
    case None
    then have "get_throttle key now window d = (d, Inr (no_throttle, 0, False))"
      by (simp add: get_throttle_def and_then_simps)
    then show ?thesis
      using None by (simp add: count_failure_def and_then_def [of "get_throttle key now window"] Let_def and_then_simps find_upsert
          no_throttle_def after_failure_def)
  next
    case (Some l)
    show ?thesis
    proof (cases "attempt_expired now window l")
      case True
      then have "get_throttle key now window d =
          (d\<lparr>attempts := filter (\<lambda>l. l_key l \<noteq> key) (attempts d)\<rparr>, Inr (no_throttle, 0, False))"
        using Some by (simp add: get_throttle_def and_then_simps)
      then show ?thesis
        using True Some by (simp add: count_failure_def and_then_def [of "get_throttle key now window"] Let_def and_then_simps find_upsert
            find_delete_key no_throttle_def after_failure_def)
    next
      case False
      then have "get_throttle key now window d =
          (d, Inr (\<lparr>t_failures = l_failures l, t_blocked = l_blocked l\<rparr>, l_started l, True))"
        using Some by (simp add: get_throttle_def and_then_simps)
      then show ?thesis
        using False Some by (simp add: count_failure_def and_then_def [of "get_throttle key now window"] Let_def and_then_simps find_upsert
            after_failure_def)
    qed
  qed
  then obtain d1 t where c: "?count d = (d1, Inr t)" and d1: "find_attempt key d1 = Some ?row" by blast
  have run: "fst (record_login_failure key now window n block d) = fst (prune_if_due now window d1)"
  proof -
    have "tx ?count d = (d1, Inr t)" using c by (simp only: tx_Inr)
    then have "record_login_failure key now window n block d = and_then (prune_if_due now window) (\<lambda>_. done_with t) d1"
      unfolding record_login_failure_def by (rule and_then_eq)
    then show ?thesis by (simp add: fst_and_then_done)
  qed
  have "l_updated ?row = now" by (simp add: after_failure_def split: option.split)
  moreover have "find_attempt key (d1\<lparr>failures_since_prune := k\<rparr>) = find_attempt key d1" for k
    by (simp add: find_attempt_def)
  ultimately show ?thesis
    using d1 assms find_prune [of key _ ?row now window] unfolding run by (simp add: prune_if_due_def and_then_simps)
qed

text \<open>A run of failures inside one window.\<close>

definition failures_run :: "string \<Rightarrow> int \<Rightarrow> int \<Rightarrow> int \<Rightarrow> int list \<Rightarrow> database \<Rightarrow> database" where
  "failures_run key window n block ts d = foldl (\<lambda>d t. fst (record_login_failure key t window n block d)) d ts"

text \<open>How long a key stays blocked: a block time of zero or less stands for the window.\<close>

definition block_time :: "int \<Rightarrow> int \<Rightarrow> int" where
  "block_time window block = (if block \<le> 0 then window else block)"

lemma failures_run_row:
  assumes "0 < window" "find_attempt key d = None" "\<forall>t \<in> set ts. t0 \<le> t \<and> t < t0 + window" "sorted (t0 # ts)"
  shows "find_attempt key (failures_run key window n block (t0 # ts) d) =
     Some \<lparr>l_key = key, l_failures = 1 + int (length ts), l_started = t0,
           l_blocked = (if 1 + int (length ts) \<ge> n then last (t0 # ts) + block_time window block else 0), l_updated = last (t0 # ts)\<rparr>"
  using assms(3,4)
proof (induction ts rule: rev_induct)
  case Nil
  show ?case
    using record_failure_row [of window key t0 n block d] assms(1,2) by (simp add: failures_run_def after_failure_def block_time_def)
next
  case (snoc t ts)
  have "sorted (t0 # ts)" using snoc.prems(2) by (simp add: sorted_append)
  then have IH: "find_attempt key (failures_run key window n block (t0 # ts) d) =
     Some \<lparr>l_key = key, l_failures = 1 + int (length ts), l_started = t0,
           l_blocked = (if 1 + int (length ts) \<ge> n then last (t0 # ts) + block_time window block else 0), l_updated = last (t0 # ts)\<rparr>"
    (is "_ = Some ?l") using snoc by simp
  have "t0 \<le> t" "t < t0 + window" using snoc.prems by auto
  then have "\<not> attempt_expired t window ?l" by (simp add: attempt_expired_def)
  then have "after_failure t window n (block_time window block) key (Some ?l) =
      ?l\<lparr>l_failures := 2 + int (length ts), l_blocked := (if 2 + int (length ts) \<ge> n then t + block_time window block else 0), l_updated := t\<rparr>"
    by (auto simp: after_failure_def)
  moreover have "failures_run key window n block (t0 # ts @ [t]) d =
      fst (record_login_failure key t window n block (failures_run key window n block (t0 # ts) d))"
    by (simp add: failures_run_def)
  ultimately show ?case
    using record_failure_row [of window key t n block "failures_run key window n block (t0 # ts) d"] IH assms(1) by (simp add: block_time_def)
qed

section \<open>Sessions: lemmas\<close>

lemma insert_session_input_checked:
  assumes "insert_session_input now inp d = (d', Inr ())" "i_hash inp \<noteq> []"
  shows "(\<exists>u \<in> set (users d'). u_id u = i_user inp \<and> u_hash u = i_hash inp \<and> u_disabled u = 0) \<and>
    (\<exists>s \<in> set (sessions d'). s_token s = i_token inp \<and> s_user s = i_user inp)"
proof -
  have audit: "users (fst (write_audit now True a e)) = users e \<and> sessions (fst (write_audit now True a e)) = sessions e" for a e
    by (simp add: write_audit_def Let_def)
  obtain d1 where ins: "insert_session (session_of inp) d = (d1, Inr ())"
    and aud: "(case i_audit inp of None \<Rightarrow> done_with () | Some a \<Rightarrow> write_audit now True a) d1 = (d', Inr ())"
    and u: "\<exists>u \<in> set (users d). u_id u = i_user inp \<and> u_hash u = i_hash inp \<and> u_disabled u = 0"
    using assms by (auto simp: insert_session_input_def and_then_Inr split: if_splits)
  have "users d' = users d1 \<and> sessions d' = sessions d1"
    using aud audit [of _ d1] by (cases "i_audit inp") (auto, metis fst_conv, metis fst_conv)
  moreover have "users d1 = users d \<and> session_of inp \<in> set (sessions d1)"
    using ins by (auto simp: insert_session_def split: if_splits)
  moreover have "s_token (session_of inp) = i_token inp" "s_user (session_of inp) = i_user inp"
    by (simp_all add: session_of_def)
  ultimately show ?thesis using u by metis
qed

lemma create_session_checked:
  assumes "create_session now inp d = (d', Inr ())" "i_hash inp \<noteq> []"
  shows "(\<exists>u \<in> set (users d'). u_id u = i_user inp \<and> u_hash u = i_hash inp \<and> u_disabled u = 0) \<and>
    (\<exists>s \<in> set (sessions d'). s_token s = i_token inp \<and> s_user s = i_user inp)"
  using assms insert_session_input_checked
  by (auto simp: create_session_def and_then_Inr delete_sessions_def)

lemma authenticate_verified:
  assumes "authenticate env name pw d = (d', Inr (Some (u, v)))"
  shows "pw_verify env pw v \<or> pw_hash env pw = Some v"
  using assms unfolding authenticate_def hash_password_def Let_def
  by (auto simp: and_then_Inr split: option.splits if_splits)

lemma login_result:
  assumes "login env name pw c d = (d', Inr p)"
  obtains d1 d2 d3 u v a where "authenticate env (fst (valid_username name)) pw d1 = (d2, Inr (Some (u, v)))"
    and "create_auth_session (later env) u c v (Some a) d3 = (d', Inr p)"
proof -
  have "\<exists>d1 d2 r d3. work env (authenticate env (fst (valid_username name)) pw) d1 = (d2, Inr (Some r)) \<and>
      (\<exists>a. create_auth_session (later env) (fst r) c (snd r) (Some a) d3 = (d', Inr p))"
    using assms unfolding login_def Let_def split_def
    by (fastforce simp: and_then_Inr split: option.splits if_splits)
  then show thesis using that by (auto simp: work_def split: if_splits)
qed

section \<open>Properties\<close>

text \<open>
  C25. No operation of the account service, in any database with an enabled administrator, leaves
  one without: the tables stay consistent and an enabled administrator remains, whatever other
  operations run while a password is being hashed and before its transaction.
\<close>

theorem account_operations_keep_admin:
  assumes "keeps panel_ok (n_others env)" "keeps panel_ok (n_recheck env)" "keeps panel_ok (n_commit env)"
  shows "keeps panel_ok (login env name pw c) \<and> keeps panel_ok (auth_logout env token c) \<and>
    keeps panel_ok (auth_change_password env p old pw c) \<and> keeps panel_ok (revoke_session env p sid c) \<and>
    keeps panel_ok (auth_create_user env p name pw role c) \<and>
    keeps panel_ok (auth_update_access env p uid role disabled c) \<and>
    keeps panel_ok (auth_delete_user env p uid c) \<and> keeps panel_ok (auth_reset_password env p uid pw c) \<and>
    keeps panel_ok (recover_password env name pw)"
  by (intro conjI panel_login panel_logout panel_change panel_revoke panel_create panel_update panel_delete
      panel_reset panel_recover assms)

definition example_env :: auth_env where
  "example_env = \<lparr>n_now = 1000, n_after = 1200, n_token = ''t'', n_session = ''s'', n_user = ''u2'', n_busy = False,
     n_others = done_with (), n_recheck = done_with (), n_commit = done_with (), n_window = id, token_hash = id, fold_name = to_lower, pw_hash = Some, pw_verify = (\<lambda>p h. p = h),
     pw_weak = (\<lambda>_. False)\<rparr>"

definition example_db :: database where
  "example_db = empty_db\<lparr>users := [\<lparr>u_id = ''u1'', u_name = ''admin'', u_hash = ''a long password'', u_role = ''admin'',
     u_disabled = 0, u_created = 0, u_updated = 0\<rparr>]\<rparr>"

definition example_client :: client where
  "example_client = \<lparr>c_ip = ''10.0.0.1'', c_agent = []\<rparr>"

lemma account_operations_keep_admin_witness:
  "panel_ok (fst (login example_env ''admin'' ''a long password'' example_client example_db))"
proof -
  have "panel_ok example_db"
    by (simp add: panel_ok_def accounts_ok_def has_admin_def enabled_admin_def valid_role_def example_db_def empty_db_def)
  moreover have "keeps panel_ok (n_others example_env)" "keeps panel_ok (n_recheck example_env)"
    "keeps panel_ok (n_commit example_env)" by (simp_all add: example_env_def keeps_done)
  then have "keeps panel_ok (login example_env ''admin'' ''a long password'' example_client)"
    by (rule conjunct1 [OF account_operations_keep_admin])
  ultimately show ?thesis unfolding keeps_def by blast
qed

text \<open>
  C24. A sign-in that succeeds was right when its session was committed: the account exists, is
  enabled, and its password hash is the one the password was verified against (or the upgrade
  of it that the sign-in stored); and the new session belongs to that account. This holds whatever
  other requests did while the password was checked, after the account was read again, and up to
  the transaction that inserts the session: a concurrent reset or disable wins. The hasher is
  assumed not to produce or accept an empty hash.
\<close>

theorem login_valid_at_commit:
  assumes "login env name pw c d = (d', Inr p)"
    and "\<not> pw_verify env pw []" "pw_hash env pw \<noteq> Some []"
  shows "\<exists>u \<in> set (users d'). u_id u = su_id (p_user p) \<and> u_disabled u = 0 \<and>
      (pw_verify env pw (u_hash u) \<or> pw_hash env pw = Some (u_hash u)) \<and>
      (\<exists>s \<in> set (sessions d'). s_token s = p_hash p \<and> s_user s = u_id u)"
proof -
  obtain d1 d2 d3 u v a where auth: "authenticate env (fst (valid_username name)) pw d1 = (d2, Inr (Some (u, v)))"
    and create: "create_auth_session (later env) u c v (Some a) d3 = (d', Inr p)"
    by (rule login_result [OF assms(1)])
  have v: "pw_verify env pw v \<or> pw_hash env pw = Some v" by (rule authenticate_verified [OF auth])
  then have "v \<noteq> []" using assms(2,3) by auto
  let ?inp = "(session_input (later env) (su_id u) c)\<lparr>i_hash := v, i_audit := Some a\<rparr>"
  have cs: "create_session (n_after env) ?inp d3 = (d', Inr ())"
    and p: "p_user p = u" "p_hash p = token_hash env (n_token env)"
    using create by (auto simp: create_auth_session_def and_then_Inr later_def)
  from create_session_checked [OF cs] \<open>v \<noteq> []\<close>
  obtain w s where "w \<in> set (users d')" "u_id w = su_id u" "u_hash w = v" "u_disabled w = 0"
    "s \<in> set (sessions d')" "s_token s = token_hash env (n_token env)" "s_user s = su_id u"
    by (auto simp: session_input_def later_def)
  then show ?thesis using v p by metis
qed

lemma login_valid_at_commit_witness:
  "\<exists>d' p. login example_env ''admin'' ''a long password'' example_client example_db = (d', Inr p) \<and>
     (\<exists>u \<in> set (users d'). u_id u = su_id (p_user p) \<and> u_disabled u = 0) \<and>
   snd (login (example_env\<lparr>n_commit := update_user_access 1200 ''u1'' ''admin'' True\<rparr>) ''admin'' ''a long password''
     example_client example_db) = Inl invalid_credentials"
proof -
  have disabled: "snd (login (example_env\<lparr>n_commit := update_user_access 1200 ''u1'' ''admin'' True\<rparr>) ''admin''
      ''a long password'' example_client example_db) = Inl invalid_credentials"
    by code_simp
  have "isl (snd (login example_env ''admin'' ''a long password'' example_client example_db)) = False"
    by code_simp
  then obtain d' p where l: "login example_env ''admin'' ''a long password'' example_client example_db = (d', Inr p)"
    by (cases "login example_env ''admin'' ''a long password'' example_client example_db";
        cases "snd (login example_env ''admin'' ''a long password'' example_client example_db)") auto
  then show ?thesis
    using login_valid_at_commit [OF l] disabled by (auto simp: example_env_def)
qed

text \<open>
  C28. Guessing is stopped: once as many failures as the limit have been recorded for a key inside
  one window, the key is blocked for the whole block time after the last of them, which is the window
  itself when the caller passes a block time of zero, as all but the account-wide cooldown do;
  and the failures stay counted. The shared prune counter may stand anywhere.
\<close>

theorem login_failures_block:
  assumes "0 < window" "find_attempt key d = None"
    and "\<forall>t \<in> set ts. t0 \<le> t \<and> t < t0 + window" "sorted (t0 # ts)" "n \<le> 1 + int (length ts)"
    and "last (t0 # ts) \<le> now" "now < last (t0 # ts) + (if block \<le> 0 then window else block)"
  shows "snd (get_login_throttle key now window (failures_run key window n block (t0 # ts) d)) =
     Inr \<lparr>t_failures = 1 + int (length ts), t_blocked = last (t0 # ts) + (if block \<le> 0 then window else block)\<rparr>"
  using failures_run_row [OF assms(1-4), of n block] assms(5-7)
  by (simp add: get_login_throttle_def and_then_simps attempt_expired_def block_time_def)

lemma login_failures_block_witness:
  "snd (get_login_throttle ''k'' 700 1000 (failures_run ''k'' 1000 3 500 [0, 100, 300] example_db)) =
     Inr \<lparr>t_failures = 3, t_blocked = 800\<rparr> \<and>
   snd (get_login_throttle ''k'' 1200 1000 (failures_run ''k'' 1000 3 0 [0, 100, 300] example_db)) =
     Inr \<lparr>t_failures = 3, t_blocked = 1300\<rparr>"
  using login_failures_block [of 1000 "''k''" example_db "[100, 300]" 0 3 700 500]
    login_failures_block [of 1000 "''k''" example_db "[100, 300]" 0 3 1200 0]
  by (simp add: find_attempt_def example_db_def empty_db_def)

section \<open>Setup and revocation\<close>

lemma write_audit_tables:
  "write_audit now True a d = (d', Inr ()) \<Longrightarrow>
     users d' = users d \<and> sessions d' = sessions d \<and> attempts d' = attempts d"
  by (auto simp: write_audit_def Let_def split: if_splits)

lemma insert_session_input_users:
  "insert_session_input now inp d = (d', Inr ()) \<Longrightarrow> users d' = users d"
  by (auto simp: insert_session_input_def and_then_Inr insert_session_def
      split: if_splits option.splits dest: write_audit_tables)

lemma create_first_user_Inr:
  assumes "create_first_user now u audit inp d = (d', Inr ())"
  shows "users d = [] \<and> users d' = [u\<lparr>u_disabled := 0, u_updated := u_created u\<rparr>]"
  using assms
  by (auto simp: create_first_user_def and_then_Inr count_users_def insert_user_def
      split: if_splits dest!: write_audit_tables insert_session_input_users)

lemma completed_refuses: "w_completed w \<Longrightarrow> \<exists>e. assert_authorized digest w now required code = Inl e"
  by (cases "assert_open w now required") (auto simp: assert_authorized_def)

lemma sum_unit_only: "\<forall>e. r \<noteq> Inl e \<Longrightarrow> r = Inr ()"
  by (cases r) auto

lemma complete_setup_authorized:
  assumes "complete_setup env scope w name pw code c d = (d', Inr r)"
  shows "assert_authorized (token_hash env) w (n_now env) (count_users d = 0) code = Inr ()"
    and "\<exists>b. assert_authorized (token_hash env) (n_window env w) (n_after env) b code = Inr ()"
    and "snd r = mark_completed (n_window env w)"
    and "\<exists>hash d1. create_first_user (n_after env)
        \<lparr>u_id = n_user env, u_name = fst (valid_username name), u_hash = hash, u_role = ''admin'', u_disabled = 0,
         u_created = n_after env, u_updated = n_after env\<rparr>
        (plain_audit (n_user env) ''auth.setup.completed'' ''user'' (n_user env) None c)
        (session_input (later env) (n_user env) c) d1 = (d', Inr ())"
proof -
  have "assert_authorized (token_hash env) w (n_now env) (count_users d = 0) code = Inr () \<and>
    (\<exists>b. assert_authorized (token_hash env) (n_window env w) (n_after env) b code = Inr ()) \<and>
    snd r = mark_completed (n_window env w) \<and>
    (\<exists>hash d1. create_first_user (n_after env)
        \<lparr>u_id = n_user env, u_name = fst (valid_username name), u_hash = hash, u_role = ''admin'', u_disabled = 0,
         u_created = n_after env, u_updated = n_after env\<rparr>
        (plain_audit (n_user env) ''auth.setup.completed'' ''user'' (n_user env) None c)
        (session_input (later env) (n_user env) c) d1 = (d', Inr ()))"
    using assms unfolding complete_setup_def Let_def
    by (auto simp: and_then_Inr split: sum.splits if_splits dest!: sum_unit_only)
  then show "assert_authorized (token_hash env) w (n_now env) (count_users d = 0) code = Inr ()"
    and "\<exists>b. assert_authorized (token_hash env) (n_window env w) (n_after env) b code = Inr ()"
    and "snd r = mark_completed (n_window env w)"
    and "\<exists>hash d1. create_first_user (n_after env)
        \<lparr>u_id = n_user env, u_name = fst (valid_username name), u_hash = hash, u_role = ''admin'', u_disabled = 0,
         u_created = n_after env, u_updated = n_after env\<rparr>
        (plain_audit (n_user env) ''auth.setup.completed'' ''user'' (n_user env) None c)
        (session_input (later env) (n_user env) c) d1 = (d', Inr ())"
    by blast+
qed

text \<open>
  C26. Setup happens once: it succeeds only while the window is open and not completed, with the
  right code, both before and after the password was hashed, whatever other requests did to the
  window meanwhile, and only when no account exists at the moment it commits; it leaves exactly
  one account, an enabled administrator; and the window it leaves authorizes no setup ever again.
\<close>

theorem setup_once:
  assumes "complete_setup env scope w name pw code c d = (d', Inr (p, w'))"
  shows "n_now env < w_expires w \<and> \<not> w_completed w \<and> token_hash env code = w_code w \<and>
    n_after env < w_expires (n_window env w) \<and> \<not> w_completed (n_window env w) \<and>
    token_hash env code = w_code (n_window env w) \<and>
    (\<exists>u. users d' = [u] \<and> enabled_admin u \<and> u_name u = fst (valid_username name)) \<and>
    (\<nexists>env2 scope2 name2 pw2 code2 c2 d2 d3 r. complete_setup env2 scope2 w' name2 pw2 code2 c2 d2 = (d3, Inr r))"
proof -
  have auth: "assert_authorized (token_hash env) w (n_now env) (count_users d = 0) code = Inr ()"
    and again: "\<exists>b. assert_authorized (token_hash env) (n_window env w) (n_after env) b code = Inr ()"
    and w': "w' = mark_completed (n_window env w)"
    using complete_setup_authorized(1-3) [OF assms] by simp_all
  have "n_now env < w_expires w \<and> \<not> w_completed w \<and> token_hash env code = w_code w"
    using auth by (auto simp: assert_authorized_def res_bind_Inr assert_open_def setup_state_def split: if_splits)
  moreover have "n_after env < w_expires (n_window env w) \<and> \<not> w_completed (n_window env w) \<and>
      token_hash env code = w_code (n_window env w)"
    using again by (auto simp: assert_authorized_def res_bind_Inr assert_open_def setup_state_def split: if_splits)
  moreover have "\<exists>u. users d' = [u] \<and> enabled_admin u \<and> u_name u = fst (valid_username name)"
    using complete_setup_authorized(4) [OF assms] create_first_user_Inr by (fastforce simp: enabled_admin_def)
  moreover have "w_completed w'" by (simp add: w' mark_completed_def)
  then have "complete_setup env2 scope2 w' name2 pw2 code2 c2 d2 \<noteq> (d3, Inr r)"
    for env2 scope2 name2 pw2 code2 c2 d2 d3 r
    using complete_setup_authorized(1) completed_refuses by (metis sum.distinct(1))
  ultimately show ?thesis by blast
qed

definition example_code :: string where
  "example_code = ''0123456789abcdef0123456789abcdef''"

definition example_window :: setup_window where
  "example_window = \<lparr>w_expires = 300000, w_code = example_code, w_generated = [], w_completed = False\<rparr>"

lemma succeeds: "\<not> isl (snd r) \<Longrightarrow> \<exists>d x. r = (d, Inr x)"
  by (cases r; cases "snd r") auto

lemma setup_once_witness:
  "\<exists>d' p w'. complete_setup example_env [] example_window ''admin'' ''a long password'' example_code example_client empty_db =
       (d', Inr (p, w')) \<and> (\<exists>u. users d' = [u] \<and> enabled_admin u)"
proof -
  have "\<not> isl (snd (complete_setup example_env [] example_window ''admin'' ''a long password'' example_code example_client empty_db))"
    by code_simp
  then obtain d' p w' where r: "complete_setup example_env [] example_window ''admin'' ''a long password'' example_code
      example_client empty_db = (d', Inr (p, w'))"
    using succeeds by (metis prod.collapse)
  show ?thesis using setup_once [OF r] r by blast
qed

text \<open>
  C27. Resetting a password signs the account out everywhere and replaces its hash: afterwards no
  session of the account is left, and its only stored hash is that of the new password.
\<close>

theorem reset_password_revokes:
  assumes "auth_reset_password env p uid pw c d = (d', Inr ())"
  shows "\<not> (\<exists>s \<in> set (sessions d'). s_user s = uid) \<and>
    (\<exists>u \<in> set (users d'). u_id u = uid \<and> pw_hash env pw = Some (u_hash u)) \<and>
    \<not> (\<exists>u \<in> set (users d'). u_id u = uid \<and> pw_hash env pw \<noteq> Some (u_hash u))"
proof -
  obtain h d1 d2 where h: "pw_hash env pw = Some h"
    and m: "by_admin (later env) p (and_then (update_users (\<lambda>u. u_id u = uid) (\<lambda>u. u\<lparr>u_hash := h, u_updated := n_after env\<rparr>)) (\<lambda>changed.
           and_then (check_that (changed = 1) UserNotFound) (\<lambda>_. delete_sessions (\<lambda>s. s_user s = uid))))
          ''user.password.reset'' uid None c d1 = (d', Inr ())"
    using assms by (auto simp: auth_reset_password_def and_then_Inr work_def hash_password_def split: if_splits option.splits)
  then obtain d3 d4 n where u: "update_users (\<lambda>u. u_id u = uid) (\<lambda>u. u\<lparr>u_hash := h, u_updated := n_after env\<rparr>) d3 = (d4, Inr n)"
    and n: "n = 1" and t: "users d' = users d4" "sessions d' = filter (\<lambda>s. s_user s \<noteq> uid) (sessions d4)"
    by (auto simp: by_admin_def admin_mutation_def and_then_Inr delete_sessions_def
        split: option.splits if_splits dest!: write_audit_tables)
  have ud: "users d4 = map (\<lambda>u. if u_id u = uid then u\<lparr>u_hash := h, u_updated := n_after env\<rparr> else u) (users d3)"
    and len: "n = length (filter (\<lambda>u. u_id u = uid) (users d3))"
    using u by (auto simp: update_users_def split: if_splits)
  then have "filter (\<lambda>u. u_id u = uid) (users d3) \<noteq> []" using n by auto
  then obtain v where "v \<in> set (users d3)" "u_id v = uid" by (metis (mono_tags) filter_False)
  then have "v\<lparr>u_hash := h, u_updated := n_after env\<rparr> \<in> set (users d')" using t(1) ud by (auto intro!: image_eqI [of _ _ v])
  then have "\<exists>u \<in> set (users d'). u_id u = uid \<and> u_hash u = h"
    by (rule bexI [rotated]) (simp add: \<open>u_id v = uid\<close>)
  moreover have "u_hash u = h" if uid: "u \<in> set (users d')" "u_id u = uid" for u
  proof -
    obtain x where "u = (if u_id x = uid then x\<lparr>u_hash := h, u_updated := n_after env\<rparr> else x)"
      using uid(1) unfolding t(1) ud set_map by blast
    then show ?thesis using uid(2) by (cases "u_id x = uid") simp_all
  qed
  moreover have "\<not> (\<exists>s \<in> set (sessions d'). s_user s = uid)" using t(2) by simp
  ultimately show ?thesis using h by metis
qed

definition example_session_db :: database where
  "example_session_db = example_db\<lparr>
     users := users example_db @ [\<lparr>u_id = ''u3'', u_name = ''guest'', u_hash = ''old'', u_role = ''viewer'', u_disabled = 0,
       u_created = 0, u_updated = 0\<rparr>],
     sessions := [\<lparr>s_token = ''t1'', s_id = ''s1'', s_user = ''u1'', s_created = 0, s_expires = 5000, s_seen = 0,
         s_ip = None, s_agent = None\<rparr>,
       \<lparr>s_token = ''t3'', s_id = ''s3'', s_user = ''u3'', s_created = 0, s_expires = 5000, s_seen = 0,
         s_ip = None, s_agent = None\<rparr>]\<rparr>"

definition example_principal :: principal where
  "example_principal = \<lparr>p_user = \<lparr>su_id = ''u1'', su_name = ''admin'', su_role = ''admin''\<rparr>, p_token = ''t1'', p_hash = ''t1''\<rparr>"

lemma reset_password_revokes_witness:
  "\<exists>d'. auth_reset_password example_env example_principal ''u3'' ''a new long password'' example_client example_session_db =
       (d', Inr ()) \<and> \<not> (\<exists>s \<in> set (sessions d'). s_user s = ''u3'')"
proof -
  have "\<not> isl (snd (auth_reset_password example_env example_principal ''u3'' ''a new long password'' example_client
      example_session_db))" by code_simp
  then obtain d' where "auth_reset_password example_env example_principal ''u3'' ''a new long password'' example_client
      example_session_db = (d', Inr ())"
    using succeeds by (metis old.unit.exhaust)
  from reset_password_revokes [OF this] this show ?thesis by blast
qed

end
