(* ===== verification/PasswordWork.thy ===== *)
theory PasswordWork
  imports Base "HOL-Library.Multiset"
begin

text \<open>
  The bound on concurrent password hashing, \<open>PasswordWork\<close> of \<open>src/internal/auth/password.go\<close>.
  A reservation counts a source and a subject in two maps; the maps' interface is a locale.
\<close>

section \<open>A map of counters\<close>

locale counters =
  fixes ok :: "'m \<Rightarrow> bool"
    and get :: "'m \<Rightarrow> string \<Rightarrow> nat"
    and inc :: "'m \<Rightarrow> string \<Rightarrow> 'm"
    and dec :: "'m \<Rightarrow> string \<Rightarrow> 'm"
  assumes get_inc: "get (inc m k) j = get m j + (if j = k then 1 else 0)"
    and get_dec: "ok m \<Longrightarrow> get (dec m k) j = get m j - (if j = k then 1 else 0)"
    and ok_inc: "ok m \<Longrightarrow> ok (inc m k)"
    and ok_dec: "ok m \<Longrightarrow> ok (dec m k)"
begin

text \<open>The map counts the keys of the reservations that are held.\<close>

definition counts :: "'m \<Rightarrow> string multiset \<Rightarrow> bool" where
  "counts m held \<longleftrightarrow> ok m \<and> (\<forall>k. get m k = count held k)"

lemma counts_inc: "counts m held \<Longrightarrow> counts (inc m k) (held + {#k#})"
  by (simp add: counts_def get_inc ok_inc)

lemma counts_dec: "counts m held \<Longrightarrow> counts (dec m k) (held - {#k#})"
  by (simp add: counts_def get_dec ok_dec)

end

type_synonym counter_map = "(string \<times> nat) list"

definition counter_get :: "counter_map \<Rightarrow> string \<Rightarrow> nat" where
  "counter_get m k = (case map_of m k of None \<Rightarrow> 0 | Some n \<Rightarrow> n)"

definition counter_inc :: "counter_map \<Rightarrow> string \<Rightarrow> counter_map" where
  "counter_inc m k = AList.update k (counter_get m k + 1) m"

definition counter_release :: "counter_map \<Rightarrow> string \<Rightarrow> counter_map" where
  "counter_release m k =
     (if counter_get m k \<le> 1 then AList.delete k m else AList.update k (counter_get m k - 1) m)"

text \<open>No entry is left behind at zero.\<close>

definition counter_ok :: "counter_map \<Rightarrow> bool" where
  "counter_ok m \<longleftrightarrow> distinct (map fst m) \<and> list_all (\<lambda>(k, n). 0 < n) m"

lemma update_entries:
  assumes "distinct (map fst m)" "(j, n) \<in> set (AList.update k v m)"
  shows "(j, n) \<in> set m \<or> n = v"
proof -
  have "map_of (AList.update k v m) j = Some n" using assms by (simp add: distinct_update)
  then show ?thesis by (auto simp: update_conv' split: if_splits dest: map_of_SomeD)
qed

lemma counter_ok_update: "counter_ok m \<Longrightarrow> 0 < v \<Longrightarrow> counter_ok (AList.update k v m)"
  unfolding counter_ok_def list_all_iff using update_entries distinct_update by fast

lemma counter_ok_delete: "counter_ok m \<Longrightarrow> counter_ok (AList.delete k m)"
  using distinct_delete [of m k] by (auto simp: counter_ok_def list_all_iff AList.delete_eq)

interpretation work_counters: counters counter_ok counter_get counter_inc counter_release
proof
  fix m k j
  show "counter_get (counter_inc m k) j = counter_get m j + (if j = k then 1 else 0)"
    by (simp add: counter_get_def counter_inc_def update_conv')
  show "counter_ok m \<Longrightarrow> counter_get (counter_release m k) j = counter_get m j - (if j = k then 1 else 0)"
    by (auto simp: counter_get_def counter_release_def update_conv' delete_conv' split: option.split)
  show "counter_ok m \<Longrightarrow> counter_ok (counter_inc m k)"
    by (simp add: counter_inc_def counter_ok_update)
  show "counter_ok m \<Longrightarrow> counter_ok (counter_release m k)"
    by (simp add: counter_release_def counter_ok_update counter_ok_delete)
qed

section \<open>Reservations\<close>

record password_work =
  running :: nat
  by_source :: counter_map
  by_subject :: counter_map

definition new_password_work :: password_work where
  "new_password_work = \<lparr>running = 0, by_source = [], by_subject = []\<rparr>"

definition max_work :: nat where "max_work = 4"
definition max_work_per_source :: nat where "max_work_per_source = 2"
definition max_work_per_subject :: nat where "max_work_per_subject = 1"

text \<open>The two halves of \<open>Do\<close> around the work; \<open>None\<close> is \<open>ErrPasswordWorkBusy\<close>.\<close>

definition begin_work :: "string \<Rightarrow> string \<Rightarrow> password_work \<Rightarrow> password_work option" where
  "begin_work source subject p =
     (if running p \<ge> max_work \<or> counter_get (by_source p) source \<ge> max_work_per_source \<or>
         counter_get (by_subject p) subject \<ge> max_work_per_subject
      then None
      else Some (p\<lparr>running := running p + 1, by_source := counter_inc (by_source p) source,
                   by_subject := counter_inc (by_subject p) subject\<rparr>))"

definition end_work :: "string \<Rightarrow> string \<Rightarrow> password_work \<Rightarrow> password_work" where
  "end_work source subject p =
     p\<lparr>running := running p - 1, by_source := counter_release (by_source p) source,
       by_subject := counter_release (by_subject p) subject\<rparr>"

text \<open>Callers begin work and end what they began, in any interleaving.\<close>

inductive work_reachable :: "password_work \<Rightarrow> (string \<times> string) multiset \<Rightarrow> bool" where
  start: "work_reachable new_password_work {#}"
| reserve: "work_reachable p held \<Longrightarrow> begin_work source subject p = Some p' \<Longrightarrow>
     work_reachable p' (held + {#(source, subject)#})"
| finish: "work_reachable p held \<Longrightarrow> (source, subject) \<in># held \<Longrightarrow>
     work_reachable (end_work source subject p) (held - {#(source, subject)#})"

inductive_cases work_reachableE: "work_reachable p held"

definition work_inv :: "password_work \<Rightarrow> (string \<times> string) multiset \<Rightarrow> bool" where
  "work_inv p held \<longleftrightarrow>
     running p = size held \<and> work_counters.counts (by_source p) (image_mset fst held) \<and>
     work_counters.counts (by_subject p) (image_mset snd held) \<and> size held \<le> max_work \<and>
     (\<forall>k. count (image_mset fst held) k \<le> max_work_per_source) \<and>
     (\<forall>k. count (image_mset snd held) k \<le> max_work_per_subject)"

lemma work_inv: "work_reachable p held \<Longrightarrow> work_inv p held"
proof (induction rule: work_reachable.induct)
  case start
  show ?case
    by (simp add: work_inv_def work_counters.counts_def new_password_work_def counter_ok_def counter_get_def)
next
  case (reserve p held source subject p')
  then show ?case
    using work_counters.counts_inc [of "by_source p" "image_mset fst held" source]
      work_counters.counts_inc [of "by_subject p" "image_mset snd held" subject]
    by (auto simp: work_inv_def begin_work_def work_counters.counts_def split: if_splits)
next
  case (finish p held source subject)
  then obtain rest where h: "held = rest + {#(source, subject)#}" by (metis insert_DiffM2)
  have "count (image_mset fst rest) k \<le> max_work_per_source" "count (image_mset snd rest) k \<le> max_work_per_subject" for k
  proof -
    have "count (image_mset fst rest) k \<le> count (image_mset fst held) k"
      "count (image_mset snd rest) k \<le> count (image_mset snd held) k" by (simp_all add: h)
    moreover have "count (image_mset fst held) k \<le> max_work_per_source" "count (image_mset snd held) k \<le> max_work_per_subject"
      using finish.IH by (simp_all only: work_inv_def)
    ultimately show "count (image_mset fst rest) k \<le> max_work_per_source" "count (image_mset snd rest) k \<le> max_work_per_subject"
      by linarith+
  qed
  then show ?case
    using finish.IH work_counters.counts_dec [of "by_source p" "image_mset fst held" source]
      work_counters.counts_dec [of "by_subject p" "image_mset snd held" subject]
    unfolding work_inv_def h end_work_def by auto
qed

text \<open>
  C29. However requests interleave, at most four hashes run at once, at most two for a source and
  one for a subject; the counters say exactly what is running, so that when all work has ended
  the maps are empty again and the next request is admitted.
\<close>

theorem password_work_bounded:
  assumes "work_reachable p held"
  shows "size held \<le> 4 \<and> count (image_mset fst held) source \<le> 2 \<and> count (image_mset snd held) subject \<le> 1 \<and>
    (held = {#} \<longrightarrow> p = new_password_work)"
proof -
  have inv: "work_inv p held" by (rule work_inv [OF assms])
  have "m = []" if "work_counters.counts m {#}" for m
  proof (cases m)
    case (Cons e rest)
    obtain k n where "e = (k, n)" by (cases e)
    then have "0 < n" "counter_get m k = n"
      using that Cons by (simp_all add: work_counters.counts_def counter_ok_def counter_get_def)
    moreover have "counter_get m k = 0" using that by (simp add: work_counters.counts_def)
    ultimately show ?thesis by simp
  qed
  then have "held = {#} \<Longrightarrow> p = new_password_work"
    using inv by (simp add: work_inv_def new_password_work_def)
  then show ?thesis
    using inv by (simp add: work_inv_def max_work_def max_work_per_source_def max_work_per_subject_def)
qed

lemma password_work_bounded_witness:
  "\<exists>p. work_reachable p {#(''ip'', ''admin'')#} \<and> count (image_mset fst {#(''ip'', ''admin'')#}) ''ip'' \<le> 2"
proof -
  obtain p where "begin_work ''ip'' ''admin'' new_password_work = Some p"
    by (simp add: begin_work_def new_password_work_def counter_get_def max_work_def max_work_per_source_def
        max_work_per_subject_def)
  then have "work_reachable p {#(''ip'', ''admin'')#}"
    using work_reachable.intros(2) [OF work_reachable.start] by force
  then show ?thesis using password_work_bounded by blast
qed

end
