(* ===== verification/Identity.thy ===== *)
theory Identity
  imports Accounts GoPath Utf8 "HOL-Library.Product_Lexorder"
begin

text \<open>
  Logical servers and their bindings to containers: \<open>src/internal/identity/identity.go\<close>. The
  keyed hash of a binding's material is a parameter, and new UUIDs are a function of the
  identity they are drawn for.
\<close>

section \<open>Observations\<close>

record compose_identity =
  co_project :: string
  co_service :: string
  co_number :: string

record mount =
  m_type :: string
  m_source :: string
  m_destination :: string
  m_writable :: bool
  m_name :: string

text \<open>\<open>o_config\<close> is a map as an association list with distinct keys.\<close>

record observation =
  o_container :: string
  o_name :: string
  o_display :: string
  o_game :: string
  o_compose :: "compose_identity option"
  o_mounts :: "mount list"
  o_config :: "(string \<times> string) list"

section \<open>Valid identifiers\<close>

definition is_hex :: "char \<Rightarrow> bool" where
  "is_hex c \<longleftrightarrow> is_digit c \<or> 97 \<le> byte c \<and> byte c \<le> 102 \<or> 65 \<le> byte c \<and> byte c \<le> 70"

definition valid_id :: "string \<Rightarrow> bool" where
  "valid_id v \<longleftrightarrow>
     length v = 36 \<and>
     list_all (\<lambda>i. if i = 8 \<or> i = 13 \<or> i = 18 \<or> i = 23 then v ! i = CHR ''-'' else is_hex (v ! i)) [0..<36]"

text \<open>\<open>NewUUID\<close> from its sixteen random bytes: version 4, variant 1, in lower-case hexadecimal.\<close>

definition hex_low :: "nat \<Rightarrow> char" where
  "hex_low n = (if n < 10 then char_of (48 + n) else char_of (87 + n))"

definition hex_encode :: "string \<Rightarrow> string" where
  "hex_encode b = concat (map (\<lambda>c. [hex_low (byte c div 16), hex_low (byte c mod 16)]) b)"

definition new_uuid :: "string \<Rightarrow> string" where
  "new_uuid b =
     (let b = b[6 := char_of (byte (b ! 6) mod 16 + 64)];
          b = b[8 := char_of (byte (b ! 8) mod 64 + 128)];
          h = hex_encode b
      in take 8 h @ ''-'' @ take 4 (drop 8 h) @ ''-'' @ take 4 (drop 12 h) @ ''-'' @ take 4 (drop 16 h) @ ''-'' @ drop 20 h)"

definition alphanumeric :: "char \<Rightarrow> bool" where
  "alphanumeric c \<longleftrightarrow> is_digit c \<or> 97 \<le> byte c \<and> byte c \<le> 122 \<or> 65 \<le> byte c \<and> byte c \<le> 90"

definition valid_container_id :: "string \<Rightarrow> bool" where
  "valid_container_id v \<longleftrightarrow>
     0 < length v \<and> length v \<le> 128 \<and> alphanumeric (hd v) \<and>
     list_all (\<lambda>c. alphanumeric c \<or> c = CHR ''_'' \<or> c = CHR ''.'' \<or> c = CHR ''-'') (tl v)"

definition valid_identity_part :: "string \<Rightarrow> bool" where
  "valid_identity_part v \<longleftrightarrow>
     v \<noteq> [] \<and> utf16_length v \<le> 512 \<and> list_all (\<lambda>c. \<not> (byte c < 32 \<or> byte c = 127)) v"

definition replica_pattern :: "string \<Rightarrow> bool" where
  "replica_pattern v \<longleftrightarrow> v \<noteq> [] \<and> is_digit (hd v) \<and> hd v \<noteq> CHR ''0'' \<and> list_all is_digit (tl v)"

text \<open>\<open>url.QueryEscape\<close>.\<close>

definition hex_digit :: "nat \<Rightarrow> char" where
  "hex_digit n = (if n < 10 then char_of (48 + n) else char_of (55 + n))"

definition escape_char :: "char \<Rightarrow> string" where
  "escape_char c =
     (if alphanumeric c \<or> c \<in> {CHR ''-'', CHR ''_'', CHR ''.'', CHR ''~''} then [c]
      else if c = CHR '' '' then ''+''
      else [CHR ''%'', hex_digit (byte c div 16), hex_digit (byte c mod 16)])"

definition query_escape :: "string \<Rightarrow> string" where
  "query_escape s = concat (map escape_char s)"

definition external_identity :: "observation \<Rightarrow> db_error + string" where
  "external_identity ob =
     (if \<not> valid_identity_part (o_container ob) \<or> \<not> valid_identity_part (o_name ob)
      then Inl (PublicError ''INVALID_SERVER_OBSERVATION'' 409)
      else
        (case o_compose ob of
           Some c \<Rightarrow>
             if \<not> valid_identity_part (co_project c) \<or> \<not> valid_identity_part (co_service c) \<or> \<not> replica_pattern (co_number c)
             then Inl (PublicError ''INVALID_SERVER_OBSERVATION'' 409)
             else Inr (''compose:'' @ query_escape (co_project c) @ '':'' @ query_escape (co_service c) @ '':'' @ co_number c)
         | None \<Rightarrow> Inr (''standalone:'' @ query_escape (trim_prefix (o_name ob) ''/''))))"

section \<open>The material of a binding\<close>

type_synonym material = "string \<times> (string \<times> string \<times> string) list \<times> (string \<times> string) list"

definition binding_material :: "observation \<Rightarrow> material" where
  "binding_material ob =
     (o_game ob,
      sort (map (\<lambda>m. (m_type m,
          if m_type m = ''volume'' \<and> m_name m \<noteq> [] then m_name m else path_clean (m_source m),
          path_clean (m_destination m)))
        (filter m_writable (o_mounts ob))),
      sort (o_config ob))"

section \<open>Reading servers\<close>

record server =
  sv_id :: string
  sv_host :: string
  sv_external :: string
  sv_container :: string
  sv_name :: string
  sv_game :: string
  sv_status :: string
  sv_revision :: int
  sv_fingerprint :: string
  sv_pending :: string
  sv_pending_game :: string
  sv_review :: bool
  sv_first :: int
  sv_seen :: int

definition null_string :: "string option \<Rightarrow> string" where
  "null_string v = (case v of None \<Rightarrow> [] | Some s \<Rightarrow> s)"

definition server_of :: "server_row \<Rightarrow> server" where
  "server_of r = \<lparr>sv_id = v_id r, sv_host = v_host r, sv_external = v_external r, sv_container = null_string (v_container r),
     sv_name = v_name r, sv_game = v_game r, sv_status = v_status r, sv_revision = v_revision r,
     sv_fingerprint = v_fingerprint r, sv_pending = null_string (v_pending r),
     sv_pending_game = null_string (v_pending_game r), sv_review = (v_review r = 1), sv_first = v_first r, sv_seen = v_seen r\<rparr>"

definition scan_server :: "server_row \<Rightarrow> db_error + server" where
  "scan_server r =
     (if \<not> valid_id (v_id r) \<or> (case v_container r of None \<Rightarrow> False | Some c \<Rightarrow> \<not> valid_container_id c)
      then Inl (PublicError ''INVALID_STORED_IDENTITY'' 500) else Inr (server_of r))"

fun scan_all :: "server_row list \<Rightarrow> db_error + server list" where
  "scan_all [] = Inr []"
| "scan_all (r # rs) = res_bind (scan_server r) (\<lambda>s. res_bind (scan_all rs) (\<lambda>ss. Inr (s # ss)))"

definition from_res :: "db_error + 'a \<Rightarrow> 'a db_op" where
  "from_res r = (case r of Inl e \<Rightarrow> fail_with e | Inr x \<Rightarrow> done_with x)"

text \<open>ORDER BY display_name COLLATE NOCASE, id; an empty host lists all.\<close>

definition list_servers :: "string \<Rightarrow> server list db_op" where
  "list_servers host =
     and_then (reads (\<lambda>d. sort_key (\<lambda>r. (to_lower (v_name r), v_id r))
         (filter (\<lambda>r. host = [] \<or> v_host r = host) (servers d)))) (\<lambda>rs. from_res (scan_all rs))"

definition get_server :: "string \<Rightarrow> server option db_op" where
  "get_server i =
     and_then (reads (\<lambda>d. find (\<lambda>r. v_id r = i) (servers d))) (\<lambda>row.
       (case row of None \<Rightarrow> done_with None | Some r \<Rightarrow> and_then (from_res (scan_server r)) (\<lambda>s. done_with (Some s))))"

text \<open>\<open>DockerHostID\<close>: INSERT ... ON CONFLICT(name) DO NOTHING, then read it back.\<close>

definition docker_host_id :: "string \<Rightarrow> string \<Rightarrow> string db_op" where
  "docker_host_id uuid name =
     and_then (reads (\<lambda>d. find (\<lambda>h. snd h = name) (hosts d))) (\<lambda>found.
       (case found of
          Some (i, _) \<Rightarrow> done_with i
        | None \<Rightarrow>
            and_then (reads (\<lambda>d. \<exists>h \<in> set (hosts d). fst h = uuid)) (\<lambda>taken.
            and_then (check_that (\<not> taken) UniqueViolation) (\<lambda>_.
            and_then (writes (\<lambda>d. d\<lparr>hosts := hosts d @ [(uuid, name)]\<rparr>)) (\<lambda>_. done_with uuid)))))"

section \<open>Bindings in use\<close>

definition resolve_binding :: "string \<Rightarrow> int \<Rightarrow> server db_op" where
  "resolve_binding i expected =
     and_then (get_server i) (\<lambda>found.
       (case found of
          None \<Rightarrow> fail_with (PublicError ''SERVER_NOT_FOUND'' 404)
        | Some s \<Rightarrow>
            if sv_status s \<noteq> ''active'' \<or> sv_review s \<or> sv_container s = []
            then fail_with (PublicError ''SERVER_BINDING_UNAVAILABLE'' 409)
            else if expected \<ge> 0 \<and> sv_revision s \<noteq> expected
            then fail_with (PublicError ''SERVER_BINDING_CHANGED'' 409)
            else done_with s))"

definition assert_observed_binding :: "(material \<Rightarrow> string) \<Rightarrow> string \<Rightarrow> observation \<Rightarrow> int \<Rightarrow> server db_op" where
  "assert_observed_binding fp i ob expected =
     and_then (resolve_binding i expected) (\<lambda>s.
     and_then (from_res (external_identity ob)) (\<lambda>external.
       if sv_container s \<noteq> o_container ob \<or> sv_external s \<noteq> external \<or> sv_fingerprint s \<noteq> fp (binding_material ob)
       then fail_with (PublicError ''SERVER_BINDING_CHANGED'' 409) else done_with s))"

section \<open>Statements\<close>

definition insert_server :: "server_row \<Rightarrow> unit db_op" where
  "insert_server r d =
     (if \<exists>x \<in> set (servers d). v_id x = v_id r \<or> v_host x = v_host r \<and> v_external x = v_external r
      then (d, Inl UniqueViolation)
      else if \<not> (\<exists>h \<in> set (hosts d). fst h = v_host r) then (d, Inl ConstraintViolation)
      else (d\<lparr>servers := servers d @ [r]\<rparr>, Inr ()))"

definition update_server :: "string \<Rightarrow> (server_row \<Rightarrow> server_row) \<Rightarrow> unit db_op" where
  "update_server i f = writes (\<lambda>d. d\<lparr>servers := map (\<lambda>r. if v_id r = i then f r else r) (servers d)\<rparr>)"

definition record_binding :: "string \<Rightarrow> int \<Rightarrow> string \<Rightarrow> string \<Rightarrow> int \<Rightarrow> bool \<Rightarrow> unit db_op" where
  "record_binding i revision container fingerprint now accepted = writes (\<lambda>d. d\<lparr>
     bindings := bindings d @ [\<lparr>b_id = binding_seq d + 1, b_server = i, b_revision = revision, b_container = container,
       b_fingerprint = fingerprint, b_observed = now, b_accepted = bool_int accepted\<rparr>],
     binding_seq := binding_seq d + 1\<rparr>)"

fun each :: "('a \<Rightarrow> unit db_op) \<Rightarrow> 'a list \<Rightarrow> unit db_op" where
  "each f [] = done_with ()"
| "each f (x # xs) = and_then (f x) (\<lambda>_. each f xs)"

section \<open>Applying a snapshot\<close>

text \<open>The observations by external identity, in the order of first appearance.\<close>

fun add_group :: "string \<Rightarrow> observation \<Rightarrow> (string \<times> observation list) list \<Rightarrow> (string \<times> observation list) list" where
  "add_group key ob [] = [(key, [ob])]"
| "add_group key ob ((k, g) # gs) = (if k = key then (k, g @ [ob]) # gs else (k, g) # add_group key ob gs)"

fun group_all ::
    "string list \<Rightarrow> (string \<times> observation list) list \<Rightarrow> observation list \<Rightarrow> db_error + (string \<times> observation list) list" where
  "group_all seen groups [] = Inr groups"
| "group_all seen groups (ob # obs) =
     res_bind (external_identity ob) (\<lambda>key.
       if o_container ob \<in> set seen then Inl (PublicError ''INVALID_SERVER_SNAPSHOT'' 409)
       else group_all (o_container ob # seen) (add_group key ob groups) obs)"

definition last_seen_interval :: int where
  "last_seen_interval = 60000"

text \<open>A server that is not known yet.\<close>

definition insert_observed ::
    "(material \<Rightarrow> string) \<Rightarrow> (string \<Rightarrow> string) \<Rightarrow> int \<Rightarrow> string \<Rightarrow> string \<Rightarrow> observation \<Rightarrow> bool \<Rightarrow> unit db_op" where
  "insert_observed fp uuid now host external ob ambiguous =
     (let i = uuid external; f = fp (binding_material ob)
      in and_then (insert_server
           \<lparr>v_id = i, v_host = host, v_external = external,
            v_container = (if ambiguous then None else Some (o_container ob)), v_name = o_display ob,
            v_game = (if ambiguous then ''unknown'' else o_game ob),
            v_status = (if ambiguous then ''ambiguous'' else ''active''),
            v_revision = (if ambiguous then 0 else 1), v_fingerprint = (if ambiguous then [] else f),
            v_pending = None, v_pending_game = None, v_review = 0, v_first = now, v_seen = now\<rparr>) (\<lambda>_.
         if ambiguous then done_with () else record_binding i 1 (o_container ob) f now True))"

text \<open>A known server, observed once.\<close>

definition update_observed :: "(material \<Rightarrow> string) \<Rightarrow> int \<Rightarrow> server \<Rightarrow> observation \<Rightarrow> unit db_op" where
  "update_observed fp now s ob =
     (let f = fp (binding_material ob);
          seen_recently = now - sv_seen s < last_seen_interval;
          is_material = sv_fingerprint s \<noteq> [] \<and> f \<noteq> sv_fingerprint s;
          review = sv_review s \<or> is_material;
          changed = sv_container s \<noteq> o_container ob \<or>
            (if review then sv_pending s \<noteq> f else sv_fingerprint s \<noteq> f);
          unchanged = \<not> changed \<and> seen_recently \<and> sv_name s = o_display ob \<and>
            (if review then sv_status s = ''review_required'' \<and> sv_review s \<and> sv_pending_game s = o_game ob
             else sv_status s = ''active'' \<and> sv_game s = o_game ob);
          revision = (if changed then sv_revision s + 1 else sv_revision s)
      in if unchanged then done_with ()
         else and_then (update_server (sv_id s) (\<lambda>r.
             if review then r\<lparr>v_container := Some (o_container ob), v_name := o_display ob, v_status := ''review_required'',
                v_revision := revision, v_pending := Some f, v_pending_game := Some (o_game ob), v_review := 1, v_seen := now\<rparr>
             else r\<lparr>v_container := Some (o_container ob), v_name := o_display ob, v_game := o_game ob,
                v_status := ''active'', v_revision := revision, v_fingerprint := f, v_seen := now\<rparr>)) (\<lambda>_.
           if changed then record_binding (sv_id s) revision (o_container ob) f now (\<not> review) else done_with ()))"

definition apply_group ::
    "(material \<Rightarrow> string) \<Rightarrow> (string \<Rightarrow> string) \<Rightarrow> int \<Rightarrow> string \<Rightarrow> server list \<Rightarrow> string \<times> observation list \<Rightarrow> unit db_op" where
  "apply_group fp uuid now host existing g =
     (case g of (external, obs) \<Rightarrow>
        (let ob = hd obs; ambiguous = (length obs \<noteq> 1)
         in case find (\<lambda>s. sv_external s = external) existing of
              None \<Rightarrow> insert_observed fp uuid now host external ob ambiguous
            | Some s \<Rightarrow>
                if ambiguous then
                  (if sv_status s = ''ambiguous'' \<and> sv_container s = [] \<and> now - sv_seen s < last_seen_interval
                   then done_with ()
                   else update_server (sv_id s) (\<lambda>r. r\<lparr>v_status := ''ambiguous'', v_container := None, v_seen := now\<rparr>))
                else update_observed fp now s ob))"

definition mark_missing :: "(string \<times> observation list) list \<Rightarrow> server \<Rightarrow> unit db_op" where
  "mark_missing groups s =
     (if sv_external s \<in> fst ` set groups \<or> sv_status s = ''missing'' \<and> sv_container s = [] then done_with ()
      else update_server (sv_id s) (\<lambda>r. r\<lparr>v_status := ''missing'', v_container := None\<rparr>))"

definition apply_snapshot ::
    "(material \<Rightarrow> string) \<Rightarrow> (string \<Rightarrow> string) \<Rightarrow> int \<Rightarrow> string \<Rightarrow> observation list \<Rightarrow> unit db_op" where
  "apply_snapshot fp uuid now host obs =
     and_then (from_res (group_all [] [] obs)) (\<lambda>groups. tx (
     and_then (list_servers host) (\<lambda>existing.
     and_then (each (apply_group fp uuid now host existing) groups) (\<lambda>_.
     each (mark_missing groups) existing))))"

text \<open>\<open>Store.Apply\<close> and \<open>Store.Reconcile\<close>: no host is the local one, and no time is now.\<close>

definition host_or_local :: "string \<Rightarrow> string \<Rightarrow> string db_op" where
  "host_or_local host_uuid host = (if host = [] then docker_host_id host_uuid ''local'' else done_with host)"

definition store_apply ::
    "(material \<Rightarrow> string) \<Rightarrow> (string \<Rightarrow> string) \<Rightarrow> string \<Rightarrow> int \<Rightarrow> int \<Rightarrow> string \<Rightarrow> observation list \<Rightarrow> unit db_op" where
  "store_apply fp uuid host_uuid clock now host obs =
     and_then (host_or_local host_uuid host) (\<lambda>h.
       apply_snapshot fp uuid (if now \<le> 0 then clock else now) h obs)"

definition reconcile ::
    "(material \<Rightarrow> string) \<Rightarrow> (string \<Rightarrow> string) \<Rightarrow> string \<Rightarrow> int \<Rightarrow> int \<Rightarrow> string \<Rightarrow> observation list \<Rightarrow> server list db_op" where
  "reconcile fp uuid host_uuid clock now host obs =
     and_then (host_or_local host_uuid host) (\<lambda>h.
     and_then (store_apply fp uuid host_uuid clock now h obs) (\<lambda>_. list_servers h))"

definition review_binding :: "int \<Rightarrow> string \<Rightarrow> string \<Rightarrow> string \<Rightarrow> string \<Rightarrow> int \<Rightarrow> server option db_op" where
  "review_binding now admin token i expected revision =
     and_then (admin_mutation admin token now
       (and_then (get_server i) (\<lambda>found.
         (case found of
            None \<Rightarrow> fail_with (PublicError ''SERVER_NOT_FOUND'' 404)
          | Some s \<Rightarrow>
              if sv_status s \<noteq> ''review_required'' \<or> sv_container s = [] \<or> sv_pending s = [] \<or> sv_pending s \<noteq> expected \<or>
                 revision \<ge> 0 \<and> sv_revision s \<noteq> revision
              then fail_with (PublicError ''SERVER_REVIEW_CHANGED'' 409)
              else
                and_then (update_server i (\<lambda>r. r\<lparr>v_status := ''active'', v_revision := v_revision r + 1,
                    v_fingerprint := null_string (v_pending r), v_game := null_string (v_pending_game r),
                    v_pending := None, v_pending_game := None, v_review := 0\<rparr>)) (\<lambda>_.
                record_binding i (sv_revision s + 1) (sv_container s) expected now True))))) (\<lambda>_.
     get_server i)"

end
