(* ===== verification/Bindings.thy ===== *)
theory Bindings
  imports Identity
begin

text \<open>
  What reconciling a fleet does to each server: a snapshot moves every row of its host by a
  function of the row alone, so the facts about a binding are facts about one row.
\<close>

section \<open>Single statements\<close>

definition fleet_ok :: "database \<Rightarrow> bool" where
  "fleet_ok d \<longleftrightarrow>
     distinct (map v_id (servers d)) \<and> distinct (map (\<lambda>r. (v_host r, v_external r)) (servers d))"

lemma insert_server_Inr:
  "insert_server r d = (d', Inr u) \<longleftrightarrow>
     (\<exists>h \<in> set (hosts d). fst h = v_host r) \<and>
     (\<forall>x \<in> set (servers d). v_id x \<noteq> v_id r \<and> (v_host x, v_external x) \<noteq> (v_host r, v_external r)) \<and>
     d' = d\<lparr>servers := servers d @ [r]\<rparr>"
  by (auto simp: insert_server_def)

lemma record_binding_servers: "record_binding i n c f now a d = (d', r) \<Longrightarrow> servers d' = servers d \<and> r = Inr ()"
  by (auto simp: record_binding_def)

lemma update_server_servers:
  "update_server i f d = (d', r) \<Longrightarrow> servers d' = map (\<lambda>r. if v_id r = i then f r else r) (servers d) \<and> r = Inr ()"
  by (auto simp: update_server_def)

lemma from_res_Inr [simp]: "from_res r d = (d', Inr x) \<longleftrightarrow> d' = d \<and> r = Inr x"
  by (auto simp: from_res_def split: sum.splits)

lemma scan_all_Inr:
  "scan_all rs = Inr ss \<Longrightarrow> ss = map server_of rs \<and> (\<forall>r \<in> set rs. v_container r \<noteq> Some [])"
  by (induction rs arbitrary: ss)
    (auto simp: res_bind_Inr scan_server_def valid_container_id_def split: if_splits option.splits)

lemma list_servers_Inr:
  assumes "list_servers host d = (d', Inr ss)"
  shows "d' = d" "set ss = server_of ` {r \<in> set (servers d). host = [] \<or> v_host r = host}"
    "r \<in> set (servers d) \<Longrightarrow> host = [] \<or> v_host r = host \<Longrightarrow> v_container r \<noteq> Some []"
  using assms by (auto simp: list_servers_def and_then_Inr dest: scan_all_Inr)

section \<open>Rows\<close>

text \<open>A row and the rows it may become: the revision never falls, and while it stands the
  binding is the same or gone.\<close>

definition binding_le :: "server_row \<Rightarrow> server_row \<Rightarrow> bool" where
  "binding_le r r' \<longleftrightarrow>
     v_id r' = v_id r \<and> v_host r' = v_host r \<and> v_external r' = v_external r \<and> v_revision r \<le> v_revision r' \<and>
     (v_revision r' = v_revision r \<longrightarrow>
        v_fingerprint r' = v_fingerprint r \<and> (v_container r' = v_container r \<or> v_container r' = None))"

lemma binding_le_refl [simp]: "binding_le r r"
  by (simp add: binding_le_def)

lemma binding_le_trans: "binding_le a b \<Longrightarrow> binding_le b c \<Longrightarrow> binding_le a c"
  unfolding binding_le_def by (smt (verit) order_antisym order_trans)

text \<open>The accepted fingerprint of a row stays once there is one.\<close>

definition keeps_accepted :: "server_row \<Rightarrow> server_row \<Rightarrow> bool" where
  "keeps_accepted r r' \<longleftrightarrow> (v_fingerprint r \<noteq> [] \<longrightarrow> v_fingerprint r' = v_fingerprint r)"

lemma keeps_accepted_refl [simp]: "keeps_accepted r r"
  by (simp add: keeps_accepted_def)

text \<open>What a snapshot says of a server, by the observations of its external identity.\<close>

definition settled :: "(material \<Rightarrow> string) \<Rightarrow> observation list \<Rightarrow> server_row \<Rightarrow> bool" where
  "settled fp obs r =
     (case obs of
        [] \<Rightarrow> v_status r = ''missing'' \<and> v_container r = None
      | [ob] \<Rightarrow> v_container r = Some (o_container ob) \<and> v_name r = o_display ob \<and>
          (if v_review r = 1
           then v_status r = ''review_required'' \<and> null_string (v_pending r) = fp (binding_material ob) \<and>
             null_string (v_pending_game r) = o_game ob
           else v_status r = ''active'' \<and> v_fingerprint r = fp (binding_material ob) \<and> v_game r = o_game ob)
      | _ \<Rightarrow> v_status r = ''ambiguous'' \<and> v_container r = None)"

definition advances :: "(material \<Rightarrow> string) \<Rightarrow> observation list \<Rightarrow> server_row \<Rightarrow> server_row \<Rightarrow> bool" where
  "advances fp obs r r' \<longleftrightarrow> binding_le r r' \<and> keeps_accepted r r' \<and> settled fp obs r'"

lemma null_string_simps [simp]: "null_string None = []" "null_string (Some x) = x"
  by (simp_all add: null_string_def)

lemma null_string_Nil: "null_string v = [] \<longleftrightarrow> v = None \<or> v = Some []"
  by (cases v) auto

lemma server_of_sel [simp]:
  "sv_id (server_of r) = v_id r" "sv_external (server_of r) = v_external r" "sv_status (server_of r) = v_status r"
  "sv_container (server_of r) = null_string (v_container r)" "sv_revision (server_of r) = v_revision r"
  "sv_fingerprint (server_of r) = v_fingerprint r" "sv_pending (server_of r) = null_string (v_pending r)"
  "sv_pending_game (server_of r) = null_string (v_pending_game r)" "sv_review (server_of r) = (v_review r = 1)"
  "sv_name (server_of r) = v_name r" "sv_game (server_of r) = v_game r" "sv_host (server_of r) = v_host r"
  by (simp_all add: server_of_def)

text \<open>Every step below changes the rows of one id by a function that advances the row it was read from.\<close>

definition steps_row :: "(server_row \<Rightarrow> server_row \<Rightarrow> bool) \<Rightarrow> server_row \<Rightarrow> database \<Rightarrow> database \<Rightarrow> bool" where
  "steps_row R x d d' \<longleftrightarrow>
     (\<exists>f. servers d' = map (\<lambda>r. if v_id r = v_id x then f r else r) (servers d) \<and> R x (f x))"

lemma steps_row_same: "R x x \<Longrightarrow> servers d' = servers d \<Longrightarrow> steps_row R x d d'"
  unfolding steps_row_def by (rule exI [of _ "\<lambda>r. r"]) simp

lemma steps_row_update:
  "update_server (v_id x) f d = (d', r) \<Longrightarrow> R x (f x) \<Longrightarrow> steps_row R x d d'"
  unfolding steps_row_def by (auto dest: update_server_servers)

lemma update_observed_steps:
  assumes "update_observed fp now (server_of x) ob d = (d', r)" "o_container ob \<noteq> []"
  shows "r = Inr () \<and> steps_row (advances fp [ob]) x d d'"
proof -
  let ?f = "fp (binding_material ob)"
  define review where "review = (v_review x = 1 \<or> v_fingerprint x \<noteq> [] \<and> ?f \<noteq> v_fingerprint x)"
  define changed where "changed = (null_string (v_container x) \<noteq> o_container ob \<or>
    (if review then null_string (v_pending x) \<noteq> ?f else v_fingerprint x \<noteq> ?f))"
  define revision where "revision = (if changed then v_revision x + 1 else v_revision x)"
  define up where "up = (\<lambda>r :: server_row. if review then r\<lparr>v_container := Some (o_container ob), v_name := o_display ob,
      v_status := ''review_required'', v_revision := revision, v_pending := Some ?f, v_pending_game := Some (o_game ob),
      v_review := 1, v_seen := now\<rparr>
    else r\<lparr>v_container := Some (o_container ob), v_name := o_display ob, v_game := o_game ob, v_status := ''active'',
      v_revision := revision, v_fingerprint := ?f, v_seen := now\<rparr>)"
  define still where "still = (\<not> changed \<and> now - sv_seen (server_of x) < last_seen_interval \<and> v_name x = o_display ob \<and>
    (if review then v_status x = ''review_required'' \<and> v_review x = 1 \<and> null_string (v_pending_game x) = o_game ob
     else v_status x = ''active'' \<and> v_game x = o_game ob))"
  have e: "update_observed fp now (server_of x) ob = (if still then done_with ()
      else and_then (update_server (v_id x) up) (\<lambda>_.
        if changed then record_binding (v_id x) revision (o_container ob) ?f now (\<not> review) else done_with ()))"
    unfolding update_observed_def Let_def server_of_sel still_def up_def revision_def changed_def review_def by (rule refl)
  have container: "v_container x = Some (o_container ob)" if "null_string (v_container x) = o_container ob"
    using that assms(2) by (cases "v_container x") auto
  have up: "advances fp [ob] x (up x)"
    using container
    by (auto simp: advances_def binding_le_def keeps_accepted_def settled_def up_def revision_def changed_def review_def
        split: if_splits)
  show ?thesis
  proof (cases still)
    case True
    then have "advances fp [ob] x x"
      using container by (auto simp: still_def changed_def review_def advances_def settled_def split: if_splits)
    then show ?thesis
      using assms(1) True by (auto simp: e intro: steps_row_same)
  next
    case False
    then show ?thesis
      using assms(1) up
      by (auto simp: e and_then_def steps_row_def dest!: update_server_servers record_binding_servers
          split: prod.splits sum.splits if_splits)
  qed
qed

section \<open>Snapshots\<close>

text \<open>The observations of one external identity.\<close>

definition observed_as :: "observation list \<Rightarrow> string \<Rightarrow> observation list" where
  "observed_as obs k = filter (\<lambda>ob. external_identity ob = Inr k) obs"

text \<open>The rows of a host whose external identity is in a set advance, the others stay, and new rows settle.\<close>

definition moved ::
    "(material \<Rightarrow> string) \<Rightarrow> observation list \<Rightarrow> string \<Rightarrow> string set \<Rightarrow> database \<Rightarrow> database \<Rightarrow> bool" where
  "moved fp obs host K d d' \<longleftrightarrow>
     (\<exists>f new. servers d' = map f (servers d) @ new \<and>
        (\<forall>x \<in> set (servers d).
           if v_host x = host \<and> v_external x \<in> K then advances fp (observed_as obs (v_external x)) x (f x) else f x = x) \<and>
        (\<forall>y \<in> set new. v_host y = host \<and> v_external y \<in> K \<and> settled fp (observed_as obs (v_external y)) y))"

lemma advances_key:
  "advances fp g x y \<Longrightarrow> v_id y = v_id x \<and> v_host y = v_host x \<and> v_external y = v_external x"
  by (simp add: advances_def binding_le_def)

lemma moved_refl: "servers d' = servers d \<Longrightarrow> moved fp obs host {} d d'"
  unfolding moved_def by (rule exI [of _ "\<lambda>x. x"], rule exI [of _ "[]"]) simp

lemma moved_trans:
  assumes "moved fp obs host K d d1" "moved fp obs host L d1 d2" "K \<inter> L = {}"
  shows "moved fp obs host (K \<union> L) d d2"
proof -
  let ?A = "\<lambda>x. advances fp (observed_as obs (v_external x)) x"
  obtain f new where f: "servers d1 = map f (servers d) @ new"
    "\<And>x. x \<in> set (servers d) \<Longrightarrow> if v_host x = host \<and> v_external x \<in> K then ?A x (f x) else f x = x"
    "\<And>y. y \<in> set new \<Longrightarrow> v_host y = host \<and> v_external y \<in> K \<and> settled fp (observed_as obs (v_external y)) y"
    using assms(1) unfolding moved_def by auto
  obtain g more where g: "servers d2 = map g (servers d1) @ more"
    "\<And>x. x \<in> set (servers d1) \<Longrightarrow> if v_host x = host \<and> v_external x \<in> L then ?A x (g x) else g x = x"
    "\<And>y. y \<in> set more \<Longrightarrow> v_host y = host \<and> v_external y \<in> L \<and> settled fp (observed_as obs (v_external y)) y"
    using assms(2) unfolding moved_def by auto
  have one: "if v_host x = host \<and> v_external x \<in> K \<union> L then ?A x (g (f x)) else g (f x) = x" if "x \<in> set (servers d)" for x
  proof (cases "v_host x = host \<and> v_external x \<in> K")
    case True
    then have a: "?A x (f x)"
      using f(2) [OF that] by simp
    then have "v_external (f x) \<notin> L"
      using True assms(3) advances_key [OF a] by auto
    then show ?thesis
      using g(2) [of "f x"] that f(1) a True by simp
  next
    case False
    then have "f x = x"
      using f(2) [OF that] by simp
    then show ?thesis
      using g(2) [of x] that f(1) False by (metis Un_iff image_eqI list.set_map set_append)
  qed
  have two: "g y = y" if "y \<in> set new" for y
    using g(2) [of y] f(1) f(3) [OF that] that assms(3) by (auto split: if_splits)
  have "servers d2 = map (\<lambda>x. g (f x)) (servers d) @ (new @ more)"
    using g(1) f(1) two by (simp add: map_idI)
  moreover have "v_host y = host \<and> v_external y \<in> K \<union> L \<and> settled fp (observed_as obs (v_external y)) y"
    if "y \<in> set (new @ more)" for y
    using that f(3) [of y] g(3) [of y] by auto
  ultimately show ?thesis
    unfolding moved_def using one by blast
qed

lemma fleet_unique:
  "fleet_ok d \<Longrightarrow> x \<in> set (servers d) \<Longrightarrow> y \<in> set (servers d) \<Longrightarrow>
     v_id x = v_id y \<or> v_host x = v_host y \<and> v_external x = v_external y \<Longrightarrow> x = y"
  by (auto simp: fleet_ok_def distinct_map inj_on_def)

lemma moved_fleet_ok:
  assumes "moved fp obs host K d d'" "fleet_ok d" "length (servers d') = length (servers d)"
  shows "fleet_ok d'"
proof -
  obtain f where f: "servers d' = map f (servers d)"
    "\<forall>x \<in> set (servers d). v_id (f x) = v_id x \<and> v_host (f x) = v_host x \<and> v_external (f x) = v_external x"
    using assms(1,3) by (fastforce simp: moved_def dest: advances_key split: if_splits)
  then have "map v_id (servers d') = map v_id (servers d)"
    "map (\<lambda>r. (v_host r, v_external r)) (servers d') = map (\<lambda>r. (v_host r, v_external r)) (servers d)"
    by simp_all
  then show ?thesis
    using assms(2) by (simp only: fleet_ok_def)
qed

lemma steps_row_moved:
  assumes "steps_row (advances fp (observed_as obs (v_external x))) x d d'" "fleet_ok d" "x \<in> set (servers d)" "v_host x = host"
  shows "moved fp obs host {v_external x} d d'" "fleet_ok d'"
proof -
  obtain f where f: "servers d' = map (\<lambda>r. if v_id r = v_id x then f r else r) (servers d)"
    "advances fp (observed_as obs (v_external x)) x (f x)"
    using assms(1) unfolding steps_row_def by auto
  define g where "g = (\<lambda>r. if v_id r = v_id x then f r else r)"
  have "servers d' = map g (servers d) @ []"
    using f(1) by (simp add: g_def)
  moreover have "\<forall>r \<in> set (servers d). if v_host r = host \<and> v_external r \<in> {v_external x}
      then advances fp (observed_as obs (v_external r)) r (g r) else g r = r"
    using fleet_unique [OF assms(2) _ assms(3)] assms(4) f(2) by (auto simp: g_def)
  ultimately show m: "moved fp obs host {v_external x} d d'"
    unfolding moved_def by fastforce
  show "fleet_ok d'"
    using moved_fleet_ok [OF m assms(2)] f(1) by simp
qed

text \<open>The loop over the groups of a snapshot.\<close>

definition read_from :: "string \<Rightarrow> string set \<Rightarrow> server list \<Rightarrow> database \<Rightarrow> bool" where
  "read_from host K existing d \<longleftrightarrow>
     (\<forall>s \<in> set existing. sv_external s \<in> K \<longrightarrow>
        (\<exists>x \<in> set (servers d). server_of x = s \<and> v_host x = host \<and> v_container x \<noteq> Some []))"

lemma read_from_moved:
  assumes "read_from host L existing d" "moved fp obs host K d d'" "K \<inter> L = {}"
  shows "read_from host L existing d'"
  unfolding read_from_def
proof (intro ballI impI)
  fix s assume s: "s \<in> set existing" "sv_external s \<in> L"
  then obtain x where x: "x \<in> set (servers d)" "server_of x = s" "v_host x = host" "v_container x \<noteq> Some []"
    using assms(1) by (auto simp: read_from_def)
  then have "v_external x \<notin> K"
    using s(2) assms(3) by auto
  then have "x \<in> set (servers d')"
    using assms(2) x(1) unfolding moved_def by (metis Un_iff image_eqI list.set_map set_append)
  then show "\<exists>x \<in> set (servers d'). server_of x = s \<and> v_host x = host \<and> v_container x \<noteq> Some []"
    using x by blast
qed

lemma read_from_mono: "read_from host K existing d \<Longrightarrow> L \<subseteq> K \<Longrightarrow> read_from host L existing d"
  by (auto simp: read_from_def)

definition present :: "string \<Rightarrow> string set \<Rightarrow> database \<Rightarrow> bool" where
  "present host K d \<longleftrightarrow> (\<forall>k \<in> K. \<exists>r \<in> set (servers d). v_host r = host \<and> v_external r = k)"

lemma present_moved: "present host K d \<Longrightarrow> moved fp obs host L d d' \<Longrightarrow> present host K d'"
proof -
  assume p: "present host K d" and m: "moved fp obs host L d d'"
  obtain f new where f: "servers d' = map f (servers d) @ new"
    "\<forall>x \<in> set (servers d). if v_host x = host \<and> v_external x \<in> L then advances fp (observed_as obs (v_external x)) x (f x) else f x = x"
    using m unfolding moved_def by blast
  then have "v_host (f r) = v_host r \<and> v_external (f r) = v_external r" if "r \<in> set (servers d)" for r
    using that advances_key [of fp _ r "f r"] by (metis (full_types))
  then show "present host K d'"
    using p f(1) unfolding present_def by (metis UnI1 image_eqI list.set_map set_append)
qed

lemma insert_observed_moved:
  assumes "insert_observed fp uuid now host k ob (length g \<noteq> 1) d = (d', Inr ())" "fleet_ok d"
    "observed_as obs k = g" "hd g = ob" "g \<noteq> []"
  shows "moved fp obs host {k} d d' \<and> fleet_ok d' \<and> present host {k} d'"
proof -
  obtain r where r: "servers d' = servers d @ [r]" "v_host r = host" "v_external r = k"
    "\<forall>x \<in> set (servers d). v_id x \<noteq> v_id r \<and> (v_host x, v_external x) \<noteq> (v_host r, v_external r)"
    "settled fp g r"
  proof -
    obtain a as where g: "g = a # as"
      using assms(5) by (cases g) auto
    show thesis
      using assms(1,4) g
      by (intro that [of "last (servers d')"])
        (cases as; auto simp: insert_observed_def Let_def and_then_Inr insert_server_Inr settled_def
          dest!: record_binding_servers)+
  qed
  then have "moved fp obs host {k} d d'"
    unfolding moved_def using assms(3) by (intro exI [of _ "\<lambda>x. x"] exI [of _ "[r]"]) auto
  moreover have "fleet_ok d'" "present host {k} d'"
    using r assms(2) by (auto simp: fleet_ok_def present_def)
  ultimately show ?thesis by blast
qed

lemma ambiguous_advances:
  "1 < length g \<Longrightarrow> advances fp g x (x\<lparr>v_status := ''ambiguous'', v_container := None, v_seen := now\<rparr>)"
  by (cases g; cases "tl g") (auto simp: advances_def binding_le_def keeps_accepted_def settled_def)

lemma ambiguous_still:
  "1 < length g \<Longrightarrow> v_status x = ''ambiguous'' \<Longrightarrow> v_container x = None \<Longrightarrow> advances fp g x x"
  by (cases g; cases "tl g") (auto simp: advances_def settled_def)

lemma apply_group_moved:
  assumes "apply_group fp uuid now host existing (k, g) d = (d', Inr ())" "fleet_ok d" "read_from host {k} existing d"
    "observed_as obs k = g" "g \<noteq> []" "o_container (hd g) \<noteq> []"
  shows "moved fp obs host {k} d d' \<and> fleet_ok d' \<and> present host {k} d'"
proof (cases "find (\<lambda>s. sv_external s = k) existing")
  case None
  then show ?thesis
    using assms insert_observed_moved by (fastforce simp: apply_group_def Let_def)
next
  case (Some s)
  then have s: "s \<in> set existing" "sv_external s = k"
    by (auto simp: find_Some_iff)
  then obtain x where x: "x \<in> set (servers d)" "server_of x = s" "v_host x = host" "v_container x \<noteq> Some []"
    using assms(3) unfolding read_from_def by blast
  have k: "v_external x = k"
    using s(2) x(2) by auto
  have "steps_row (advances fp g) x d d'"
  proof (cases "length g = 1")
    case True
    then have "g = [hd g]"
      by (cases g) auto
    then show ?thesis
      using assms(1,6) True Some x(2) update_observed_steps [of fp now x "hd g" d d' "Inr ()"] by (simp add: apply_group_def)
  next
    case False
    then have l: "1 < length g"
      using assms(5) by (cases g; cases "tl g") auto
    have a: "(if sv_status s = ''ambiguous'' \<and> sv_container s = [] \<and> now - sv_seen s < last_seen_interval then done_with ()
        else update_server (sv_id s) (\<lambda>r. r\<lparr>v_status := ''ambiguous'', v_container := None, v_seen := now\<rparr>)) d = (d', Inr ())"
      using assms(1) False Some by (simp add: apply_group_def)
    show ?thesis
    proof (cases "sv_status s = ''ambiguous'' \<and> sv_container s = [] \<and> now - sv_seen s < last_seen_interval")
      case True
      then have "v_container x = None" "v_status x = ''ambiguous''"
        using x(2,4) by (auto simp: null_string_Nil)
      then show ?thesis
        using True a ambiguous_still [OF l] by (auto intro: steps_row_same)
    next
      case False
      then have "update_server (v_id x) (\<lambda>r. r\<lparr>v_status := ''ambiguous'', v_container := None, v_seen := now\<rparr>) d = (d', Inr ())"
        using a x(2) by auto
      then show ?thesis
        by (rule steps_row_update) (rule ambiguous_advances [OF l])
    qed
  qed
  then have "moved fp obs host {k} d d' \<and> fleet_ok d'"
    using steps_row_moved [of fp obs x d d' host] assms(2,4) x k by auto
  moreover have "present host {k} d"
    using x k by (auto simp: present_def)
  ultimately show ?thesis
    using present_moved by blast
qed

lemma each_group_moved:
  assumes "each (apply_group fp uuid now host existing) groups d = (d', Inr ())" "fleet_ok d"
    "read_from host (fst ` set groups) existing d" "distinct (map fst groups)"
    "\<And>k g. (k, g) \<in> set groups \<Longrightarrow> observed_as obs k = g \<and> g \<noteq> [] \<and> o_container (hd g) \<noteq> []"
  shows "moved fp obs host (fst ` set groups) d d' \<and> fleet_ok d' \<and> present host (fst ` set groups) d'"
  using assms
proof (induction groups arbitrary: d)
  case Nil
  then show ?case
    by (auto simp: present_def intro: moved_refl)
next
  case (Cons kg groups)
  obtain k g where kg: "kg = (k, g)"
    by (cases kg)
  obtain d1 where d1: "apply_group fp uuid now host existing (k, g) d = (d1, Inr ())"
    "each (apply_group fp uuid now host existing) groups d1 = (d', Inr ())"
    using Cons.prems(1) by (auto simp: and_then_Inr kg)
  have here: "moved fp obs host {k} d d1 \<and> fleet_ok d1 \<and> present host {k} d1"
    by (rule apply_group_moved [OF d1(1) Cons.prems(2)])
      (use Cons.prems(3) Cons.prems(5) [of k g] in \<open>auto simp: kg read_from_def\<close>)
  moreover have "read_from host (fst ` set groups) existing d1"
    using read_from_moved [OF read_from_mono [OF Cons.prems(3)] here [THEN conjunct1]] Cons.prems(4) by (auto simp: kg)
  then have rest: "moved fp obs host (fst ` set groups) d1 d' \<and> fleet_ok d' \<and> present host (fst ` set groups) d'"
    using Cons.IH [OF d1(2)] Cons.prems(4,5) here by auto
  moreover have "present host {k} d'"
    using present_moved here rest by blast
  ultimately show ?case
    using moved_trans [of fp obs host "{k}" d d1 "fst ` set groups" d'] Cons.prems(4) by (auto simp: kg present_def)
qed

text \<open>The loop over the servers that were not observed.\<close>

lemma mark_missing_moved:
  assumes "mark_missing groups s d = (d', Inr ())" "fleet_ok d" "read_from host {sv_external s} [s] d"
    "sv_external s \<notin> fst ` set groups" "observed_as obs (sv_external s) = []"
  shows "moved fp obs host {sv_external s} d d' \<and> fleet_ok d'"
proof -
  obtain x where x: "x \<in> set (servers d)" "server_of x = s" "v_host x = host" "v_container x \<noteq> Some []"
    using assms(3) by (auto simp: read_from_def)
  have "steps_row (advances fp []) x d d'"
  proof (cases "sv_status s = ''missing'' \<and> sv_container s = []")
    case True
    then have "v_container x = None" "v_status x = ''missing''"
      using x(2,4) by (auto simp: null_string_Nil)
    then show ?thesis
      using assms(1) True by (auto simp: mark_missing_def advances_def settled_def intro: steps_row_same)
  next
    case False
    then have "update_server (v_id x) (\<lambda>r. r\<lparr>v_status := ''missing'', v_container := None\<rparr>) d = (d', Inr ())"
      using assms(1,4) x(2) by (auto simp: mark_missing_def)
    then show ?thesis
      by (rule steps_row_update) (simp add: advances_def settled_def binding_le_def keeps_accepted_def)
  qed
  then show ?thesis
    using steps_row_moved [of fp obs x d d' host] assms(2,5) x by auto
qed

lemma each_missing_moved:
  assumes "each (mark_missing groups) existing d = (d', Inr ())" "fleet_ok d"
    "read_from host (sv_external ` set existing - fst ` set groups) existing d" "distinct (map sv_external existing)"
    "\<And>k. k \<notin> fst ` set groups \<Longrightarrow> observed_as obs k = []"
  shows "moved fp obs host (sv_external ` set existing - fst ` set groups) d d' \<and> fleet_ok d'"
  using assms
proof (induction existing arbitrary: d)
  case Nil
  then show ?case
    by (auto intro: moved_refl)
next
  case (Cons s existing)
  let ?G = "fst ` set groups"
  obtain d1 where d1: "mark_missing groups s d = (d1, Inr ())" "each (mark_missing groups) existing d1 = (d', Inr ())"
    using Cons.prems(1) by (auto simp: and_then_Inr)
  have here: "moved fp obs host ({sv_external s} - ?G) d d1 \<and> fleet_ok d1"
  proof (cases "sv_external s \<in> ?G")
    case True
    then show ?thesis
      using d1(1) Cons.prems(2) by (auto simp: mark_missing_def intro: moved_refl)
  next
    case False
    moreover from False have "{sv_external s} - ?G = {sv_external s}"
      by auto
    moreover have "read_from host {sv_external s} [s] d"
      using Cons.prems(3) False by (auto simp: read_from_def)
    ultimately show ?thesis
      using mark_missing_moved [OF d1(1) Cons.prems(2) _ False Cons.prems(5) [OF False]] by simp
  qed
  have rest: "read_from host (sv_external ` set existing - ?G) existing d"
    using Cons.prems(3) by (auto simp: read_from_def)
  have "read_from host (sv_external ` set existing - ?G) existing d1"
    by (rule read_from_moved [OF rest here [THEN conjunct1]]) (use Cons.prems(4) in auto)
  then have "moved fp obs host (sv_external ` set existing - ?G) d1 d' \<and> fleet_ok d'"
    using Cons.IH [OF d1(2)] Cons.prems(4,5) here by auto
  then have "moved fp obs host (({sv_external s} - ?G) \<union> (sv_external ` set existing - ?G)) d d' \<and> fleet_ok d'"
    using moved_trans [OF here [THEN conjunct1]] Cons.prems(4) by auto
  moreover have "({sv_external s} - ?G) \<union> (sv_external ` set existing - ?G) = sv_external ` set (s # existing) - ?G"
    by auto
  ultimately show ?case by simp
qed

section \<open>Whole snapshots\<close>

lemma add_group_of:
  "map_of (add_group k ob gs) k' = (if k' = k then Some (case map_of gs k of None \<Rightarrow> [ob] | Some g \<Rightarrow> g @ [ob]) else map_of gs k')"
  by (induction k ob gs rule: add_group.induct) auto

lemma add_group_keys: "fst ` set (add_group k ob gs) = insert k (fst ` set gs)"
  by (induction k ob gs rule: add_group.induct) auto

lemma add_group_distinct: "distinct (map fst gs) \<Longrightarrow> distinct (map fst (add_group k ob gs))"
proof (induction k ob gs rule: add_group.induct)
  case (2 k ob k' g gs)
  then show ?case
    using add_group_keys [of k ob gs] by (auto simp del: set_map simp flip: list.set_map)
qed simp

definition group_of :: "(string \<times> observation list) list \<Rightarrow> string \<Rightarrow> observation list" where
  "group_of gs k = (case map_of gs k of None \<Rightarrow> [] | Some g \<Rightarrow> g)"

lemma add_group_group_of: "group_of (add_group k ob gs) k' = group_of gs k' @ (if k' = k then [ob] else [])"
  by (simp add: group_of_def add_group_of split: option.split)

lemma external_container: "external_identity ob = Inr k \<Longrightarrow> o_container ob \<noteq> []"
  by (auto simp: external_identity_def valid_identity_part_def split: if_splits)

lemma group_all_groups:
  "group_all seen gs obs = Inr gs' \<Longrightarrow> group_of gs' k = group_of gs k @ observed_as obs k"
proof (induction obs arbitrary: seen gs)
  case (Cons ob obs)
  then show ?case
    by (auto simp: res_bind_Inr add_group_group_of observed_as_def split: if_splits)
qed (simp add: observed_as_def)

lemma group_all_valid: "group_all seen gs obs = Inr gs' \<Longrightarrow> ob \<in> set obs \<Longrightarrow> \<exists>k. external_identity ob = Inr k"
  by (induction obs arbitrary: seen gs) (auto simp: res_bind_Inr split: if_splits)

lemma add_group_nonempty: "[] \<notin> snd ` set gs \<Longrightarrow> [] \<notin> snd ` set (add_group k ob gs)"
  by (induction k ob gs rule: add_group.induct) auto

lemma group_all_keys:
  "group_all seen gs obs = Inr gs' \<Longrightarrow> distinct (map fst gs) \<Longrightarrow> [] \<notin> snd ` set gs \<Longrightarrow>
     distinct (map fst gs') \<and> [] \<notin> snd ` set gs'"
proof (induction obs arbitrary: seen gs)
  case (Cons ob obs)
  obtain k where k: "group_all (o_container ob # seen) (add_group k ob gs) obs = Inr gs'"
    using Cons.prems(1) by (auto simp: res_bind_Inr split: if_splits)
  show ?case
    by (rule Cons.IH [OF k]) (use Cons.prems add_group_distinct add_group_nonempty in blast)+
qed simp

lemma group_all_Inr:
  assumes "group_all [] [] obs = Inr groups"
  shows "distinct (map fst groups)" "(k, g) \<in> set groups \<Longrightarrow> observed_as obs k = g \<and> g \<noteq> [] \<and> o_container (hd g) \<noteq> []"
    "k \<notin> fst ` set groups \<Longrightarrow> observed_as obs k = []"
proof -
  have ok: "distinct (map fst groups)" "[] \<notin> snd ` set groups"
    using group_all_keys [OF assms] by auto
  have of: "observed_as obs k = group_of groups k" for k
    using group_all_groups [OF assms, of k] by (simp add: group_of_def)
  show "distinct (map fst groups)"
    by (fact ok)
  show "observed_as obs k = []" if "k \<notin> fst ` set groups"
    using that by (simp add: of group_of_def map_of_eq_None_iff [THEN iffD2])
  assume "(k, g) \<in> set groups"
  then have g: "observed_as obs k = g" "g \<noteq> []"
    using ok by (auto simp: of group_of_def rev_image_eqI)
  then have "hd g \<in> set (observed_as obs k)"
    by simp
  then show "observed_as obs k = g \<and> g \<noteq> [] \<and> o_container (hd g) \<noteq> []"
    using g by (auto simp: observed_as_def dest: external_container)
qed

text \<open>A snapshot that succeeds moves every row of its host.\<close>

lemma list_servers_distinct:
  assumes "list_servers host d = (d', Inr ss)" "fleet_ok d" "host \<noteq> []"
  shows "distinct (map sv_external ss)"
proof -
  let ?rows = "filter (\<lambda>r. host = [] \<or> v_host r = host) (servers d)"
  have "inj_on v_external (set ?rows)"
    using assms(3) fleet_unique [OF assms(2)] by (auto intro!: inj_onI)
  moreover have "ss = map server_of (sort_key (\<lambda>r. (to_lower (v_name r), v_id r)) ?rows)"
    using assms(1) by (auto simp: list_servers_def and_then_Inr dest: scan_all_Inr)
  moreover have "distinct ?rows"
    using assms(2) by (auto simp: fleet_ok_def distinct_map)
  ultimately show ?thesis
    by (simp add: o_def distinct_map)
qed

lemma apply_snapshot_moved:
  assumes "apply_snapshot fp uuid now host obs d = (d', Inr ())" "fleet_ok d" "host \<noteq> []"
  shows "moved fp obs host UNIV d d' \<and> fleet_ok d' \<and> present host {k. observed_as obs k \<noteq> []} d'"
proof -
  obtain groups existing d1 where a: "group_all [] [] obs = Inr groups" "list_servers host d = (d, Inr existing)"
    "each (apply_group fp uuid now host existing) groups d = (d1, Inr ())" "each (mark_missing groups) existing d1 = (d', Inr ())"
    using assms(1) list_servers_Inr(1) by (fastforce simp: apply_snapshot_def and_then_Inr)
  let ?G = "fst ` set groups" and ?E = "sv_external ` set existing"
  note g = group_all_Inr [OF a(1)] and l = list_servers_Inr [OF a(2)]
  have read: "read_from host K existing d" for K
    using l assms(3) unfolding read_from_def by fastforce
  have first: "moved fp obs host ?G d d1 \<and> fleet_ok d1 \<and> present host ?G d1"
    by (rule each_group_moved [OF a(3) assms(2) read g(1)]) (rule g(2))
  have second: "moved fp obs host (?E - ?G) d1 d' \<and> fleet_ok d'"
    by (rule each_missing_moved [OF a(4) first [THEN conjunct2, THEN conjunct1] read_from_moved [OF read first [THEN conjunct1]]
        list_servers_distinct [OF a(2) assms(2,3)] g(3)]) auto
  have "moved fp obs host (?G \<union> (?E - ?G)) d d'"
    by (rule moved_trans [OF first [THEN conjunct1] second [THEN conjunct1]]) auto
  moreover have "v_external x \<in> ?G \<union> (?E - ?G)" if "x \<in> set (servers d)" "v_host x = host" for x
    using that l(2) by (force simp: image_iff)
  ultimately have "moved fp obs host UNIV d d'"
    unfolding moved_def by (elim ex_forward) (auto split: if_splits)
  moreover have "present host ?G d'"
    using present_moved first second by blast
  then have "present host {k. observed_as obs k \<noteq> []} d'"
    using g(3) unfolding present_def by blast
  ultimately show ?thesis
    using second by blast
qed

section \<open>The fleet over time\<close>

definition hosts_ok :: "database \<Rightarrow> bool" where
  "hosts_ok d \<longleftrightarrow> [] \<notin> fst ` set (hosts d)"

lemma hosts_ok_counter [simp]: "hosts_ok (d\<lparr>audits_since_prune := n\<rparr>) = hosts_ok d"
  by (simp add: hosts_ok_def)

lemma keeps_hosts [db_keeps]:
  "keeps hosts_ok (update_server i f)" "keeps hosts_ok (insert_server r)" "keeps hosts_ok (record_binding i n c g now a)"
  by (auto simp: keeps_def update_server_def insert_server_def record_binding_def hosts_ok_def)

lemma keeps_each [db_keeps]: "(\<And>x. keeps P (f x)) \<Longrightarrow> keeps P (each f xs)"
  by (induction xs) (auto intro: db_keeps)

lemma keeps_from_res [db_keeps]: "keeps P (from_res r)"
  by (simp add: keeps_def from_res_def split: sum.split)

lemma keeps_hosts_tx [db_keeps]: "keeps hosts_ok m \<Longrightarrow> keeps hosts_ok (tx m)"
  by (rule keeps_tx) simp_all

lemma keeps_lists [db_keeps]: "keeps P (list_servers host)" "keeps P (get_server i)"
  unfolding list_servers_def get_server_def by (intro db_keeps)+

lemma keeps_apply_group: "keeps hosts_ok (apply_group fp uuid now host existing g)"
proof -
  obtain k obs where g: "g = (k, obs)"
    by (cases g)
  show ?thesis
    unfolding g apply_group_def insert_observed_def update_observed_def Let_def prod.case by (intro db_keeps)
qed

lemma keeps_apply_snapshot: "keeps hosts_ok (apply_snapshot fp uuid now host obs)"
  unfolding apply_snapshot_def mark_missing_def by (intro db_keeps keeps_apply_group)

datatype fleet_event =
    Applied string "observation list"
  | Reviewed string string

text \<open>New UUIDs are never empty; whether the operation succeeds or fails, it is a step.\<close>

inductive fleet_step :: "(material \<Rightarrow> string) \<Rightarrow> fleet_event \<Rightarrow> database \<Rightarrow> database \<Rightarrow> bool" for fp where
  Snapshot: "store_apply fp uuid host_uuid clock now host obs d = (d', r) \<Longrightarrow> host_uuid \<noteq> [] \<Longrightarrow>
    fleet_step fp (Applied host obs) d d'"
| Review: "review_binding now admin token i expected revision d = (d', r) \<Longrightarrow> fleet_step fp (Reviewed i expected) d d'"

inductive fleet_runs :: "(material \<Rightarrow> string) \<Rightarrow> database \<Rightarrow> database \<Rightarrow> bool" for fp where
  Stay: "fleet_runs fp d d"
| Go: "fleet_runs fp d d1 \<Longrightarrow> fleet_step fp e d1 d2 \<Longrightarrow> fleet_runs fp d d2"

inductive_cases fleet_stepE: "fleet_step fp e d d'"

text \<open>One step on one row.\<close>

definition row_step :: "fleet_event \<Rightarrow> server_row \<Rightarrow> server_row \<Rightarrow> bool" where
  "row_step e x y \<longleftrightarrow> binding_le x y \<and>
     (keeps_accepted x y \<or>
      e = Reviewed (v_id x) (v_fingerprint y) \<and> v_status x = ''review_required'' \<and> v_pending x = Some (v_fingerprint y))"

definition rows_step :: "fleet_event \<Rightarrow> database \<Rightarrow> database \<Rightarrow> bool" where
  "rows_step e d d' \<longleftrightarrow> (\<exists>f new. servers d' = map f (servers d) @ new \<and> (\<forall>x \<in> set (servers d). row_step e x (f x)))"

lemma rows_step_same: "servers d' = servers d \<Longrightarrow> rows_step e d d'"
  unfolding rows_step_def row_step_def by (intro exI [of _ "\<lambda>x. x"] exI [of _ "[]"]) simp

lemma tx_Inl: "tx m d = (d', Inl e) \<Longrightarrow> servers d' = servers d \<and> hosts d' = hosts d"
  by (auto simp: tx_def split: prod.splits sum.splits)

lemma moved_rows_step: "moved fp obs host K d d' \<Longrightarrow> rows_step e d d'"
  unfolding moved_def rows_step_def
  by (elim ex_forward) (auto simp: row_step_def advances_def split: if_splits)

lemma docker_host_id_servers: "docker_host_id u n d = (d', r) \<Longrightarrow> servers d' = servers d"
  by (auto simp: docker_host_id_def and_then_def split: option.splits prod.splits sum.splits if_splits)

lemma docker_host_id_ok:
  "docker_host_id u n d = (d', r) \<Longrightarrow> hosts_ok d \<Longrightarrow> u \<noteq> [] \<Longrightarrow> hosts_ok d' \<and> r \<noteq> Inr []"
  by (auto simp: docker_host_id_def and_then_def hosts_ok_def find_Some_iff rev_image_eqI
      split: option.splits prod.splits sum.splits if_splits) (metis fst_conv image_eqI nth_mem)

lemma apply_snapshot_step:
  assumes "apply_snapshot fp uuid now host obs d = (d', r)" "fleet_ok d" "host \<noteq> []"
  shows "rows_step e d d' \<and> fleet_ok d'"
proof (cases r)
  case (Inl err)
  then have "servers d' = servers d"
    using assms(1)
    by (auto simp: apply_snapshot_def and_then_def from_res_def split: prod.splits sum.splits dest: tx_Inl)
  then show ?thesis
    using assms(2) by (simp add: rows_step_same fleet_ok_def)
next
  case (Inr u)
  then show ?thesis
    using apply_snapshot_moved [of fp uuid now host obs d d'] assms moved_rows_step [of fp obs host UNIV d d' e] by simp
qed

lemma store_apply_step:
  assumes "store_apply fp uuid host_uuid clock now host obs d = (d', r)" "fleet_ok d" "hosts_ok d" "host_uuid \<noteq> []"
  shows "rows_step e d d' \<and> fleet_ok d' \<and> hosts_ok d'"
proof -
  obtain d1 r1 where d1: "host_or_local host_uuid host d = (d1, r1)"
    by fastforce
  then have s: "servers d1 = servers d" "hosts_ok d1" "r1 \<noteq> Inr []"
    using assms(3,4) docker_host_id_servers docker_host_id_ok unfolding host_or_local_def by (auto split: if_splits)
  then have ok: "fleet_ok d1"
    using assms(2) by (simp add: fleet_ok_def)
  show ?thesis
  proof (cases r1)
    case (Inl err)
    then show ?thesis
      using assms(1) d1 s ok by (auto simp: store_apply_def and_then_def rows_step_same)
  next
    case (Inr h)
    then have "apply_snapshot fp uuid (if now \<le> 0 then clock else now) h obs d1 = (d', r)"
      using assms(1) d1 by (simp add: store_apply_def and_then_def)
    then show ?thesis
      using apply_snapshot_step [OF _ ok] keeps_result [OF keeps_apply_snapshot] s Inr
      by (auto simp: rows_step_def)
  qed
qed

text \<open>The update of a review, and the row it was read from.\<close>

definition accepted_row :: "server_row \<Rightarrow> server_row" where
  "accepted_row r = r\<lparr>v_status := ''active'', v_revision := v_revision r + 1, v_fingerprint := null_string (v_pending r),
     v_game := null_string (v_pending_game r), v_pending := None, v_pending_game := None, v_review := 0\<rparr>"

lemma get_server_Inr:
  "get_server i d = (d', Inr (Some s)) \<Longrightarrow>
     d' = d \<and> (\<exists>x \<in> set (servers d). v_id x = i \<and> s = server_of x)"
  by (auto simp: get_server_def and_then_Inr scan_server_def find_Some_iff split: option.splits if_splits intro: nth_mem)

lemma keeps_admin_hosts: "keeps hosts_ok m \<Longrightarrow> keeps hosts_ok (admin_mutation a t now m)"
  unfolding admin_mutation_def by (intro db_keeps)

lemma keeps_review: "keeps hosts_ok (review_binding now a t i e n)"
  unfolding review_binding_def by (intro db_keeps keeps_admin_hosts)

definition review_accepts :: "string \<Rightarrow> string \<Rightarrow> int \<Rightarrow> int \<Rightarrow> database \<Rightarrow> database \<Rightarrow> bool" where
  "review_accepts i e n now d d' \<longleftrightarrow>
     (\<exists>x \<in> set (servers d). v_id x = i \<and> v_status x = ''review_required'' \<and> v_container x \<notin> {None, Some []} \<and>
        v_pending x = Some e \<and> e \<noteq> [] \<and> (0 \<le> n \<longrightarrow> v_revision x = n) \<and>
        d' = d\<lparr>servers := map (\<lambda>r. if v_id r = i then accepted_row r else r) (servers d),
          bindings := bindings d @ [\<lparr>b_id = binding_seq d + 1, b_server = i, b_revision = v_revision x + 1,
            b_container = the (v_container x), b_fingerprint = e, b_observed = now, b_accepted = 1\<rparr>],
          binding_seq := binding_seq d + 1\<rparr>)"

lemma admin_mutation_Inr:
  "admin_mutation a t now m d = (d', Inr x) \<longleftrightarrow>
     session_valid a t now d \<and> (\<exists>u. find_user_by_id a d = Some u \<and> u_role u = ''admin'') \<and> m d = (d', Inr x)"
  by (auto simp: admin_mutation_def and_then_Inr split: option.splits)

definition review_change :: "int \<Rightarrow> string \<Rightarrow> string \<Rightarrow> int \<Rightarrow> server \<Rightarrow> unit db_op" where
  "review_change now i e n s =
     (if sv_status s \<noteq> ''review_required'' \<or> sv_container s = [] \<or> sv_pending s = [] \<or> sv_pending s \<noteq> e \<or>
        n \<ge> 0 \<and> sv_revision s \<noteq> n
      then fail_with (PublicError ''SERVER_REVIEW_CHANGED'' 409)
      else and_then (update_server i accepted_row) (\<lambda>_. record_binding i (sv_revision s + 1) (sv_container s) e now True))"

definition review_tx :: "int \<Rightarrow> string \<Rightarrow> string \<Rightarrow> string \<Rightarrow> string \<Rightarrow> int \<Rightarrow> unit db_op" where
  "review_tx now a t i e n = admin_mutation a t now (and_then (get_server i) (\<lambda>found.
     (case found of None \<Rightarrow> fail_with (PublicError ''SERVER_NOT_FOUND'' 404) | Some s \<Rightarrow> review_change now i e n s)))"

lemma review_binding_eq: "review_binding now a t i e n = and_then (review_tx now a t i e n) (\<lambda>_. get_server i)"
  unfolding review_binding_def review_tx_def review_change_def accepted_row_def by (rule refl)

lemma get_server_same: "get_server i d = (d', r) \<Longrightarrow> d' = d"
  by (auto simp: get_server_def and_then_def from_res_def split: option.splits sum.splits prod.splits)

lemma review_commit:
  assumes "review_tx now a t i e n d = (d', Inr ())"
  shows "session_valid a t now d \<and> (\<exists>u. find_user_by_id a d = Some u \<and> u_role u = ''admin'') \<and> review_accepts i e n now d d'"
proof -
  obtain found where m: "session_valid a t now d" "\<exists>u. find_user_by_id a d = Some u \<and> u_role u = ''admin''"
    "get_server i d = (d, Inr found)"
    "(case found of None \<Rightarrow> fail_with (PublicError ''SERVER_NOT_FOUND'' 404) | Some s \<Rightarrow> review_change now i e n s) d = (d', Inr ())"
    using assms unfolding review_tx_def admin_mutation_Inr
    by (auto simp: and_then_Inr [of "get_server i"] dest: get_server_same)
  obtain s where s: "found = Some s" "review_change now i e n s d = (d', Inr ())"
    using m(4) by (cases found) auto
  then have c: "sv_status s = ''review_required''" "sv_container s \<noteq> []" "sv_pending s \<noteq> []" "sv_pending s = e"
    "n \<ge> 0 \<longrightarrow> sv_revision s = n"
    "and_then (update_server i accepted_row) (\<lambda>_. record_binding i (sv_revision s + 1) (sv_container s) e now True) d = (d', Inr ())"
    unfolding review_change_def by (auto split: if_splits)
  obtain x where x: "x \<in> set (servers d)" "v_id x = i" "s = server_of x"
    using get_server_Inr m(3) s(1) by blast
  have p: "v_pending x = Some e"
    using c(3,4) x(3) by (cases "v_pending x") auto
  have q: "v_container x \<notin> {None, Some []}"
    using c(2) x(3) by (simp add: null_string_Nil)
  have "d' = d\<lparr>servers := map (\<lambda>r. if v_id r = i then accepted_row r else r) (servers d),
          bindings := bindings d @ [\<lparr>b_id = binding_seq d + 1, b_server = i, b_revision = v_revision x + 1,
            b_container = the (v_container x), b_fingerprint = e, b_observed = now, b_accepted = 1\<rparr>],
          binding_seq := binding_seq d + 1\<rparr>"
    using c(6) x(3) q
    by (cases "v_container x") (auto simp: and_then_def update_server_def record_binding_def bool_int_def)
  with c(1,3,4,5) x p q have "review_accepts i e n now d d'"
    unfolding review_accepts_def by (intro bexI [of _ x]) simp_all
  then show ?thesis
    using m(1,2) by blast
qed

lemma review_binding_cases:
  assumes "review_binding now a t i e n d = (d', r)"
  shows "servers d' = servers d \<and> isl r \<or> review_tx now a t i e n d = (d', Inr ())"
  using assms unfolding review_binding_eq and_then_def
  by (auto simp: review_tx_def admin_mutation_def split: prod.splits sum.splits dest!: tx_Inl get_server_same)

lemma accepted_row_step:
  "v_status x = ''review_required'' \<Longrightarrow> v_pending x = Some e \<Longrightarrow> row_step (Reviewed (v_id x) e) x (accepted_row x)"
  by (simp add: row_step_def accepted_row_def binding_le_def)

lemma review_step:
  assumes "review_binding now a t i e n d = (d', r)" "fleet_ok d" "hosts_ok d"
  shows "rows_step (Reviewed i e) d d' \<and> fleet_ok d' \<and> hosts_ok d'"
proof -
  have h: "hosts_ok d'"
    using keeps_result [OF keeps_review assms(1,3)] .
  from review_binding_cases [OF assms(1)] show ?thesis
  proof
    assume "servers d' = servers d \<and> isl r"
    then show ?thesis
      using h assms(2) by (simp add: rows_step_same fleet_ok_def)
  next
    assume "review_tx now a t i e n d = (d', Inr ())"
    then obtain x where x: "x \<in> set (servers d)" "v_id x = i" "v_status x = ''review_required''" "v_pending x = Some e"
      "servers d' = map (\<lambda>r. if v_id r = i then accepted_row r else r) (servers d)"
      unfolding review_accepts_def using review_commit unfolding review_accepts_def by fastforce
    let ?f = "\<lambda>r. if v_id r = i then accepted_row r else r"
    have one: "row_step (Reviewed i e) r (?f r)" if "r \<in> set (servers d)" for r
      using accepted_row_step [OF x(3,4)] fleet_unique [OF assms(2) that x(1)] x(2) by (auto simp: row_step_def)
    then have "rows_step (Reviewed i e) d d'"
      unfolding rows_step_def using x(5) by (intro exI [of _ ?f] exI [of _ "[]"]) simp
    moreover have "map v_id (servers d') = map v_id (servers d)"
      "map (\<lambda>r. (v_host r, v_external r)) (servers d') = map (\<lambda>r. (v_host r, v_external r)) (servers d)"
      by (simp_all add: x(5) accepted_row_def)
    ultimately show ?thesis
      using h assms(2) by (simp only: fleet_ok_def)
  qed
qed

lemma fleet_step_rows:
  "fleet_step fp e d d' \<Longrightarrow> fleet_ok d \<Longrightarrow> hosts_ok d \<Longrightarrow> rows_step e d d' \<and> fleet_ok d' \<and> hosts_ok d'"
  by (elim fleet_stepE) (simp_all add: store_apply_step review_step)

lemma fleet_runs_rows:
  assumes "fleet_runs fp d d'" "fleet_ok d" "hosts_ok d"
  shows "fleet_ok d' \<and> hosts_ok d' \<and> (\<forall>x \<in> set (servers d). \<exists>y \<in> set (servers d'). binding_le x y)"
  using assms
proof (induction rule: fleet_runs.induct)
  case Stay
  then show ?case
    using binding_le_refl by blast
next
  case (Go d d1 e d2)
  then have ok: "fleet_ok d1" "hosts_ok d1" and old: "\<forall>x \<in> set (servers d). \<exists>y \<in> set (servers d1). binding_le x y"
    by auto
  have s: "rows_step e d1 d2" "fleet_ok d2" "hosts_ok d2"
    using fleet_step_rows [OF Go.hyps(2) ok] by auto
  moreover have "\<exists>z \<in> set (servers d2). binding_le y z" if "y \<in> set (servers d1)" for y
    using s(1) that unfolding rows_step_def row_step_def by auto
  ultimately show ?case
    using old binding_le_trans by blast
qed

section \<open>External identities\<close>

lemma byte_hex_digit: "n < 16 \<Longrightarrow> byte (hex_digit n) = (if n < 10 then 48 + n else 55 + n)"
  by (simp add: hex_digit_def byte_def)

lemma hex_digit_inject:
  assumes "m < 16" "n < 16" "hex_digit m = hex_digit n"
  shows "m = n"
proof -
  have "(if m < 10 then 48 + m else 55 + m) = (if n < 10 then 48 + n else 55 + n)"
    using byte_hex_digit [OF assms(1)] byte_hex_digit [OF assms(2)] by (simp only: assms(3))
  then show ?thesis
    by (simp split: if_splits)
qed

lemma byte_parts: "byte c div 16 < 16" "byte c mod 16 < 16"
  using nat_of_char_less_256 [of c] by (simp_all add: byte_def less_mult_imp_div_less)

text \<open>Escapes are of one or three characters, told apart by the first; none contains a colon.\<close>

lemma plain_chars:
  "alphanumeric c \<or> c \<in> {CHR ''-'', CHR ''_'', CHR ''.'', CHR ''~''} \<Longrightarrow> c \<noteq> CHR ''%'' \<and> c \<noteq> CHR ''+'' \<and> c \<noteq> CHR '':''"
  by (auto simp: alphanumeric_def is_digit_def byte_def)

lemma escape_char_prefix_free: "escape_char c @ s = escape_char c' @ s' \<Longrightarrow> c = c' \<and> s = s'"
proof -
  assume a: "escape_char c @ s = escape_char c' @ s'"
  let ?plain = "\<lambda>c. alphanumeric c \<or> c \<in> {CHR ''-'', CHR ''_'', CHR ''.'', CHR ''~''}"
  show ?thesis
  proof (cases "?plain c \<or> c = CHR '' '' \<or> ?plain c' \<or> c' = CHR '' ''")
    case True
    then show ?thesis
      using a plain_chars [of c] plain_chars [of c'] by (auto simp: escape_char_def split: if_splits)
  next
    case False
    then have "hex_digit (byte c div 16) = hex_digit (byte c' div 16)" "hex_digit (byte c mod 16) = hex_digit (byte c' mod 16)" "s = s'"
      using a by (auto simp: escape_char_def)
    then have "byte c div 16 = byte c' div 16" "byte c mod 16 = byte c' mod 16"
      using hex_digit_inject byte_parts by blast+
    then have "byte c = byte c'"
      by (metis div_mult_mod_eq)
    then show ?thesis
      using \<open>s = s'\<close> by (simp add: byte_def)
  qed
qed

lemma query_escape_Cons: "query_escape (c # s) = escape_char c @ query_escape s"
  by (simp add: query_escape_def)

lemma escape_char_not_Nil: "escape_char c \<noteq> []"
  by (simp add: escape_char_def)

lemma query_escape_inject: "query_escape s = query_escape t \<Longrightarrow> s = t"
proof (induction s arbitrary: t)
  case Nil
  then show ?case
    by (cases t) (simp_all add: query_escape_def escape_char_not_Nil)
next
  case (Cons c s)
  then show ?case
    by (cases t) (auto simp: query_escape_Cons escape_char_not_Nil query_escape_def [of "[]"] dest!: escape_char_prefix_free)
qed

lemma hex_digit_no_colon: "n < 16 \<Longrightarrow> hex_digit n \<noteq> CHR '':''"
  using byte_hex_digit [of n] by (auto simp: byte_def split: if_splits)

lemma query_escape_no_colon: "CHR '':'' \<notin> set (query_escape s)"
  using hex_digit_no_colon [OF byte_parts(1)] hex_digit_no_colon [OF byte_parts(2)]
  by (auto simp: query_escape_def escape_char_def dest: plain_chars split: if_splits) (metis plain_chars insertI1)+

lemma colon_parts: "CHR '':'' \<notin> set a \<Longrightarrow> CHR '':'' \<notin> set a' \<Longrightarrow> a @ CHR '':'' # b = a' @ CHR '':'' # b' \<Longrightarrow> a = a' \<and> b = b'"
  by (auto simp: append_eq_append_conv2 append_eq_Cons_conv Cons_eq_append_conv)

text \<open>What an observation is known by.\<close>

definition known_by :: "observation \<Rightarrow> (string \<times> string \<times> string) + string" where
  "known_by ob =
     (case o_compose ob of
        Some c \<Rightarrow> Inl (co_project c, co_service c, co_number c)
      | None \<Rightarrow> Inr (trim_prefix (o_name ob) ''/''))"

text \<open>C33. Two observations have the same external identity exactly when they are the same
  Compose replica (project, service and number) or the same standalone container name: the
  escaped text of one never collides with another.\<close>

theorem external_identity_injective:
  assumes "external_identity ob = Inr k" "external_identity ob' = Inr k'"
  shows "k = k' \<longleftrightarrow> known_by ob = known_by ob'"
  using assms
  by (cases "o_compose ob"; cases "o_compose ob'")
    (auto simp: external_identity_def known_by_def query_escape_no_colon
      dest: query_escape_inject colon_parts [OF query_escape_no_colon query_escape_no_colon] split: if_splits)

text \<open>New identifiers.\<close>

lemma is_hex_low: "n < 16 \<Longrightarrow> is_hex (hex_low n)"
  by (auto simp: is_hex_def hex_low_def is_digit_def byte_def)

lemma is_hex_pair [simp]: "is_hex (hex_low (byte c div 16))" "is_hex (hex_low (byte c mod 16))"
  using is_hex_low byte_parts by blast+

lemma hex_encode_length: "length b = 16 \<Longrightarrow> length (hex_encode b) = 32"
  by (simp add: hex_encode_def length_concat o_def sum_list_triv)

lemma hex_encode_hex: "list_all is_hex (hex_encode b)"
  by (simp add: hex_encode_def list_all_iff)

lemma valid_id_shape:
  assumes "length h = 32" "list_all is_hex h"
  shows "valid_id (take 8 h @ ''-'' @ take 4 (drop 8 h) @ ''-'' @ take 4 (drop 12 h) @ ''-'' @ take 4 (drop 16 h) @ ''-'' @ drop 20 h)"
  using assms by (auto simp: valid_id_def list_all_length list_all_iff nth_append nth_Cons')

text \<open>C34. Every UUID Ludock draws is a valid logical server identifier, whatever the random bytes.\<close>

theorem new_uuid_valid:
  assumes "length b = 16"
  shows "valid_id (new_uuid b)"
proof -
  let ?b = "(b[6 := char_of (byte (b ! 6) mod 16 + 64)])[8 := char_of (byte (b[6 := char_of (byte (b ! 6) mod 16 + 64)] ! 8) mod 64 + 128)]"
  have "length (hex_encode ?b) = 32" "list_all is_hex (hex_encode ?b)"
    using assms by (simp_all only: hex_encode_length hex_encode_hex length_list_update)
  then show ?thesis
    unfolding new_uuid_def Let_def by (rule valid_id_shape)
qed

lemma new_uuid_valid_witness:
  "valid_id (new_uuid (replicate 16 (CHR ''x''))) \<and> new_uuid (replicate 16 (CHR ''x'')) = ''78787878-7878-4878-b878-787878787878''"
  using new_uuid_valid [of "replicate 16 (CHR ''x'')"] by (simp, code_simp)

definition sample_replica :: "string \<Rightarrow> string \<Rightarrow> observation" where
  "sample_replica project service = \<lparr>o_container = ''c'', o_name = ''/n'', o_display = ''n'', o_game = ''g'',
     o_compose = Some \<lparr>co_project = project, co_service = service, co_number = ''1''\<rparr>, o_mounts = [], o_config = []\<rparr>"

lemma external_identity_injective_witness:
  "external_identity (sample_replica ''a:b'' ''c'') \<noteq> external_identity (sample_replica ''a'' ''b:c'')"
proof -
  have r: "external_identity (sample_replica ''a:b'' ''c'') = Inr ''compose:a%3Ab:c:1''"
    "external_identity (sample_replica ''a'' ''b:c'') = Inr ''compose:a:b%3Ac:1''"
    "known_by (sample_replica ''a:b'' ''c'') \<noteq> known_by (sample_replica ''a'' ''b:c'')"
    by code_simp+
  from external_identity_injective [OF r(1,2)] r show ?thesis by simp
qed

section \<open>Bindings\<close>

text \<open>C31. After a snapshot of a host has been applied, every server of that host is as the snapshot
  says: a server observed once is bound to that container and is active under that fingerprint or
  under review with it as the pending one, a server observed twice is ambiguous and unbound, one not
  observed is missing and unbound; every observed identity has a server, and other hosts are untouched.\<close>

theorem snapshot_settles_fleet:
  assumes "store_apply fp uuid host_uuid clock now host obs d = (d', Inr ())" "fleet_ok d" "host \<noteq> []"
  shows "fleet_ok d' \<and>
    (\<forall>r \<in> set (servers d'). v_host r = host \<longrightarrow> settled fp (observed_as obs (v_external r)) r) \<and>
    (\<forall>ob \<in> set obs. \<exists>r \<in> set (servers d'). v_host r = host \<and> external_identity ob = Inr (v_external r)) \<and>
    filter (\<lambda>r. v_host r \<noteq> host) (servers d') = filter (\<lambda>r. v_host r \<noteq> host) (servers d)"
proof -
  have s: "apply_snapshot fp uuid (if now \<le> 0 then clock else now) host obs d = (d', Inr ())"
    using assms(1,3) by (simp add: store_apply_def host_or_local_def and_then_def)
  have m: "moved fp obs host UNIV d d'" "fleet_ok d'" "present host {k. observed_as obs k \<noteq> []} d'"
    using apply_snapshot_moved [OF s assms(2,3)] by auto
  obtain f new where f: "servers d' = map f (servers d) @ new"
    "\<forall>x \<in> set (servers d). if v_host x = host then advances fp (observed_as obs (v_external x)) x (f x) else f x = x"
    "\<forall>y \<in> set new. v_host y = host \<and> settled fp (observed_as obs (v_external y)) y"
    using m(1) unfolding moved_def by auto
  have old: "v_host (f x) = v_host x \<and> (v_host x = host \<longrightarrow> settled fp (observed_as obs (v_external (f x))) (f x))"
    if "x \<in> set (servers d)" for x
    using f(2) that advances_key by (fastforce simp: advances_def split: if_splits)
  have "filter (\<lambda>r. v_host r \<noteq> host) (map f xs) = filter (\<lambda>r. v_host r \<noteq> host) xs" if "set xs \<subseteq> set (servers d)" for xs
    using that by (induction xs) (use f(2) old in \<open>auto split: if_splits\<close>)
  then have "filter (\<lambda>r. v_host r \<noteq> host) (servers d') = filter (\<lambda>r. v_host r \<noteq> host) (servers d)"
    using f(1,3) by (simp add: filter_empty_conv)
  moreover have "\<forall>r \<in> set (servers d'). v_host r = host \<longrightarrow> settled fp (observed_as obs (v_external r)) r"
    using f(1,3) old by auto
  moreover have "\<exists>k. external_identity ob = Inr k" if "ob \<in> set obs" for ob
    using s group_all_valid that by (auto simp: apply_snapshot_def and_then_Inr)
  then have "\<forall>ob \<in> set obs. \<exists>r \<in> set (servers d'). v_host r = host \<and> external_identity ob = Inr (v_external r)"
    using m(3) by (fastforce simp: present_def observed_as_def filter_empty_conv)
  ultimately show ?thesis
    using m(2) by blast
qed

lemma resolve_binding_Inr:
  assumes "resolve_binding i n d = (d', Inr s)"
  shows "d' = d \<and> get_server i d = (d, Inr (Some s)) \<and> sv_status s = ''active'' \<and> \<not> sv_review s \<and> sv_container s \<noteq> [] \<and>
    (0 \<le> n \<longrightarrow> sv_revision s = n)"
proof -
  obtain found where f: "get_server i d = (d, Inr found)"
    "(case found of None \<Rightarrow> fail_with (PublicError ''SERVER_NOT_FOUND'' 404)
      | Some s \<Rightarrow> if sv_status s \<noteq> ''active'' \<or> sv_review s \<or> sv_container s = []
          then fail_with (PublicError ''SERVER_BINDING_UNAVAILABLE'' 409)
          else if 0 \<le> n \<and> sv_revision s \<noteq> n then fail_with (PublicError ''SERVER_BINDING_CHANGED'' 409)
          else done_with s) d = (d', Inr s)"
    using assms get_server_same unfolding resolve_binding_def and_then_Inr by (metis (no_types, lifting))
  then show ?thesis
    by (cases found) (auto split: if_splits)
qed

lemma resolve_binding_row:
  assumes "resolve_binding i n d = (d', Inr s)"
  shows "\<exists>x \<in> set (servers d). v_id x = i \<and> s = server_of x \<and> v_container x \<noteq> None"
proof -
  have r: "get_server i d = (d, Inr (Some s))" "sv_container s \<noteq> []"
    using resolve_binding_Inr [OF assms] by simp_all
  obtain x where x: "x \<in> set (servers d)" "v_id x = i" "s = server_of x"
    using get_server_Inr [OF r(1)] by auto
  then show ?thesis
    using r(2) by (intro bexI [of _ x]) (auto simp: null_string_Nil)
qed

text \<open>A host with one administrator; two snapshots of it, with a changed mount in the second.\<close>

definition sample_print :: "material \<Rightarrow> string" where
  "sample_print m = ''f'' @ concat (map (\<lambda>(t, source, dest). source) (fst (snd m)))"

definition sample_uuid :: "string \<Rightarrow> string" where
  "sample_uuid k = ''0123abcd-0000-4000-8000-000000000001''"

definition sample_seen :: "string \<Rightarrow> string \<Rightarrow> observation" where
  "sample_seen container source = \<lparr>o_container = container, o_name = ''/mc'', o_display = ''mc'', o_game = ''minecraft'',
     o_compose = None, o_mounts = [\<lparr>m_type = ''bind'', m_source = source, m_destination = ''/data'', m_writable = True, m_name = []\<rparr>],
     o_config = []\<rparr>"

definition sample_fleet :: database where
  "sample_fleet = empty_db\<lparr>hosts := [(''h'', ''local'')],
     users := [\<lparr>u_id = ''a'', u_name = ''root'', u_hash = ''x'', u_role = ''admin'', u_disabled = 0, u_created = 1, u_updated = 1\<rparr>],
     sessions := [\<lparr>s_token = ''t'', s_id = ''s'', s_user = ''a'', s_created = 1, s_expires = 1000000, s_seen = 1, s_ip = None, s_agent = None\<rparr>]\<rparr>"

definition sample_applied :: "int \<Rightarrow> string \<Rightarrow> string \<Rightarrow> database \<Rightarrow> database" where
  "sample_applied clock container source d =
     fst (store_apply sample_print sample_uuid ''u'' clock 0 ''h'' [sample_seen container source] d)"

lemmas sample_fleet_defs = sample_print_def sample_uuid_def sample_seen_def sample_fleet_def sample_applied_def

lemma sample_snapshot: "store_apply sample_print sample_uuid ''u'' 5 0 ''h'' [sample_seen ''c1'' ''/a''] sample_fleet =
    (sample_applied 5 ''c1'' ''/a'' sample_fleet, Inr ())"
  by code_simp

lemma sample_fleet_ok: "fleet_ok sample_fleet" "hosts_ok sample_fleet"
proof -
  have "fleet_ok sample_fleet \<and> hosts_ok sample_fleet" by code_simp
  then show "fleet_ok sample_fleet" "hosts_ok sample_fleet" by (iprover elim: conjE)+
qed

lemma snapshot_settles_fleet_witness:
  "\<exists>r \<in> set (servers (sample_applied 5 ''c1'' ''/a'' sample_fleet)).
     external_identity (sample_seen ''c1'' ''/a'') = Inr (v_external r)"
  using snapshot_settles_fleet [OF sample_snapshot sample_fleet_ok(1)] by (auto simp del: sample_fleet_defs)

text \<open>C30. Over any run of snapshots and reviews, a server's binding is pinned by its revision: two
  usable bindings of one server with the same revision are the same container with the same accepted
  fingerprint, so an operation that carries the revision it was authorized for never acts on another.\<close>

theorem revision_pins_binding:
  assumes "fleet_runs fp d d'" "fleet_ok d" "hosts_ok d"
    "resolve_binding i n d = (d1, Inr s)" "resolve_binding i n' d' = (d2, Inr s')" "sv_revision s' = sv_revision s"
  shows "sv_container s' = sv_container s \<and> sv_fingerprint s' = sv_fingerprint s \<and> sv_external s' = sv_external s"
proof -
  obtain x where x: "x \<in> set (servers d)" "v_id x = i" "s = server_of x"
    using resolve_binding_row [OF assms(4)] by blast
  obtain y where y: "y \<in> set (servers d')" "v_id y = i" "s' = server_of y" "v_container y \<noteq> None"
    using resolve_binding_row [OF assms(5)] by blast
  obtain z where z: "fleet_ok d'" "z \<in> set (servers d')" "binding_le x z"
    using fleet_runs_rows [OF assms(1-3)] x(1) by auto
  then have "z = y"
    using fleet_unique [OF z(1,2) y(1)] x(2) y(2) by (simp add: binding_le_def)
  then have "binding_le x y"
    using z(3) by simp
  then show ?thesis
    using y(4) assms(6) unfolding x(3) y(3) binding_le_def server_of_sel by simp
qed

lemma sample_step: "fleet_step sample_print (Applied ''h'' [sample_seen c m]) d (sample_applied clock c m d)"
  unfolding sample_applied_def by (rule fleet_step.Snapshot [OF surjective_pairing]) simp

lemma revision_pins_binding_witness:
  "\<exists>(s :: server) (s' :: server). sv_seen s \<noteq> sv_seen s' \<and> sv_revision s' = sv_revision s \<and> sv_container s' = sv_container s"
proof -
  let ?d = "sample_applied 5 ''c1'' ''/a'' sample_fleet"
  let ?e = "sample_applied 100000 ''c1'' ''/a'' ?d"
  let ?s = "projr (snd (resolve_binding (sample_uuid []) 1 ?d))" and ?s' = "projr (snd (resolve_binding (sample_uuid []) 1 ?e))"
  have r: "resolve_binding (sample_uuid []) 1 ?d = (?d, Inr ?s)" "resolve_binding (sample_uuid []) 1 ?e = (?e, Inr ?s')"
    "sv_revision ?s' = sv_revision ?s" "sv_seen ?s \<noteq> sv_seen ?s'" "fleet_ok ?d" "hosts_ok ?d"
  proof -
    have "resolve_binding (sample_uuid []) 1 ?d = (?d, Inr ?s) \<and> resolve_binding (sample_uuid []) 1 ?e = (?e, Inr ?s') \<and>
        sv_revision ?s' = sv_revision ?s \<and> sv_seen ?s \<noteq> sv_seen ?s' \<and> fleet_ok ?d \<and> hosts_ok ?d"
      by code_simp
    then show "resolve_binding (sample_uuid []) 1 ?d = (?d, Inr ?s)" "resolve_binding (sample_uuid []) 1 ?e = (?e, Inr ?s')"
      "sv_revision ?s' = sv_revision ?s" "sv_seen ?s \<noteq> sv_seen ?s'" "fleet_ok ?d" "hosts_ok ?d"
      by (iprover elim: conjE)+
  qed
  have "fleet_runs sample_print ?d ?e"
    by (rule fleet_runs.Go [OF fleet_runs.Stay sample_step])
  from revision_pins_binding [OF this r(5,6,1,2,3)] r(3,4) show ?thesis
    by (intro exI [of _ ?s] exI [of _ ?s']) simp
qed

text \<open>C32. An accepted fingerprint changes only by a review: whatever a step of the fleet does, a server
  with an accepted fingerprint keeps it, or the step is a review of that server that names exactly the
  new fingerprint, which was the one pending.\<close>

theorem accepted_fingerprint_needs_review:
  assumes "fleet_step fp e d d'" "fleet_ok d" "hosts_ok d"
    "x \<in> set (servers d)" "v_fingerprint x \<noteq> []" "y \<in> set (servers d')" "v_id y = v_id x"
  shows "v_fingerprint y = v_fingerprint x \<or>
    e = Reviewed (v_id x) (v_fingerprint y) \<and> v_status x = ''review_required'' \<and> v_pending x = Some (v_fingerprint y)"
proof -
  obtain f where f: "f x \<in> set (servers d')" "row_step e x (f x)" "fleet_ok d'"
    using fleet_step_rows [OF assms(1-3)] assms(4) unfolding rows_step_def by (metis Un_iff image_eqI list.set_map set_append)
  then have "f x = y"
    using fleet_unique [OF f(3,1) assms(6)] assms(7) by (auto simp: row_step_def binding_le_def)
  then show ?thesis
    using f(2) assms(5) by (auto simp: row_step_def keeps_accepted_def)
qed

lemma accepted_fingerprint_needs_review_witness:
  "\<exists>(x :: server_row) (y :: server_row). v_pending y = Some ''f/b'' \<and> v_fingerprint x = ''f/a'' \<and> v_fingerprint y = v_fingerprint x"
proof -
  let ?d = "sample_applied 5 ''c1'' ''/a'' sample_fleet"
  let ?e = "sample_applied 6 ''c2'' ''/b'' ?d"
  let ?x = "hd (servers ?d)" and ?y = "hd (servers ?e)"
  have r: "fleet_ok ?d \<and> hosts_ok ?d \<and> ?x \<in> set (servers ?d) \<and> v_fingerprint ?x \<noteq> [] \<and> ?y \<in> set (servers ?e) \<and>
      v_id ?y = v_id ?x \<and> v_pending ?y = Some ''f/b'' \<and> v_fingerprint ?x = ''f/a''"
    by code_simp
  show ?thesis
    using r
  proof (elim conjE)
    assume x: "fleet_ok ?d" "hosts_ok ?d" "?x \<in> set (servers ?d)" "v_fingerprint ?x \<noteq> []" "?y \<in> set (servers ?e)" "v_id ?y = v_id ?x"
      and y: "v_pending ?y = Some ''f/b''" "v_fingerprint ?x = ''f/a''"
    from accepted_fingerprint_needs_review [OF sample_step x] y show ?thesis
      by (intro exI [of _ ?x] exI [of _ ?y]) simp
  qed
qed

text \<open>A review commits only for a signed-in administrator, only for the exact fingerprint (and
  revision) that is pending on a bound server under review, and then makes that binding the accepted
  one under the next revision, with one accepted record of it; nothing else changes.\<close>

theorem review_accepts_exact_pending:
  assumes "review_binding now admin token i expected revision d = (d', Inr v)"
  shows "session_valid admin token now d \<and> (\<exists>u. find_user_by_id admin d = Some u \<and> u_role u = ''admin'') \<and>
    review_accepts i expected revision now d d'"
  using review_binding_cases [OF assms] review_commit by auto

lemma review_accepts_exact_pending_witness:
  "\<exists>d d'. review_accepts (sample_uuid []) ''f/b'' 2 7 d d' \<and>
     map v_fingerprint (servers d) = [''f/a''] \<and> map v_fingerprint (servers d') = [''f/b'']"
proof -
  let ?d = "sample_applied 6 ''c2'' ''/b'' (sample_applied 5 ''c1'' ''/a'' sample_fleet)"
  let ?r = "review_binding 7 ''a'' ''t'' (sample_uuid []) ''f/b'' 2 ?d"
  have r: "\<not> isl (snd ?r) \<and> map v_fingerprint (servers ?d) = [''f/a''] \<and> map v_fingerprint (servers (fst ?r)) = [''f/b'']"
    by code_simp
  then obtain v where "?r = (fst ?r, Inr v)"
    by (metis isl_def prod.collapse sum.exhaust_sel sum.collapse(2))
  from review_accepts_exact_pending [OF this] r show ?thesis
    by (intro exI [of _ ?d] exI [of _ "fst ?r"]) simp
qed

end
