(* ===== verification/Json.thy ===== *)
theory Json
  imports Database Utf8
begin

text \<open>
  \<open>encoding/json\<close> as the stored columns use it: reading a document into \<open>any\<close> and writing
  strings. The nesting limit is Go's; a number that no \<open>float64\<close> holds is an error.
\<close>

section \<open>Reading\<close>

definition quote :: char where
  "quote = CHR 0x22"

definition backslash :: char where
  "backslash = CHR 0x5C"

definition json_space :: "char \<Rightarrow> bool" where
  "json_space c \<longleftrightarrow> c = CHR '' '' \<or> c = CHR 0x09 \<or> c = CHR 0x0A \<or> c = CHR 0x0D"

definition skip_space :: "string \<Rightarrow> string" where
  "skip_space s = dropWhile json_space s"

definition hex_value :: "char \<Rightarrow> nat option" where
  "hex_value c =
     (if is_digit c then Some (byte c - 48)
      else if between 97 102 c then Some (byte c - 87)
      else if between 65 70 c then Some (byte c - 55) else None)"

definition hex4 :: "string \<Rightarrow> (nat \<times> string) option" where
  "hex4 s =
     (case s of
        a # b # c # d # t \<Rightarrow>
          (case (hex_value a, hex_value b, hex_value c, hex_value d) of
             (Some a, Some b, Some c, Some d) \<Rightarrow> Some (4096 * a + 256 * b + 16 * c + d, t)
           | _ \<Rightarrow> None)
      | _ \<Rightarrow> None)"

definition encode_rune :: "nat \<Rightarrow> string" where
  "encode_rune n =
     (if n < 0x80 then [char_of n]
      else if n < 0x800 then [char_of (0xC0 + n div 64), char_of (0x80 + n mod 64)]
      else if n < 0x10000 then [char_of (0xE0 + n div 4096), char_of (0x80 + n div 64 mod 64), char_of (0x80 + n mod 64)]
      else [char_of (0xF0 + n div 262144), char_of (0x80 + n div 4096 mod 64), char_of (0x80 + n div 64 mod 64), char_of (0x80 + n mod 64)])"

definition simple_escape :: "char \<Rightarrow> string option" where
  "simple_escape c =
     (if c = quote \<or> c = backslash \<or> c = CHR ''/'' then Some [c]
      else map_of [(CHR ''b'', [CHR 0x08]), (CHR ''f'', [CHR 0x0C]), (CHR ''n'', [CHR 0x0A]),
        (CHR ''r'', [CHR 0x0D]), (CHR ''t'', [CHR 0x09])] c)"

text \<open>The code point of \<open>\u\<close>: a surrogate without its other half is U+FFFD.\<close>

definition unicode_escape :: "string \<Rightarrow> (string \<times> string) option" where
  "unicode_escape s =
     (case hex4 s of
        None \<Rightarrow> None
      | Some (n, t) \<Rightarrow>
          if 0xD800 \<le> n \<and> n < 0xDC00 then
            (case (if take 2 t = [backslash, CHR ''u''] then hex4 (drop 2 t) else None) of
               Some (m, t') \<Rightarrow>
                 if 0xDC00 \<le> m \<and> m < 0xE000 then Some (encode_rune (0x10000 + (n - 0xD800) * 1024 + (m - 0xDC00)), t')
                 else Some (replacement, t)
             | None \<Rightarrow> Some (replacement, t))
          else if 0xDC00 \<le> n \<and> n < 0xE000 then Some (replacement, t)
          else Some (encode_rune n, t))"

lemma hex4_shorter: "hex4 s = Some (n, t) \<Longrightarrow> length t < length s"
  by (auto simp: hex4_def split: list.splits option.splits)

lemma unicode_escape_shorter: "unicode_escape s = Some (r, t) \<Longrightarrow> length t < length s"
proof (cases "hex4 s")
  case (Some p)
  assume "unicode_escape s = Some (r, t)"
  then show ?thesis
    using Some by (cases p) (auto simp: unicode_escape_def dest!: hex4_shorter split: if_splits option.splits)
qed (simp add: unicode_escape_def)

text \<open>The body of a string literal after its opening quote, and the rest.\<close>

function scan_string :: "string \<Rightarrow> (string \<times> string) option" where
  "scan_string [] = None"
| "scan_string (c # s) =
     (if c = quote then Some ([], s)
      else if byte c < 32 then None
      else if c \<noteq> backslash then map_option (\<lambda>(x, t). (c # x, t)) (scan_string s)
      else
        (case s of
           [] \<Rightarrow> None
         | e # t \<Rightarrow>
             (case (if e = CHR ''u'' then unicode_escape t else map_option (\<lambda>r. (r, t)) (simple_escape e)) of
                None \<Rightarrow> None
              | Some (r, t') \<Rightarrow> map_option (\<lambda>(x, u). (r @ x, u)) (scan_string t'))))"
  by pat_completeness auto
termination
  by (relation "measure length") (auto dest!: unicode_escape_shorter split: if_splits)

text \<open>A number: its text, its digits as an integer, its decimal exponent.\<close>

definition digits :: "string \<Rightarrow> string \<times> string" where
  "digits s = (takeWhile is_digit s, dropWhile is_digit s)"

text \<open>What rounds to no finite \<open>float64\<close>.\<close>

definition float_top :: nat where
  "float_top = 2 ^ 1024 - 2 ^ 970"

definition scan_number :: "string \<Rightarrow> (string \<times> string) option" where
  "scan_number s =
     (let t = trim_prefix s ''-''; (whole, t) = digits t in
      if whole = [] then None
      else
        (let (whole, t) = (if hd whole = CHR ''0'' then (''0'', tl whole @ t) else (whole, t));
             (frac, u) = (if has_prefix t ''.'' then digits (tl t) else ([], t))
         in if has_prefix t ''.'' \<and> frac = [] then None
            else
              (let e = (u \<noteq> [] \<and> (hd u = CHR ''e'' \<or> hd u = CHR ''E''));
                   signed = (tl u \<noteq> [] \<and> (hd (tl u) = CHR ''+'' \<or> hd (tl u) = CHR ''-''));
                   (ex, v) = (if e then digits (if signed then tl (tl u) else tl u) else ([], u));
                   power = (if e \<and> signed \<and> hd (tl u) = CHR ''-'' then - int (parse_nat 10 ex) else int (parse_nat 10 ex))
                     - int (length frac);
                   m = parse_nat 10 (whole @ frac)
               in if e \<and> ex = [] then None
                  else if m * 10 ^ nat power \<ge> float_top * 10 ^ nat (- power) then None
                  else Some (take (length s - length v) s, v))))"

definition max_depth :: nat where
  "max_depth = 10000"

text \<open>Each step consumes a character, so the length of the document is fuel enough.\<close>

fun parse_value :: "nat \<Rightarrow> nat \<Rightarrow> string \<Rightarrow> (json \<times> string) option"
  and parse_items :: "nat \<Rightarrow> nat \<Rightarrow> string \<Rightarrow> (json list \<times> string) option"
  and parse_members :: "nat \<Rightarrow> nat \<Rightarrow> string \<Rightarrow> ((string \<times> json) list \<times> string) option" where
  "parse_value 0 depth s = None"
| "parse_value (Suc n) depth s =
     (case skip_space s of
        [] \<Rightarrow> None
      | c # t \<Rightarrow>
          if c = quote then map_option (\<lambda>(x, u). (JStr x, u)) (scan_string t)
          else if c = CHR ''['' then
            (if depth = 0 then None
             else if has_prefix (skip_space t) '']'' then Some (JArr [], tl (skip_space t))
             else map_option (\<lambda>(xs, u). (JArr xs, u)) (parse_items n (depth - 1) t))
          else if c = CHR ''{'' then
            (if depth = 0 then None
             else if has_prefix (skip_space t) ''}'' then Some (JObj [], tl (skip_space t))
             else map_option (\<lambda>(xs, u). (JObj xs, u)) (parse_members n (depth - 1) t))
          else if has_prefix (c # t) ''null'' then Some (JNull, drop 3 t)
          else if has_prefix (c # t) ''true'' then Some (JBool True, drop 3 t)
          else if has_prefix (c # t) ''false'' then Some (JBool False, drop 4 t)
          else map_option (\<lambda>(x, u). (JNum x, u)) (scan_number (c # t)))"
| "parse_items 0 depth s = None"
| "parse_items (Suc n) depth s =
     (case parse_value n depth s of
        None \<Rightarrow> None
      | Some (x, t) \<Rightarrow>
          (case skip_space t of
             [] \<Rightarrow> None
           | c # u \<Rightarrow>
               if c = CHR '']'' then Some ([x], u)
               else if c = CHR '','' then map_option (\<lambda>(xs, v). (x # xs, v)) (parse_items n depth u)
               else None))"
| "parse_members 0 depth s = None"
| "parse_members (Suc n) depth s =
     (case skip_space s of
        [] \<Rightarrow> None
      | q # t \<Rightarrow>
          if q \<noteq> quote then None
          else
            (case scan_string t of
               None \<Rightarrow> None
             | Some (key, u) \<Rightarrow>
                 if \<not> has_prefix (skip_space u) '':'' then None
                 else
                   (case parse_value n depth (tl (skip_space u)) of
                      None \<Rightarrow> None
                    | Some (x, v) \<Rightarrow>
                        (case skip_space v of
                           [] \<Rightarrow> None
                         | c # w \<Rightarrow>
                             if c = CHR ''}'' then Some ([(key, x)], w)
                             else if c = CHR '','' then map_option (\<lambda>(xs, y). ((key, x) # xs, y)) (parse_members n depth w)
                             else None))))"

declare parse_value.simps [simp del] parse_items.simps [simp del] parse_members.simps [simp del]

text \<open>A byte that begins no rune is read as U+FFFD, inside a string; elsewhere both are errors.\<close>

definition fix_utf8 :: "string \<Rightarrow> string" where
  "fix_utf8 s = concat (map (\<lambda>(r, _). case r of None \<Rightarrow> replacement | Some r \<Rightarrow> r) (runes s))"

definition parse_json :: "string \<Rightarrow> json option" where
  "parse_json s =
     (case parse_value (2 * length (fix_utf8 s) + 2) max_depth (fix_utf8 s) of
        None \<Rightarrow> None
      | Some (x, t) \<Rightarrow> if skip_space t = [] then Some x else None)"

section \<open>Writing\<close>

definition hex_small :: "nat \<Rightarrow> char" where
  "hex_small n = (if n < 10 then char_of (48 + n) else char_of (87 + n))"

text \<open>One rune of a string, with the escapes for HTML and U+2028/9 that \<open>json.Marshal\<close> writes.\<close>

definition json_rune :: "string option \<times> string \<Rightarrow> string" where
  "json_rune p =
     (case p of
        (None, _) \<Rightarrow> backslash # ''ufffd''
      | (Some r, _) \<Rightarrow>
          if r = [quote] \<or> r = [backslash] then backslash # r
          else if r = [CHR 0x08] then backslash # ''b''
          else if r = [CHR 0x0C] then backslash # ''f''
          else if r = [CHR 0x0A] then backslash # ''n''
          else if r = [CHR 0x0D] then backslash # ''r''
          else if r = [CHR 0x09] then backslash # ''t''
          else if length r = 1 \<and> (byte (hd r) < 32 \<or> r \<in> {''<'', ''>'', ''&''})
          then backslash # ''u00'' @ [hex_small (byte (hd r) div 16), hex_small (byte (hd r) mod 16)]
          else if r = [CHR 0xE2, CHR 0x80, CHR 0xA8] then backslash # ''u2028''
          else if r = [CHR 0xE2, CHR 0x80, CHR 0xA9] then backslash # ''u2029''
          else r)"

definition json_string :: "string \<Rightarrow> string" where
  "json_string s = quote # concat (map json_rune (runes s)) @ [quote]"

definition json_strings :: "string list \<Rightarrow> string" where
  "json_strings xs = ''['' @ join_with '','' (map json_string xs) @ '']''"

section \<open>Strings that need no escape\<close>

definition plain_char :: "char \<Rightarrow> bool" where
  "plain_char c \<longleftrightarrow> 32 \<le> byte c \<and> byte c < 128 \<and> c \<notin> {quote, backslash, CHR ''<'', CHR ''>'', CHR ''&''}"

definition plain :: "string \<Rightarrow> bool" where
  "plain s \<longleftrightarrow> list_all plain_char s"

lemma byte_quote [simp]: "byte quote = 34"
  by (simp add: byte_def quote_def)

lemma byte_brackets [simp]: "byte (CHR ''['') = 91" "byte (CHR '']'') = 93" "byte (CHR '','') = 44"
  by (simp_all add: byte_def)

lemma quote_other [simp]: "CHR ''['' \<noteq> quote" "CHR '']'' \<noteq> quote" "CHR '','' \<noteq> quote"
  by (simp_all add: quote_def)

lemma plain_rune: "plain_char c \<Longrightarrow> json_rune (Some [c], [c]) = [c]"
proof -
  assume p: "plain_char c"
  have low: "byte (CHR 0x08) = 8" "byte (CHR 0x0C) = 12" "byte (CHR 0x0A) = 10" "byte (CHR 0x0D) = 13" "byte (CHR 0x09) = 9"
    by (simp_all add: byte_def)
  have "c \<noteq> CHR 0x08" "c \<noteq> CHR 0x0C" "c \<noteq> CHR 0x0A" "c \<noteq> CHR 0x0D" "c \<noteq> CHR 0x09"
    using p low by (auto simp only: plain_char_def)
  moreover have "\<not> byte c < 32" "c \<noteq> quote" "c \<noteq> backslash" "c \<notin> {CHR ''<'', CHR ''>'', CHR ''&''}"
    using p by (auto simp: plain_char_def)
  ultimately show ?thesis
    by (simp add: json_rune_def)
qed

lemma runes_plain: "plain s \<Longrightarrow> runes s = map (\<lambda>c. (Some [c], [c])) s"
  by (induction s) (auto simp: plain_def plain_char_def runes_ascii)

lemma json_string_plain: "plain s \<Longrightarrow> json_string s = quote # s @ [quote]"
proof -
  assume p: "plain s"
  then have "concat (map json_rune (map (\<lambda>c. (Some [c], [c])) s)) = s"
    by (induction s) (auto simp: plain_def plain_rune)
  then show ?thesis
    using p by (simp add: json_string_def runes_plain)
qed

lemma scan_string_plain: "plain s \<Longrightarrow> scan_string (s @ quote # t) = Some (s, t)"
  by (induction s) (auto simp: plain_def plain_char_def)

lemma skip_space_simps [simp]:
  "skip_space (quote # s) = quote # s" "skip_space (CHR ''['' # s) = CHR ''['' # s" "skip_space (CHR '']'' # s) = CHR '']'' # s"
  "skip_space (CHR '','' # s) = CHR '','' # s" "skip_space [] = []"
  by (simp_all add: skip_space_def json_space_def quote_def)

lemma join_Cons: "join_with sep (x # xs) = x @ (if xs = [] then [] else sep @ join_with sep xs)"
  by (cases xs) simp_all

lemma parse_items_plain:
  "list_all plain xs \<Longrightarrow> xs \<noteq> [] \<Longrightarrow> length xs < n \<Longrightarrow>
     parse_items n depth (join_with '','' (map json_string xs) @ CHR '']'' # t) = Some (map JStr xs, t)"
proof (induction xs arbitrary: n)
  case (Cons x xs)
  obtain m where n: "n = Suc (Suc m)"
    using Cons.prems(3) that by (cases n; cases "n - 1") auto
  have "parse_value (Suc m) depth (json_string x @ u) = Some (JStr x, u)" for u
    using Cons.prems(1) by (simp add: json_string_plain scan_string_plain parse_value.simps)
  moreover have "parse_items (Suc m) depth (join_with '','' (map json_string xs) @ CHR '']'' # t) = Some (map JStr xs, t)"
    if "xs \<noteq> []"
    using Cons.IH [of "Suc m"] Cons.prems that n by simp
  ultimately show ?case
    unfolding n parse_items.simps by (cases "xs = []") (simp_all add: join_Cons)
qed simp

lemma fix_utf8_ascii: "list_all (\<lambda>c. byte c < 128) s \<Longrightarrow> fix_utf8 s = s"
  by (induction s) (simp_all add: fix_utf8_def runes_ascii)

lemma join_length: "length xs \<le> length (join_with '','' (map json_string xs))"
  by (induction xs) (auto simp: join_Cons json_string_def)

lemma join_ascii: "list_all plain xs \<Longrightarrow> list_all (\<lambda>c. byte c < 128) (join_with '','' (map json_string xs))"
proof (induction xs)
  case (Cons x xs)
  then have "list_all (\<lambda>c. byte c < 128) (json_string x)"
    by (simp add: json_string_plain list_all_iff plain_def plain_char_def)
  with Cons show ?case
    by (auto simp: join_Cons byte_def)
qed simp

lemma parse_json_strings: "list_all plain xs \<Longrightarrow> parse_json (json_strings xs) = Some (JArr (map JStr xs))"
proof (cases "xs = []")
  case True
  then show ?thesis
    by (simp only:) code_simp
next
  case False
  assume p: "list_all plain xs"
  let ?j = "join_with '','' (map json_string xs)"
  have "fix_utf8 (json_strings xs) = json_strings xs"
    using join_ascii [OF p] by (intro fix_utf8_ascii) (simp add: json_strings_def byte_def)
  moreover have "\<not> has_prefix (skip_space (?j @ '']'')) '']''"
    using False p by (cases xs) (auto simp: join_Cons json_string_plain has_prefix_def quote_def skip_space_def json_space_def)
  moreover have "parse_items (2 * length (json_strings xs) + 1) (max_depth - 1) (?j @ '']'') = Some (map JStr xs, [])"
    using parse_items_plain [OF p False, of _ _ "[]"] join_length [of xs] by (simp add: json_strings_def)
  ultimately show ?thesis
    unfolding parse_json_def by (simp add: json_strings_def max_depth_def parse_value.simps)
qed

end
