(* ===== verification/Authz.thy ===== *)
theory Authz
  imports Bindings Json
begin

text \<open>
  What an account may do with a server: \<open>src/internal/authz/authz.go\<close>. A capability is its
  name, as in the source. A failure to write the audit entry of a denial is only logged.
\<close>

section \<open>Capabilities and roles\<close>

type_synonym capability = string

abbreviation server_view :: capability where
  "server_view \<equiv> ''server.view''"

abbreviation files_read :: capability where
  "files_read \<equiv> ''files.read''"

abbreviation files_write :: capability where
  "files_write \<equiv> ''files.write''"

definition all_capabilities :: "capability list" where
  "all_capabilities =
     [''server.view'', ''server.start'', ''server.stop'', ''server.restart'', ''logs.read'', ''console.execute'', ''files.read'',
      ''files.write'', ''backups.create'', ''schedules.manage'', ''server.update'', ''server.recreate'', ''backups.restore'',
      ''backups.read'', ''backups.delete'', ''console.shell'']"

definition read_capabilities :: "capability list" where
  "read_capabilities = [''server.view'', ''logs.read'', ''files.read'']"

definition operator_capabilities :: "capability list" where
  "operator_capabilities = read_capabilities @
     [''server.start'', ''server.stop'', ''server.restart'', ''console.execute'', ''files.write'', ''backups.create'', ''schedules.manage'']"

text \<open>The capabilities of a list, in display order.\<close>

definition in_order :: "capability list \<Rightarrow> capability list" where
  "in_order cs = filter (\<lambda>c. c \<in> set cs) all_capabilities"

definition role_ceiling :: "string \<Rightarrow> capability list" where
  "role_ceiling role =
     (if role = ''admin'' then all_capabilities
      else if role = ''operator'' then in_order operator_capabilities else in_order read_capabilities)"

section \<open>Actors\<close>

definition current_actor :: "session_user option \<Rightarrow> session_user option db_op" where
  "current_actor actor =
     (case actor of
        None \<Rightarrow> done_with None
      | Some a \<Rightarrow>
          and_then (reads (find_user_by_id (su_id a))) (\<lambda>row.
            (case row of
               None \<Rightarrow> done_with None
             | Some u \<Rightarrow>
                 if user_disabled u then done_with None
                 else done_with (Some \<lparr>su_id = u_id u, su_name = u_name u, su_role = u_role u\<rparr>))))"

definition not_admin :: db_error where
  "not_admin = PublicError ''FORBIDDEN'' 403"

definition mutation_error :: "db_error \<Rightarrow> db_error" where
  "mutation_error e =
     (case e of
        SessionGone \<Rightarrow> PublicError ''AUTHENTICATION_REQUIRED'' 401
      | NotAdmin \<Rightarrow> not_admin
      | _ \<Rightarrow> e)"

definition assert_administrator :: "session_user option \<Rightarrow> session_user db_op" where
  "assert_administrator actor =
     and_then (current_actor actor) (\<lambda>current.
       (case current of
          None \<Rightarrow> fail_with not_admin
        | Some a \<Rightarrow> if su_role a \<noteq> ''admin'' then fail_with not_admin else done_with a))"

section \<open>Grants\<close>

definition parse_capabilities :: "string \<Rightarrow> capability list" where
  "parse_capabilities v =
     (case parse_json v of
        Some (JArr xs) \<Rightarrow> filter (\<lambda>c. JStr c \<in> set xs) all_capabilities
      | _ \<Rightarrow> [])"

definition encode_capabilities :: "capability list \<Rightarrow> string" where
  "encode_capabilities cs = json_strings cs"

record grant =
  gr_server :: string
  gr_caps :: "capability list"
  gr_updated :: int

definition user_grants :: "string \<Rightarrow> database \<Rightarrow> grant list" where
  "user_grants user d =
     map (\<lambda>g. \<lparr>gr_server = g_server g, gr_caps = parse_capabilities (g_caps g), gr_updated = g_updated g\<rparr>)
       (sort_key g_server (filter (\<lambda>g. g_user g = user) (grants d)))"

definition find_grant :: "string \<Rightarrow> string \<Rightarrow> database \<Rightarrow> grant_row option" where
  "find_grant user server d = find (\<lambda>g. g_user g = user \<and> g_server g = server) (grants d)"

definition user_grant :: "string \<Rightarrow> string \<Rightarrow> database \<Rightarrow> grant option" where
  "user_grant user server d =
     map_option (\<lambda>g. \<lparr>gr_server = server, gr_caps = parse_capabilities (g_caps g), gr_updated = g_updated g\<rparr>)
       (find_grant user server d)"

section \<open>Access\<close>

definition usable :: "server \<Rightarrow> bool" where
  "usable s \<longleftrightarrow> sv_status s = ''active'' \<and> \<not> sv_review s"

definition role_capabilities :: "string \<Rightarrow> server \<Rightarrow> capability list \<Rightarrow> capability list" where
  "role_capabilities role s assigned =
     (if role = ''admin'' then (if usable s then all_capabilities else [server_view])
      else if \<not> usable s \<or> server_view \<notin> set assigned then []
      else filter (\<lambda>c. c \<in> set assigned \<and> \<not> (c = files_write \<and> files_read \<notin> set assigned)) (role_ceiling role))"

text \<open>\<open>Access\<close>: the one query joins the server with the actor's account and grant.\<close>

definition access :: "session_user option \<Rightarrow> string \<Rightarrow> (capability list \<times> server option) db_op" where
  "access actor i =
     (case actor of
        None \<Rightarrow> done_with ([], None)
      | Some a \<Rightarrow>
          and_then (get_server i) (\<lambda>found.
            (case found of
               None \<Rightarrow> done_with ([], None)
             | Some s \<Rightarrow>
                 reads (\<lambda>d.
                   (case find_user_by_id (su_id a) d of
                      None \<Rightarrow> ([], Some s)
                    | Some u \<Rightarrow>
                        if u_disabled u \<noteq> 0 then ([], Some s)
                        else (role_capabilities (u_role u) s
                          (case find_grant (u_id u) i d of None \<Rightarrow> [] | Some g \<Rightarrow> parse_capabilities (g_caps g)), Some s))))))"

definition effective :: "session_user option \<Rightarrow> string \<Rightarrow> capability list db_op" where
  "effective actor i = and_then (access actor i) (\<lambda>(caps, _). done_with caps)"

text \<open>The maps of the source, later entries over earlier ones.\<close>

definition assigned_map :: "string \<Rightarrow> database \<Rightarrow> string \<Rightarrow> capability list" where
  "assigned_map user d i =
     (case map_of (rev (map (\<lambda>g. (g_server g, parse_capabilities (g_caps g))) (filter (\<lambda>g. g_user g = user) (grants d)))) i of
        None \<Rightarrow> [] | Some cs \<Rightarrow> cs)"

definition effective_all ::
    "session_user option \<Rightarrow> server list \<Rightarrow> (session_user \<times> (string \<rightharpoonup> capability list)) option db_op" where
  "effective_all actor ss =
     and_then (current_actor actor) (\<lambda>current.
       (case current of
          None \<Rightarrow> done_with None
        | Some u \<Rightarrow>
            and_then (reads (\<lambda>d. if su_role u \<noteq> ''admin'' then assigned_map (su_id u) d else (\<lambda>_. []))) (\<lambda>assigned.
            done_with (Some (u, map_of (rev (map (\<lambda>s. (sv_id s, role_capabilities (su_role u) s (assigned (sv_id s)))) ss)))))))"

definition has :: "session_user option \<Rightarrow> string \<Rightarrow> capability \<Rightarrow> bool db_op" where
  "has actor i c = and_then (effective actor i) (\<lambda>caps. done_with (c \<in> set caps))"

section \<open>Denials\<close>

definition server_not_found :: db_error where
  "server_not_found = PublicError ''SERVER_NOT_FOUND'' 404"

definition log_failure :: "unit db_op \<Rightarrow> unit db_op" where
  "log_failure m d = (fst (m d), Inr ())"

definition audit_denial :: "int \<Rightarrow> session_user option \<Rightarrow> string \<Rightarrow> capability \<Rightarrow> unit db_op" where
  "audit_denial now actor i c =
     (if c \<in> set read_capabilities then done_with ()
      else and_then (current_actor actor) (\<lambda>current.
        log_failure (write_audit now False
          \<lparr>e_user = (case current of None \<Rightarrow> [] | Some a \<Rightarrow> su_id a), e_action = ''authorization.denied'', e_type = ''server'',
           e_target = i, e_details = Some (JObj [(''capability'', JStr c)]), e_ip = []\<rparr>)))"

definition assert_capability :: "int \<Rightarrow> session_user option \<Rightarrow> string \<Rightarrow> capability \<Rightarrow> server option db_op" where
  "assert_capability now actor i c =
     and_then (access actor i) (\<lambda>(caps, s).
       if server_view \<notin> set caps then and_then (audit_denial now actor i c) (\<lambda>_. fail_with server_not_found)
       else if c \<notin> set caps then and_then (audit_denial now actor i c) (\<lambda>_. fail_with not_admin)
       else done_with s)"

section \<open>Assigning grants\<close>

definition invalid_grant :: db_error where
  "invalid_grant = PublicError ''INVALID_GRANT'' 400"

definition validate_grant :: "string \<Rightarrow> string \<times> capability list \<Rightarrow> capability list db_op" where
  "validate_grant role input =
     (case input of (i, wanted) \<Rightarrow>
        and_then (reads (\<lambda>d. \<exists>r \<in> set (servers d). v_id r = i)) (\<lambda>exists.
        and_then (check_that exists server_not_found) (\<lambda>_.
        and_then (check_that (list_all (\<lambda>c. c \<in> set (role_ceiling role)) wanted) invalid_grant) (\<lambda>_.
          let caps = in_order wanted
          in and_then (check_that (\<not> (caps \<noteq> [] \<and> server_view \<notin> set caps)) invalid_grant) (\<lambda>_.
             and_then (check_that (\<not> (files_write \<in> set caps \<and> files_read \<notin> set caps)) invalid_grant) (\<lambda>_.
             done_with caps))))))"

fun validate_all :: "string \<Rightarrow> (string \<times> capability list) list \<Rightarrow> (string \<times> capability list) list db_op" where
  "validate_all role [] = done_with []"
| "validate_all role (x # xs) =
     and_then (validate_grant role x) (\<lambda>caps.
     and_then (validate_all role xs) (\<lambda>rest. done_with ((fst x, caps) # rest)))"

definition insert_grant :: "grant_row \<Rightarrow> unit db_op" where
  "insert_grant g d =
     (if \<exists>h \<in> set (grants d). g_user h = g_user g \<and> g_server h = g_server g then (d, Inl UniqueViolation)
      else if \<not> user_exists d (g_user g) \<or> \<not> (\<exists>r \<in> set (servers d). v_id r = g_server g) then (d, Inl ConstraintViolation)
      else (d\<lparr>grants := grants d @ [g]\<rparr>, Inr ()))"

definition grants_json :: "(string \<times> capability list) list \<Rightarrow> json" where
  "grants_json gs = JObj [(''grants'', JArr (map (\<lambda>(i, cs).
     JObj [(''serverId'', JStr i), (''capabilities'', JArr (map JStr cs))]) gs))]"

definition replace_grants ::
    "int \<Rightarrow> session_user \<Rightarrow> string \<Rightarrow> (string \<times> capability list) list \<Rightarrow> unit db_op" where
  "replace_grants now administrator user inputs =
     and_then (reads (find_user_by_id user)) (\<lambda>row.
       (case row of
          None \<Rightarrow> fail_with (PublicError ''USER_NOT_FOUND'' 404)
        | Some u \<Rightarrow>
            if u_role u = ''admin'' then fail_with invalid_grant
            else
              and_then (validate_all (u_role u) inputs) (\<lambda>gs.
              and_then (writes (\<lambda>d. d\<lparr>grants := filter (\<lambda>g. g_user g \<noteq> user) (grants d)\<rparr>)) (\<lambda>_.
              and_then (each (\<lambda>(i, cs). if cs = [] then done_with ()
                  else insert_grant \<lparr>g_user = user, g_server = i, g_caps = encode_capabilities cs, g_updated = now\<rparr>) gs) (\<lambda>_.
              write_audit now True \<lparr>e_user = su_id administrator, e_action = ''users.server_grants.updated'', e_type = ''user'',
                e_target = user, e_details = Some (grants_json gs), e_ip = []\<rparr>)))))"

definition max_assignments :: nat where
  "max_assignments = 1000"

definition set_user_grants ::
    "int \<Rightarrow> string \<Rightarrow> (string \<times> capability list) list \<Rightarrow> session_user option \<Rightarrow> string \<Rightarrow> grant list db_op" where
  "set_user_grants now user inputs actor token =
     and_then (assert_administrator actor) (\<lambda>administrator.
     and_then (check_that (length inputs \<le> max_assignments) invalid_grant) (\<lambda>_.
     and_then (check_that (distinct (map fst inputs)) invalid_grant) (\<lambda>_.
     and_then (map_failure mutation_error (admin_mutation (su_id administrator) token now
         (replace_grants now administrator user inputs))) (\<lambda>_.
     and_then prune_audit_if_needed (\<lambda>_.
     reads (user_grants user))))))"

section \<open>What an actor may do\<close>

definition allowed :: "database \<Rightarrow> session_user \<Rightarrow> server \<Rightarrow> capability \<Rightarrow> bool" where
  "allowed d a s c \<longleftrightarrow>
     (case find_user_by_id (su_id a) d of
        None \<Rightarrow> False
      | Some u \<Rightarrow>
          u_disabled u = 0 \<and> c \<in> set (role_ceiling (u_role u)) \<and>
          (if u_role u = ''admin'' then usable s \<or> c = server_view
           else usable s \<and>
             (case find_grant (u_id u) (sv_id s) d of
                None \<Rightarrow> False
              | Some g \<Rightarrow> {server_view, c} \<subseteq> set (parse_capabilities (g_caps g)) \<and>
                  (c = files_write \<longrightarrow> files_read \<in> set (parse_capabilities (g_caps g))))))"

lemma view_in_ceiling: "server_view \<in> set (role_ceiling role)"
  by (simp add: role_ceiling_def in_order_def all_capabilities_def operator_capabilities_def read_capabilities_def)

lemma role_capabilities_set:
  "c \<in> set (role_capabilities role s assigned) \<longleftrightarrow>
     c \<in> set (role_ceiling role) \<and>
     (if role = ''admin'' then usable s \<or> c = server_view
      else usable s \<and> {server_view, c} \<subseteq> set assigned \<and> (c = files_write \<longrightarrow> files_read \<in> set assigned))"
proof (cases "role = ''admin''")
  case True
  then show ?thesis
    using view_in_ceiling [of role] by (auto simp: role_capabilities_def role_ceiling_def)
next
  case False
  then show ?thesis
    by (auto simp: role_capabilities_def)
qed

lemma access_Inr:
  assumes "access (Some a) i d = (d', Inr (caps, Some s))"
  shows "d' = d \<and> get_server i d = (d, Inr (Some s)) \<and>
    caps = (case find_user_by_id (su_id a) d of
        None \<Rightarrow> []
      | Some u \<Rightarrow> if u_disabled u \<noteq> 0 then []
          else role_capabilities (u_role u) s
            (case find_grant (u_id u) i d of None \<Rightarrow> [] | Some g \<Rightarrow> parse_capabilities (g_caps g)))"
proof -
  obtain found where f: "get_server i d = (d, Inr found)"
    "(case found of
        None \<Rightarrow> done_with ([], None)
      | Some s \<Rightarrow> reads (\<lambda>d. (case find_user_by_id (su_id a) d of
            None \<Rightarrow> ([], Some s)
          | Some u \<Rightarrow> if u_disabled u \<noteq> 0 then ([], Some s)
              else (role_capabilities (u_role u) s
                (case find_grant (u_id u) i d of None \<Rightarrow> [] | Some g \<Rightarrow> parse_capabilities (g_caps g)), Some s)))) d
      = (d', Inr (caps, Some s))"
    using assms get_server_same unfolding access_def option.case and_then_Inr by (metis (no_types, lifting))
  then show ?thesis
    by (cases found) (auto split: option.splits if_splits)
qed

text \<open>C35. \<open>Access\<close> gives an actor exactly what the current tables allow: an enabled account, nothing
  over the ceiling of its current role, nothing without a usable binding but an administrator's view,
  and for others only what the grant on that very server lists, and that only with its prerequisites.\<close>

theorem access_exactly_allowed:
  assumes "access (Some a) i d = (d', Inr (caps, Some s))"
  shows "c \<in> set caps \<longleftrightarrow> allowed d a s c"
proof -
  have g: "get_server i d = (d, Inr (Some s))" and caps: "caps = (case find_user_by_id (su_id a) d of
        None \<Rightarrow> []
      | Some u \<Rightarrow> if u_disabled u \<noteq> 0 then []
          else role_capabilities (u_role u) s
            (case find_grant (u_id u) i d of None \<Rightarrow> [] | Some g \<Rightarrow> parse_capabilities (g_caps g)))"
    using access_Inr [OF assms] by blast+
  have "sv_id s = i"
    using get_server_Inr [OF g] by auto
  then show ?thesis
    unfolding caps allowed_def
    by (cases "find_user_by_id (su_id a) d"; cases "find_grant (u_id (the (find_user_by_id (su_id a) d))) i d")
      (simp_all add: role_capabilities_set)
qed

definition sample_user :: "string \<Rightarrow> string \<Rightarrow> user_row" where
  "sample_user i role = \<lparr>u_id = i, u_name = i, u_hash = ''x'', u_role = role, u_disabled = 0, u_created = 1, u_updated = 1\<rparr>"

definition sample_panel :: database where
  "sample_panel = sample_fleet
     \<lparr>servers := [\<lparr>v_id = sample_uuid [], v_host = ''h'', v_external = ''standalone:mc'', v_container = Some ''c1'', v_name = ''mc'',
        v_game = ''minecraft'', v_status = ''active'', v_revision = 1, v_fingerprint = ''f/a'', v_pending = None,
        v_pending_game = None, v_review = 0, v_first = 5, v_seen = 5\<rparr>],
      bindings := [\<lparr>b_id = 1, b_server = sample_uuid [], b_revision = 1, b_container = ''c1'', b_fingerprint = ''f/a'',
        b_observed = 5, b_accepted = 1\<rparr>],
      users := [sample_user ''a'' ''admin'', sample_user ''v'' ''viewer''],
      grants := [\<lparr>g_user = ''v'', g_server = sample_uuid [], g_caps = json_strings [''server.view'', ''console.shell''], g_updated = 1\<rparr>]\<rparr>"

definition sample_actor :: "string \<Rightarrow> session_user" where
  "sample_actor i = \<lparr>su_id = i, su_name = i, su_role = ''admin''\<rparr>"

lemma access_exactly_allowed_witness:
  "\<exists>s. allowed sample_panel (sample_actor ''v'') s server_view \<and> \<not> allowed sample_panel (sample_actor ''v'') s ''console.shell''"
proof -
  let ?r = "access (Some (sample_actor ''v'')) (sample_uuid []) sample_panel"
  let ?s = "the (snd (projr (snd ?r)))"
  have r: "?r = (sample_panel, Inr ([server_view], Some ?s))"
    by code_simp
  have "\<not> (server_view = ''console.shell'')"
    by simp
  then show ?thesis
    using access_exactly_allowed [OF r] by (metis empty_iff list.set(1) list.set(2) insert_iff)
qed

section \<open>One server and many\<close>

definition panel_keys :: "database \<Rightarrow> bool" where
  "panel_keys d \<longleftrightarrow> fleet_ok d \<and> distinct (map (\<lambda>g. (g_user g, g_server g)) (grants d)) \<and>
     list_all (\<lambda>u. u_disabled u = 0 \<or> u_disabled u = 1) (users d)"

lemma map_of_rev_distinct: "distinct (map fst xs) \<Longrightarrow> map_of (rev xs) = map_of xs"
  by (rule map_of_inject_set [THEN iffD2]) (simp_all add: rev_map [symmetric])

lemma find_map_of:
  "find (\<lambda>g. p g \<and> key g = k) gs = find (\<lambda>g. key g = k) (filter p gs)"
  by (induction gs) auto

lemma map_of_find: "map_of (map (\<lambda>g. (key g, f g)) gs) k = map_option f (find (\<lambda>g. key g = k) gs)"
  by (induction gs) auto

lemma assigned_map_grant:
  assumes "panel_keys d"
  shows "assigned_map user d i = (case find_grant user i d of None \<Rightarrow> [] | Some g \<Rightarrow> parse_capabilities (g_caps g))"
proof -
  have "distinct (map g_server (filter (\<lambda>g. g_user g = user) (grants d)))"
    using assms by (auto simp: panel_keys_def distinct_map inj_on_def)
  then have "distinct (map fst (map (\<lambda>g. (g_server g, parse_capabilities (g_caps g))) (filter (\<lambda>g. g_user g = user) (grants d))))"
    by (simp add: o_def)
  from map_of_rev_distinct [OF this] show ?thesis
    by (simp add: assigned_map_def map_of_find find_grant_def find_map_of [of "\<lambda>g. g_user g = user" g_server i] split: option.split)
qed

lemma get_listed_server:
  assumes "list_servers host d = (d', Inr ss)" "s \<in> set ss" "fleet_ok d"
  shows "get_server (sv_id s) d = (d, Inr (Some s))"
proof -
  have d: "d' = d" "ss = map server_of (sort_key (\<lambda>r. (to_lower (v_name r), v_id r)) (filter (\<lambda>r. host = [] \<or> v_host r = host) (servers d)))"
    using assms(1) list_servers_Inr(1) [OF assms(1)] by (auto simp: list_servers_def and_then_Inr dest: scan_all_Inr)
  obtain x where x: "x \<in> set (servers d)" "s = server_of x" "host = [] \<or> v_host x = host"
    using assms(2) d(2) by auto
  have "scan_all rs = Inr ss \<Longrightarrow> x \<in> set rs \<Longrightarrow> scan_server x = Inr (server_of x)" for rs ss
    by (induction rs arbitrary: ss) (auto simp: res_bind_Inr scan_server_def split: if_splits)
  moreover have "scan_all (sort_key (\<lambda>r. (to_lower (v_name r), v_id r)) (filter (\<lambda>r. host = [] \<or> v_host r = host) (servers d))) = Inr ss"
    using assms(1) by (auto simp: list_servers_def and_then_Inr)
  ultimately have scan: "scan_server x = Inr (server_of x)"
    using x by auto
  have "find (\<lambda>r. v_id r = v_id x) (servers d) = Some y \<Longrightarrow> y = x" for y
    using fleet_unique [OF assms(3) _ x(1), of y] by (auto simp: find_Some_iff)
  then have "find (\<lambda>r. v_id r = v_id x) (servers d) = Some x"
    using x(1) by (cases "find (\<lambda>r. v_id r = v_id x) (servers d)") (auto simp: find_None_iff)
  then show ?thesis
    using scan x(2) by (simp add: get_server_def and_then_def from_res_def)
qed

lemma find_found: "find p xs = None \<or> (\<exists>x \<in> set xs. p x \<and> find p xs = Some x)"
  by (induction xs) auto

lemma list_servers_map:
  assumes "list_servers host d = (d', Inr ss)" "s \<in> set ss" "fleet_ok d"
  shows "map_of (rev (map (\<lambda>s. (sv_id s, f s)) ss)) (sv_id s) = Some (f s)"
proof -
  have "t = s" if "t \<in> set ss" "sv_id t = sv_id s" for t
    using get_listed_server [OF assms(1) that(1) assms(3)] get_listed_server [OF assms] that(2)
    by (metis old.sum.inject(2) option.inject prod.inject)
  then have "find (\<lambda>t. sv_id t = sv_id s) (rev ss) = Some s"
    using assms(2) find_found [of "\<lambda>t. sv_id t = sv_id s" "rev ss"] by (auto simp: find_None_iff)
  then show ?thesis
    by (simp add: rev_map map_of_find)
qed

lemma current_actor_eq:
  "current_actor (Some a) d =
     (d, Inr (case find_user_by_id (su_id a) d of
        None \<Rightarrow> None
      | Some u \<Rightarrow> if user_disabled u then None else Some \<lparr>su_id = u_id u, su_name = u_name u, su_role = u_role u\<rparr>))"
  by (simp add: current_actor_def and_then_def split: option.split)

lemma find_user_props: "find_user_by_id i d = Some u \<Longrightarrow> u \<in> set (users d) \<and> u_id u = i"
  by (auto simp: find_user_by_id_def find_user_def find_Some_iff)

lemma access_eq:
  "get_server i d = (d, Inr (Some s)) \<Longrightarrow> access (Some a) i d =
     (d, Inr (case find_user_by_id (su_id a) d of
         None \<Rightarrow> ([], Some s)
       | Some u \<Rightarrow> if u_disabled u \<noteq> 0 then ([], Some s)
           else (role_capabilities (u_role u) s
             (case find_grant (u_id u) i d of None \<Rightarrow> [] | Some g \<Rightarrow> parse_capabilities (g_caps g)), Some s)))"
  by (simp add: access_def and_then_def)

lemma admin_assigned: "role_capabilities ''admin'' s assigned = role_capabilities ''admin'' s assigned'"
  by (simp add: role_capabilities_def)

text \<open>C36. \<open>EffectiveAll\<close> over a listing agrees with \<open>Access\<close> on each of its servers, though it reads
  the account and the grants once: same capabilities, and no account exactly when there is none.\<close>

theorem effective_all_agrees:
  assumes "panel_keys d" "list_servers host d = (d1, Inr ss)" "s \<in> set ss" "effective_all (Some a) ss d = (d2, Inr result)"
  shows "access (Some a) (sv_id s) d =
    (d, Inr (case result of None \<Rightarrow> [] | Some (u, m) \<Rightarrow> the (m (sv_id s)), Some s))"
proof -
  have fleet: "fleet_ok d"
    using assms(1) by (simp add: panel_keys_def)
  note got = get_listed_server [OF assms(2,3) fleet]
  show ?thesis
  proof (cases "find_user_by_id (su_id a) d")
    case None
    then show ?thesis
      using assms(4) access_eq [OF got, of a] by (simp add: effective_all_def and_then_def current_actor_eq)
  next
    case (Some u)
    then have u: "u \<in> set (users d)" "u_id u = su_id a"
      using find_user_props by blast+
    then have dis: "u_disabled u \<noteq> 0 \<longleftrightarrow> user_disabled u"
      using assms(1) by (auto simp: panel_keys_def list_all_iff user_disabled_def)
    show ?thesis
    proof (cases "user_disabled u")
      case True
      then show ?thesis
        using assms(4) access_eq [OF got, of a] Some dis by (simp add: effective_all_def and_then_def current_actor_eq)
    next
      case False
      define assigned where "assigned = (if u_role u \<noteq> ''admin'' then assigned_map (u_id u) d else (\<lambda>_. []))"
      let ?f = "\<lambda>s. role_capabilities (u_role u) s (assigned (sv_id s))"
      have r: "result = Some (\<lparr>su_id = u_id u, su_name = u_name u, su_role = u_role u\<rparr>, map_of (rev (map (\<lambda>s. (sv_id s, ?f s)) ss)))"
        using assms(4) Some False
        by (simp add: effective_all_def and_then_def current_actor_eq assigned_def split del: if_split) auto
      have "map_of (rev (map (\<lambda>s. (sv_id s, ?f s)) ss)) (sv_id s) = Some (?f s)"
        by (rule list_servers_map [OF assms(2,3) fleet])
      moreover have "?f s = role_capabilities (u_role u) s
          (case find_grant (u_id u) (sv_id s) d of None \<Rightarrow> [] | Some g \<Rightarrow> parse_capabilities (g_caps g))"
        using assigned_map_grant [OF assms(1)] admin_assigned by (cases "u_role u = ''admin''") (auto simp: assigned_def)
      ultimately show ?thesis
        using access_eq [OF got, of a] Some False dis r by simp
    qed
  qed
qed

definition sample_listed :: "server list" where
  "sample_listed = projr (snd (list_servers [] sample_panel))"

definition sample_effective :: "(session_user \<times> (string \<rightharpoonup> capability list)) option" where
  "sample_effective = projr (snd (effective_all (Some (sample_actor ''v'')) sample_listed sample_panel))"

lemma sample_listing:
  "panel_keys sample_panel" "list_servers [] sample_panel = (sample_panel, Inr sample_listed)" "hd sample_listed \<in> set sample_listed"
proof -
  have "panel_keys sample_panel \<and> list_servers [] sample_panel = (sample_panel, Inr sample_listed) \<and>
      hd sample_listed \<in> set sample_listed"
    by code_simp
  then show "panel_keys sample_panel" "list_servers [] sample_panel = (sample_panel, Inr sample_listed)"
      "hd sample_listed \<in> set sample_listed"
    by (iprover elim: conjE)+
qed

lemma sample_effective_run:
  "effective_all (Some (sample_actor ''v'')) sample_listed sample_panel =
     (sample_panel, Inr (Some (\<lparr>su_id = ''v'', su_name = ''v'', su_role = ''viewer''\<rparr>,
        map_of (rev (map (\<lambda>s. (sv_id s, role_capabilities ''viewer'' s (assigned_map ''v'' sample_panel (sv_id s)))) sample_listed)))))"
  by (simp add: effective_all_def and_then_def current_actor_eq find_user_by_id_def find_user_def user_disabled_def
      sample_panel_def sample_user_def sample_actor_def)

lemma sample_listed_capabilities:
  "map (\<lambda>s. (sv_id s, role_capabilities ''viewer'' s (assigned_map ''v'' sample_panel (sv_id s)))) sample_listed =
     [(sample_uuid [], [server_view])] \<and> sv_id (hd sample_listed) = sample_uuid []"
  by code_simp

lemma sample_effective:
  "effective_all (Some (sample_actor ''v'')) sample_listed sample_panel = (sample_panel, Inr sample_effective)"
  by (simp add: sample_effective_def sample_effective_run)

lemma sample_effective_caps:
  "\<not> Option.is_none sample_effective" "the (snd (the sample_effective) (sv_id (hd sample_listed))) = [server_view]"
  using sample_listed_capabilities by (simp_all add: sample_effective_def sample_effective_run)

lemma effective_all_agrees_witness:
  "\<exists>s \<in> set sample_listed. snd (access (Some (sample_actor ''v'')) (sv_id s) sample_panel) = Inr ([server_view], Some s)"
proof -
  obtain u m where e: "sample_effective = Some (u, m)"
    using sample_effective_caps(1) by (cases sample_effective) auto
  from effective_all_agrees [OF sample_listing sample_effective] sample_effective_caps(2) show ?thesis
    unfolding e using sample_listing(3) by (intro bexI [of _ "hd sample_listed"]) simp_all
qed

section \<open>Assigned grants\<close>

lemma validate_grant_Inr:
  assumes "validate_grant role (i, wanted) d = (d', Inr caps)"
  shows "d' = d \<and> caps = in_order wanted \<and> set wanted \<subseteq> set (role_ceiling role)"
  using assms by (auto simp: validate_grant_def and_then_Inr list_all_iff Let_def split: if_splits)

lemma validate_all_Inr:
  "validate_all role inputs d = (d', Inr gs) \<Longrightarrow>
     d' = d \<and> gs = map (\<lambda>(i, w). (i, in_order w)) inputs \<and> (\<forall>(i, w) \<in> set inputs. set w \<subseteq> set (role_ceiling role))"
proof (induction inputs arbitrary: gs d d')
  case (Cons x inputs)
  obtain i w where x: "x = (i, w)"
    by (cases x)
  obtain d1 caps d2 rest where s: "validate_grant role (i, w) d = (d1, Inr caps)" "validate_all role inputs d1 = (d2, Inr rest)"
    "d' = d2" "gs = (i, caps) # rest"
    using Cons.prems by (auto simp: x and_then_Inr)
  show ?case
    using validate_grant_Inr [OF s(1)] Cons.IH [OF s(2)] s(3,4) x by auto
qed simp

definition granted_rows :: "int \<Rightarrow> string \<Rightarrow> (string \<times> capability list) list \<Rightarrow> grant_row list" where
  "granted_rows now user gs =
     map (\<lambda>(i, cs). \<lparr>g_user = user, g_server = i, g_caps = encode_capabilities cs, g_updated = now\<rparr>) (filter (\<lambda>g. snd g \<noteq> []) gs)"

lemma each_insert_grant:
  "each (\<lambda>(i, cs). if cs = [] then done_with ()
       else insert_grant \<lparr>g_user = user, g_server = i, g_caps = encode_capabilities cs, g_updated = now\<rparr>) gs d = (d', Inr ()) \<Longrightarrow>
     d' = d\<lparr>grants := grants d @ granted_rows now user gs\<rparr>"
proof (induction gs arbitrary: d)
  case (Cons g gs)
  obtain i cs where g: "g = (i, cs)"
    by (cases g)
  show ?case
  proof (cases "cs = []")
    case True
    then show ?thesis
      using Cons.IH [of d] Cons.prems by (simp add: g and_then_def granted_rows_def)
  next
    case False
    let ?row = "\<lparr>g_user = user, g_server = i, g_caps = encode_capabilities cs, g_updated = now\<rparr>"
    have "insert_grant ?row d = (d\<lparr>grants := grants d @ [?row]\<rparr>, Inr ())"
      using Cons.prems False by (auto simp: g and_then_def insert_grant_def split: if_splits)
    then show ?thesis
      using Cons.IH [of "d\<lparr>grants := grants d @ [?row]\<rparr>"] Cons.prems False by (simp add: g and_then_def granted_rows_def)
  qed
qed (simp add: granted_rows_def)

lemma prune_grants: "prune_audit_if_needed d = (d', r) \<Longrightarrow> grants d' = grants d \<and> users d' = users d"
  by (auto simp: prune_audit_if_needed_def prune_audit_def writes_def split: if_splits list.splits)

lemma write_audit_grants: "write_audit now b e d = (d', r) \<Longrightarrow> grants d' = grants d \<and> users d' = users d"
  by (auto simp: write_audit_def Let_def dest!: prune_grants split: if_splits)

lemma replace_grants_Inr:
  assumes "replace_grants now administrator user inputs d = (d', Inr ())"
  shows "\<exists>u. find_user_by_id user d = Some u \<and> u_role u \<noteq> ''admin'' \<and>
    (\<forall>(i, w) \<in> set inputs. set w \<subseteq> set (role_ceiling (u_role u))) \<and>
    grants d' = filter (\<lambda>g. g_user g \<noteq> user) (grants d) @ granted_rows now user (map (\<lambda>(i, w). (i, in_order w)) inputs)"
proof -
  obtain u where u: "find_user_by_id user d = Some u" "u_role u \<noteq> ''admin''"
    and m: "and_then (validate_all (u_role u) inputs) (\<lambda>gs.
              and_then (writes (\<lambda>d. d\<lparr>grants := filter (\<lambda>g. g_user g \<noteq> user) (grants d)\<rparr>)) (\<lambda>_.
              and_then (each (\<lambda>(i, cs). if cs = [] then done_with ()
                  else insert_grant \<lparr>g_user = user, g_server = i, g_caps = encode_capabilities cs, g_updated = now\<rparr>) gs) (\<lambda>_.
              write_audit now True \<lparr>e_user = su_id administrator, e_action = ''users.server_grants.updated'', e_type = ''user'',
                e_target = user, e_details = Some (grants_json gs), e_ip = []\<rparr>))) d = (d', Inr ())"
    using assms by (auto simp: replace_grants_def and_then_Inr [of "reads _"] split: option.splits if_splits)
  obtain d1 gs d3 where s: "validate_all (u_role u) inputs d = (d1, Inr gs)"
    "each (\<lambda>(i, cs). if cs = [] then done_with ()
        else insert_grant \<lparr>g_user = user, g_server = i, g_caps = encode_capabilities cs, g_updated = now\<rparr>) gs
       (d1\<lparr>grants := filter (\<lambda>g. g_user g \<noteq> user) (grants d1)\<rparr>) = (d3, Inr ())"
    "\<exists>e. write_audit now True e d3 = (d', Inr ())"
    using m by (auto simp: and_then_Inr [of "validate_all _ _"] and_then_Inr [of "writes _"] and_then_Inr [of "each _ _"])
  have v: "d1 = d" "gs = map (\<lambda>(i, w). (i, in_order w)) inputs" "\<forall>(i, w) \<in> set inputs. set w \<subseteq> set (role_ceiling (u_role u))"
    using validate_all_Inr [OF s(1)] by auto
  have "grants d' = grants d3"
    using s(3) write_audit_grants by blast
  then show ?thesis
    using u v each_insert_grant [OF s(2)] by simp
qed

lemma all_plain: "list_all plain all_capabilities"
  by code_simp

lemma ceiling_known: "set (role_ceiling role) \<subseteq> set all_capabilities"
  by (auto simp: role_ceiling_def in_order_def)

lemma parse_encode_capabilities: "parse_capabilities (encode_capabilities (in_order w)) = in_order w"
proof -
  have "list_all plain (in_order w)"
    using all_plain by (auto simp: in_order_def list_all_iff)
  then have "parse_capabilities (encode_capabilities (in_order w)) = filter (\<lambda>c. JStr c \<in> set (map JStr (in_order w))) all_capabilities"
    by (simp add: parse_capabilities_def encode_capabilities_def parse_json_strings)
  also have "\<dots> = in_order w"
    by (auto simp: in_order_def intro!: filter_cong)
  finally show ?thesis .
qed

lemma in_order_Nil: "set w \<subseteq> set all_capabilities \<Longrightarrow> in_order w = [] \<longleftrightarrow> w = []"
  by (cases w) (auto simp: in_order_def filter_empty_conv)

lemma find_after: "find (\<lambda>g. p g \<and> q g) (filter (\<lambda>g. \<not> p g) xs @ ys) = find (\<lambda>g. p g \<and> q g) ys"
  by (induction xs) auto

lemma find_granted:
  assumes "distinct (map fst inputs)" "\<forall>(i, w) \<in> set inputs. set w \<subseteq> set all_capabilities"
  shows "find (\<lambda>g. g_user g = user \<and> g_server g = i) (granted_rows now user (map (\<lambda>(i, w). (i, in_order w)) inputs)) =
    (case map_of inputs i of
       None \<Rightarrow> None
     | Some w \<Rightarrow> if w = [] then None
         else Some \<lparr>g_user = user, g_server = i, g_caps = encode_capabilities (in_order w), g_updated = now\<rparr>)"
  using assms
proof (induction inputs)
  case (Cons x inputs)
  obtain j w where x: "x = (j, w)"
    by (cases x)
  have n: "in_order w = [] \<longleftrightarrow> w = []"
    using Cons.prems(2) x in_order_Nil by auto
  have "map_of inputs j = None"
    using Cons.prems(1) x by (simp add: map_of_eq_None_iff)
  then show ?case
    using Cons x n by (cases "j = i"; cases "w = []") (simp_all add: granted_rows_def)
qed (simp add: granted_rows_def)

text \<open>C37. Assigning grants is by an administrator signed in at commit, within the ceiling of the
  account's role, and exact: afterwards the account holds on every server what was asked for it, in
  display order, and nothing on any other; grants of other accounts are untouched.\<close>

theorem set_user_grants_exact:
  assumes "set_user_grants now user inputs actor token d = (d', Inr gs)"
  shows "(\<exists>a admin. actor = Some a \<and> session_valid (su_id a) token now d \<and>
       find_user_by_id (su_id a) d = Some admin \<and> u_role admin = ''admin'') \<and>
    (\<exists>u. find_user_by_id user d = Some u \<and> u_role u \<noteq> ''admin'' \<and>
       (\<forall>(i, w) \<in> set inputs. set w \<subseteq> set (role_ceiling (u_role u)))) \<and>
    (\<forall>i. user_grant user i d' = (case map_of inputs i of
         None \<Rightarrow> None
       | Some w \<Rightarrow> if w = [] then None else Some \<lparr>gr_server = i, gr_caps = in_order w, gr_updated = now\<rparr>)) \<and>
    filter (\<lambda>g. g_user g \<noteq> user) (grants d') = filter (\<lambda>g. g_user g \<noteq> user) (grants d) \<and> gs = user_grants user d'"
proof -
  obtain d0 administrator where s0: "assert_administrator actor d = (d0, Inr administrator)"
    and m0: "and_then (check_that (length inputs \<le> max_assignments) invalid_grant) (\<lambda>_.
     and_then (check_that (distinct (map fst inputs)) invalid_grant) (\<lambda>_.
     and_then (map_failure mutation_error (admin_mutation (su_id administrator) token now
         (replace_grants now administrator user inputs))) (\<lambda>_.
     and_then prune_audit_if_needed (\<lambda>_.
     reads (user_grants user))))) d0 = (d', Inr gs)"
    using assms unfolding set_user_grants_def and_then_Inr [of "assert_administrator _"] by blast
  then obtain d1 where s: "distinct (map fst inputs)"
    "admin_mutation (su_id administrator) token now (replace_grants now administrator user inputs) d0 = (d1, Inr ())"
    "\<exists>r. prune_audit_if_needed d1 = (d', r)" "gs = user_grants user d'"
    by (auto simp: and_then_Inr [of "check_that _ _"] and_then_Inr [of "map_failure _ _"] and_then_Inr [of prune_audit_if_needed]
        split: if_splits)
  obtain a where a: "actor = Some a" "d0 = d" "su_id administrator = su_id a"
    using s0 find_user_props
    by (cases actor) (auto simp: assert_administrator_def and_then_def current_actor_eq current_actor_def
        split: option.splits if_splits)
  have admin: "session_valid (su_id a) token now d" "\<exists>u. find_user_by_id (su_id a) d = Some u \<and> u_role u = ''admin''"
    and r: "replace_grants now administrator user inputs d = (d1, Inr ())"
    using s(2) a by (auto simp: admin_mutation_Inr)
  obtain u where u: "find_user_by_id user d = Some u" "u_role u \<noteq> ''admin''"
    "\<forall>(i, w) \<in> set inputs. set w \<subseteq> set (role_ceiling (u_role u))"
    "grants d1 = filter (\<lambda>g. g_user g \<noteq> user) (grants d) @ granted_rows now user (map (\<lambda>(i, w). (i, in_order w)) inputs)"
    using replace_grants_Inr [OF r] by blast
  let ?new = "granted_rows now user (map (\<lambda>(i, w). (i, in_order w)) inputs)"
  have g: "grants d' = filter (\<lambda>g. g_user g \<noteq> user) (grants d) @ ?new"
    using s(3) u(4) prune_grants by auto
  have new: "g_user g = user" if "g \<in> set ?new" for g
    using that by (auto simp: granted_rows_def)
  have known: "\<forall>(i, w) \<in> set inputs. set w \<subseteq> set all_capabilities"
    using u(3) ceiling_known by fast
  have "find_grant user i d' = find (\<lambda>g. g_user g = user \<and> g_server g = i) ?new" for i
    unfolding find_grant_def g by (rule find_after)
  then have "user_grant user i d' = (case map_of inputs i of
         None \<Rightarrow> None
       | Some w \<Rightarrow> if w = [] then None else Some \<lparr>gr_server = i, gr_caps = in_order w, gr_updated = now\<rparr>)" for i
    by (simp add: user_grant_def find_granted [OF s(1) known] parse_encode_capabilities split: option.split)
  moreover have "filter (\<lambda>g. g_user g \<noteq> user) (grants d') = filter (\<lambda>g. g_user g \<noteq> user) (grants d)"
    using new by (simp add: g filter_empty_conv)
  ultimately show ?thesis
    using a admin u s(4) by blast
qed

lemma set_user_grants_exact_witness:
  "\<exists>d'. user_grant ''v'' (sample_uuid []) d' = Some \<lparr>gr_server = sample_uuid [], gr_caps = [''server.view'', ''logs.read''], gr_updated = 9\<rparr>"
proof -
  let ?r = "set_user_grants 9 ''v'' [(sample_uuid [], [''logs.read'', ''server.view''])] (Some (sample_actor ''a'')) ''t'' sample_panel"
  have r: "\<not> isl (snd ?r) \<and> in_order [''logs.read'', ''server.view''] = [''server.view'', ''logs.read'']"
    by code_simp
  moreover from r obtain gs where "?r = (fst ?r, Inr gs)"
    by (metis prod.collapse sum.collapse(2))
  from set_user_grants_exact [OF this] have "\<forall>i. user_grant ''v'' i (fst ?r) = (case map_of [(sample_uuid [], [''logs.read'', ''server.view''])] i of
         None \<Rightarrow> None
       | Some w \<Rightarrow> if w = [] then None else Some \<lparr>gr_server = i, gr_caps = in_order w, gr_updated = 9\<rparr>)"
    by blast
  ultimately show ?thesis
    by (intro exI [of _ "fst ?r"]) simp
qed

end
