(* ===== verification/Tar.thy ===== *)
theory Tar
  imports Json "HOL-Library.While_Combinator" "HOL-Library.AList" "HOL-Library.Product_Lexorder"
begin

text \<open>
  The USTAR/PAX archives of backups: \<open>src/internal/tarstream/tarstream.go\<close>. The reader's chunks
  and \<open>onChunk\<close> are left out: an input is its bytes and how it ends. Maps are association lists
  with distinct keys. Modification times are floating-point numbers of any type, with what
  \<open>math\<close> and \<open>strconv\<close> compute of them as parameters.
\<close>

section \<open>Headers\<close>

record 'f float_ops =
  of_seconds :: "int \<Rightarrow> 'f"
  whole_seconds :: "'f \<Rightarrow> int"
  is_whole :: "'f \<Rightarrow> bool"
  parse_float :: "string \<Rightarrow> 'f option"
  in_range :: "'f \<Rightarrow> bool"
  format_seconds :: "'f \<Rightarrow> string"

record 'f header =
  h_name :: string
  h_type :: string
  h_size :: int
  h_mode :: int
  h_uid :: int
  h_gid :: int
  h_mtime :: 'f
  h_link :: string
  h_pax :: "(string \<times> string) list"

definition block_size :: nat where
  "block_size = 512"

definition max_metadata :: nat where
  "max_metadata = 16384"

definition max_integer :: nat where
  "max_integer = 2 ^ 53 - 1"

definition entry_types :: "(char \<times> string) list" where
  "entry_types =
     [(CHR ''0'', ''file''), (CHR ''1'', ''link''), (CHR ''2'', ''symlink''), (CHR ''3'', ''character-device''),
      (CHR ''4'', ''block-device''), (CHR ''5'', ''directory''), (CHR ''6'', ''fifo''), (CHR ''7'', ''contiguous-file''),
      (CHR ''x'', ''pax-header''), (CHR ''g'', ''pax-global-header'')]"

abbreviation NUL :: char where
  "NUL \<equiv> CHR 0x00"

definition zeros :: "nat \<Rightarrow> string" where
  "zeros n = replicate n NUL"

definition padding_length :: "nat \<Rightarrow> nat" where
  "padding_length len = (block_size - len mod block_size) mod block_size"

definition padding :: "nat \<Rightarrow> string" where
  "padding len = zeros (padding_length len)"

definition archive_end :: string where
  "archive_end = zeros (2 * block_size)"

definition all_zero :: "string \<Rightarrow> bool" where
  "all_zero s \<longleftrightarrow> list_all (\<lambda>c. c = NUL) s"

section \<open>Reading a header\<close>

definition slice :: "nat \<Rightarrow> nat \<Rightarrow> string \<Rightarrow> string" where
  "slice a b s = take (b - a) (drop a s)"

definition text_field :: "string \<Rightarrow> string option" where
  "text_field f = (let t = takeWhile (\<lambda>c. c \<noteq> NUL) f in if valid_utf8 t then Some t else None)"

definition is_octal :: "char \<Rightarrow> bool" where
  "is_octal c \<longleftrightarrow> 48 \<le> byte c \<and> byte c \<le> 55"

fun base256 :: "nat \<Rightarrow> string \<Rightarrow> nat option" where
  "base256 v [] = Some v"
| "base256 v (c # cs) = (if v > max_integer div 256 then None else base256 (256 * v + byte c) cs)"

definition integer :: "string \<Rightarrow> int option" where
  "integer f =
     (case (if 128 \<le> byte (hd f) then (if byte (hd f) \<noteq> 128 then None else base256 0 (tl f))
            else
              (case text_field f of
                 None \<Rightarrow> None
               | Some t \<Rightarrow>
                   let e = trim_space t
                   in if e = [] then Some 0 else if list_all is_octal e then Some (parse_nat 8 e) else None)) of
        None \<Rightarrow> None
      | Some v \<Rightarrow> if v > max_integer then None else Some (int v))"

definition opt_bind :: "'a option \<Rightarrow> ('a \<Rightarrow> 'b option) \<Rightarrow> 'b option" where
  "opt_bind m f = (case m of None \<Rightarrow> None | Some x \<Rightarrow> f x)"

lemma opt_bind_simps [simp]: "opt_bind None f = None" "opt_bind (Some x) f = f x"
  by (simp_all add: opt_bind_def)

lemma opt_bind_Some: "opt_bind m f = Some y \<longleftrightarrow> (\<exists>x. m = Some x \<and> f x = Some y)"
  by (cases m) auto

text \<open>The sum of the bytes, the checksum field counted as eight spaces.\<close>

definition byte_sum :: "string \<Rightarrow> nat" where
  "byte_sum s = sum_list (map byte s)"

definition decode_header :: "'f float_ops \<Rightarrow> string \<Rightarrow> string option \<Rightarrow> 'f header option" where
  "decode_header ops b override =
     (if length b \<noteq> block_size then None
      else
        opt_bind (integer (slice 148 156 b)) (\<lambda>checksum.
        opt_bind (text_field (slice 257 263 b)) (\<lambda>magic.
          if checksum \<noteq> int (8 * 32 + byte_sum (slice 0 148 b) + byte_sum (slice 156 512 b)) \<or> trim_space magic \<noteq> ''ustar'' then None
          else
            (let flag = (if b ! 156 = NUL then CHR ''0'' else b ! 156)
             in opt_bind (map_of entry_types flag) (\<lambda>kind.
                let override = (if override = None \<and> (flag = CHR ''x'' \<or> flag = CHR ''g'') then Some ''PaxHeader'' else override)
                in opt_bind (case override of
                       Some n \<Rightarrow> Some n
                     | None \<Rightarrow>
                         opt_bind (text_field (slice 345 500 b)) (\<lambda>prefix.
                         opt_bind (text_field (slice 0 100 b)) (\<lambda>name.
                           Some (if prefix \<noteq> [] then prefix @ ''/'' @ name else name)))) (\<lambda>name.
                opt_bind (integer (slice 100 108 b)) (\<lambda>mode.
                opt_bind (integer (slice 108 116 b)) (\<lambda>uid.
                opt_bind (integer (slice 116 124 b)) (\<lambda>gid.
                opt_bind (integer (slice 124 136 b)) (\<lambda>size.
                opt_bind (integer (slice 136 148 b)) (\<lambda>mtime.
                opt_bind (text_field (slice 157 257 b)) (\<lambda>link.
                  Some \<lparr>h_name = name, h_type = kind, h_size = size, h_mode = mode, h_uid = uid, h_gid = gid,
                    h_mtime = of_seconds ops mtime, h_link = link, h_pax = []\<rparr>)))))))))))) "

section \<open>PAX records\<close>

definition index_of :: "char \<Rightarrow> string \<Rightarrow> nat option" where
  "index_of c s = (if c \<in> set s then Some (length (takeWhile (\<lambda>x. x \<noteq> c) s)) else None)"

definition is_decimal :: "string \<Rightarrow> bool" where
  "is_decimal s \<longleftrightarrow> s \<noteq> [] \<and> is_digit (hd s) \<and> hd s \<noteq> CHR ''0'' \<and> list_all is_digit (tl s)"

definition is_unsigned :: "string \<Rightarrow> bool" where
  "is_unsigned s \<longleftrightarrow> s \<noteq> [] \<and> list_all is_digit s"

definition is_mtime :: "string \<Rightarrow> bool" where
  "is_mtime s \<longleftrightarrow>
     (let t = trim_prefix s ''-''; frac = dropWhile is_digit t
      in t \<noteq> [] \<and> is_digit (hd t) \<and> (frac = [] \<or> hd frac = CHR ''.'' \<and> is_unsigned (tl frac)))"

text \<open>One record: its length, its key and its value.\<close>

definition pax_entry :: "string list \<Rightarrow> string \<Rightarrow> (nat \<times> string \<times> string) option" where
  "pax_entry seen s =
     opt_bind (index_of (CHR '' '') s) (\<lambda>space.
       if space > 8 \<or> \<not> is_decimal (take space s) then None
       else
         (let len = parse_nat 10 (take space s)
          in if len > length s \<or> len \<le> space + 3 \<or> s ! (len - 1) \<noteq> CHR 0x0A then None
             else
               (let r = slice (space + 1) (len - 1) s
                in if \<not> valid_utf8 r then None
                   else
                     opt_bind (index_of (CHR ''='') r) (\<lambda>equals.
                       if equals < 1 \<or> NUL \<in> set r then None
                       else
                         (let key = take equals r
                          in if key \<in> set seen \<or> has_prefix key ''GNU.sparse'' \<or> key = ''SCHILY.filetype'' then None
                             else Some (len, key, drop (equals + 1) r))))))"

lemma pax_entry_length: "pax_entry seen s = Some (len, k, v) \<Longrightarrow> 0 < len \<and> len \<le> length s"
  by (auto simp: pax_entry_def opt_bind_Some Let_def split: if_splits)

function parse_pax_from :: "string list \<Rightarrow> string \<Rightarrow> (string \<times> string) list option" where
  "parse_pax_from seen s =
     (if s = [] then Some []
      else
        (case pax_entry seen s of
           None \<Rightarrow> None
         | Some (len, key, v) \<Rightarrow>
             map_option (\<lambda>rest. (key, v) # rest) (parse_pax_from (key # seen) (drop len s))))"
  by pat_completeness auto
termination
  by (relation "measure (\<lambda>(_, s). length s)") (auto dest: pax_entry_length)

declare parse_pax_from.simps [simp del]

definition parse_pax :: "string \<Rightarrow> (string \<times> string) list option" where
  "parse_pax data = parse_pax_from [] data"

text \<open>A number of a record. \<open>ParseFloat\<close> is exact up to 2^53, and beyond it the bound fails.\<close>

definition pax_number :: "(string \<times> string) list \<Rightarrow> string \<Rightarrow> int \<Rightarrow> int option" where
  "pax_number pax key old =
     (case map_of pax key of
        None \<Rightarrow> Some old
      | Some v \<Rightarrow> if \<not> is_unsigned v \<or> parse_nat 10 v > max_integer then None else Some (int (parse_nat 10 v)))"

definition apply_pax :: "'f float_ops \<Rightarrow> 'f header \<Rightarrow> (string \<times> string) list \<Rightarrow> 'f header option" where
  "apply_pax ops h pax =
     opt_bind (pax_number pax ''size'' (h_size h)) (\<lambda>size.
     opt_bind (pax_number pax ''uid'' (h_uid h)) (\<lambda>uid.
     opt_bind (pax_number pax ''gid'' (h_gid h)) (\<lambda>gid.
     opt_bind (case map_of pax ''mtime'' of
         None \<Rightarrow> Some (h_mtime h)
       | Some v \<Rightarrow>
           if \<not> is_mtime v then None
           else opt_bind (parse_float ops v) (\<lambda>t. if in_range ops t then Some t else None)) (\<lambda>mtime.
       Some (h\<lparr>h_pax := pax,
         h_name := (case map_of pax ''path'' of None \<Rightarrow> h_name h | Some v \<Rightarrow> v),
         h_link := (case map_of pax ''linkpath'' of None \<Rightarrow> h_link h | Some v \<Rightarrow> v),
         h_size := size, h_uid := uid, h_gid := gid, h_mtime := mtime\<rparr>)))))"

section \<open>Walking an archive\<close>

datatype input_end = Eof | Broken

datatype 'e walk_error = Invalid | ReadError | Visited 'e

definition cut_off :: "input_end \<Rightarrow> 'e walk_error" where
  "cut_off fin = (case fin of Eof \<Rightarrow> Invalid | Broken \<Rightarrow> ReadError)"

text \<open>The length of \<open>json.Marshal\<close> of a map.\<close>

definition map_json_length :: "(string \<times> string) list \<Rightarrow> nat" where
  "map_json_length m = length (''{'' @ join_with '','' (map (\<lambda>(k, v). json_string k @ '':'' @ json_string v) m) @ ''}'')"

definition merge :: "(string \<times> string) list \<Rightarrow> (string \<times> string) list \<Rightarrow> (string \<times> string) list" where
  "merge a b = fold (\<lambda>(k, v). AList.update k v) b a"

text \<open>The end of an archive: the second zero block and zero blocks to the end of the input.\<close>

definition walk_end :: "input_end \<Rightarrow> bool \<Rightarrow> string \<Rightarrow> 'e walk_error option" where
  "walk_end fin pending rest =
     (if length rest < block_size then Some (cut_off fin)
      else if pending \<or> \<not> all_zero (take block_size rest) then Some Invalid
      else if \<not> all_zero (drop block_size rest) then Some Invalid
      else if fin = Broken then Some ReadError
      else if length (drop block_size rest) mod block_size \<noteq> 0 then Some Invalid else None)"

text \<open>A padded body of an entry: the rest after it.\<close>

definition skip_padding :: "input_end \<Rightarrow> nat \<Rightarrow> string \<Rightarrow> 'e walk_error + string" where
  "skip_padding fin len rest =
     (let p = padding_length len
      in if length rest < p then Inl (cut_off fin)
         else if \<not> all_zero (take p rest) then Inl Invalid else Inr (drop p rest))"

text \<open>
  The visitor gets the header, the bytes of the body there are, and the error it meets after
  them where the body is cut off; what it leaves unread is drained.
\<close>

type_synonym ('f, 's, 'e) visitor = "'s \<Rightarrow> 'f header \<Rightarrow> string \<Rightarrow> 'e walk_error option \<Rightarrow> 's \<times> 'e option"

definition max_headers :: nat where
  "max_headers = 100000"

definition path_override :: "(string \<times> string) list \<Rightarrow> (string \<times> string) list option \<Rightarrow> string option" where
  "path_override glob loc =
     (case map_of (case loc of None \<Rightarrow> [] | Some l \<Rightarrow> l) ''path'' of Some v \<Rightarrow> Some v | None \<Rightarrow> map_of glob ''path'')"

text \<open>A metadata entry: the records and the rest of the input.\<close>

definition read_pax :: "input_end \<Rightarrow> nat \<Rightarrow> string \<Rightarrow> 'e walk_error + (string \<times> string) list \<times> string" where
  "read_pax fin len rest =
     (if length rest < len then Inl (cut_off fin)
      else
        (case parse_pax (take len rest) of
           None \<Rightarrow> Inl Invalid
         | Some pax \<Rightarrow> res_bind (skip_padding fin len (drop len rest)) (\<lambda>rest'. Inr (pax, rest'))))"

definition read_body ::
    "('f, 's, 'e) visitor \<Rightarrow> input_end \<Rightarrow> 's \<Rightarrow> 'f header \<Rightarrow> string \<Rightarrow> 's \<times> ('e walk_error + string)" where
  "read_body visit fin st h rest =
     (let len = nat (h_size h)
      in case visit st h (take len rest) (if length rest < len then Some (cut_off fin) else None) of
           (st', Some e) \<Rightarrow> (st', Inl (Visited e))
         | (st', None) \<Rightarrow>
             if length rest < len then (st', Inl (cut_off fin)) else (st', skip_padding fin len (drop len rest)))"

lemma skip_padding_length: "skip_padding fin len rest = Inr rest' \<Longrightarrow> length rest' \<le> length rest"
  by (auto simp: skip_padding_def Let_def split: if_splits)

lemma read_pax_length: "read_pax fin len rest = Inr (pax, rest') \<Longrightarrow> length rest' \<le> length rest"
  by (auto simp: read_pax_def res_bind_Inr dest!: skip_padding_length split: if_splits option.splits)

lemma read_body_length: "read_body visit fin st h rest = (st', Inr rest') \<Longrightarrow> length rest' \<le> length rest"
  by (auto simp: read_body_def Let_def dest!: skip_padding_length split: if_splits option.splits prod.splits)

function walk_from ::
    "'f float_ops \<Rightarrow> ('f, 's, 'e) visitor \<Rightarrow> input_end \<Rightarrow> 's \<Rightarrow> (string \<times> string) list \<Rightarrow> (string \<times> string) list option \<Rightarrow>
     nat \<Rightarrow> string \<Rightarrow> 's \<times> 'e walk_error option" where
  "walk_from ops visit fin st glob loc metadata src =
     (if length src < block_size then (st, Some (cut_off fin))
      else if all_zero (take block_size src) then (st, walk_end fin (loc \<noteq> None) (drop block_size src))
      else
        (case decode_header ops (take block_size src) (path_override glob loc) of
           None \<Rightarrow> (st, Some Invalid)
         | Some h \<Rightarrow>
             if h_type h = ''pax-header'' \<or> h_type h = ''pax-global-header'' then
               (if h_size h > int max_metadata \<or> metadata + 1 > max_headers \<or> loc \<noteq> None then (st, Some Invalid)
                else
                  (case read_pax fin (nat (h_size h)) (drop block_size src) of
                     Inl e \<Rightarrow> (st, Some e)
                   | Inr (pax, rest) \<Rightarrow>
                       if h_type h = ''pax-global-header'' then
                         (if map_json_length (merge glob pax) > max_metadata then (st, Some Invalid)
                          else walk_from ops visit fin st (merge glob pax) loc (metadata + 1) rest)
                       else walk_from ops visit fin st glob (Some pax) (metadata + 1) rest))
             else
               (case apply_pax ops h (merge glob (case loc of None \<Rightarrow> [] | Some l \<Rightarrow> l)) of
                  None \<Rightarrow> (st, Some Invalid)
                | Some h \<Rightarrow>
                    if h_type h \<noteq> ''file'' \<and> h_size h \<noteq> 0 then (st, Some Invalid)
                    else
                      (case read_body visit fin st h (drop block_size src) of
                         (st', Inl e) \<Rightarrow> (st', Some e)
                       | (st', Inr rest) \<Rightarrow> walk_from ops visit fin st' glob None metadata rest))))"
  by pat_completeness auto
termination
  by (relation "measure (\<lambda>(_, _, _, _, _, _, _, src). length src)")
    (auto simp: block_size_def dest!: read_pax_length read_body_length sym [of "(_, _)" "read_body _ _ _ _ _"])

declare walk_from.simps [simp del]

definition walk :: "'f float_ops \<Rightarrow> ('f, 's, 'e) visitor \<Rightarrow> input_end \<Rightarrow> 's \<Rightarrow> string \<Rightarrow> 's \<times> 'e walk_error option" where
  "walk ops visit fin st src = walk_from ops visit fin st [] None 0 src"

section \<open>Writing\<close>

text \<open>The length of a record counts itself.\<close>

definition record_size :: "nat \<Rightarrow> nat option" where
  "record_size n = while_option (\<lambda>len. length (itoa len) + n \<noteq> len) (\<lambda>len. length (itoa len) + n) (n + 1)"

definition pax_record :: "string \<Rightarrow> string \<Rightarrow> string option" where
  "pax_record key v =
     (let r = '' '' @ key @ ''='' @ v @ [CHR 0x0A] in map_option (\<lambda>len. itoa len @ r) (record_size (length r)))"

definition put_text :: "string \<Rightarrow> nat \<Rightarrow> string option" where
  "put_text v len = (if length v > len \<or> NUL \<in> set v then None else Some (v @ zeros (len - length v)))"

fun put_wide :: "nat \<Rightarrow> nat \<Rightarrow> string" where
  "put_wide 0 v = []"
| "put_wide (Suc k) v = put_wide k (v div 256) @ [char_of (v mod 256)]"

definition put_number :: "int \<Rightarrow> nat \<Rightarrow> string option" where
  "put_number v len =
     (if v < 0 \<or> v > int max_integer then None
      else
        (let octal = format_nat 8 (nat v)
         in if length octal < len then put_text (replicate (len - 1 - length octal) (CHR ''0'') @ octal) len
            else if nat v div 256 ^ (len - 1) \<noteq> 0 then None else Some (char_of (128 :: nat) # put_wide (len - 1) (nat v))))"

definition raw_header :: "'f float_ops \<Rightarrow> 'f header \<Rightarrow> char \<Rightarrow> string option" where
  "raw_header ops h flag =
     opt_bind (put_text (h_name h) 100) (\<lambda>name.
     opt_bind (put_number (h_mode h) 8) (\<lambda>mode.
     opt_bind (put_number (h_uid h) 8) (\<lambda>uid.
     opt_bind (put_number (h_gid h) 8) (\<lambda>gid.
     opt_bind (put_number (h_size h) 12) (\<lambda>size.
     opt_bind (put_number (whole_seconds ops (h_mtime h)) 12) (\<lambda>mtime.
     opt_bind (put_text (h_link h) 100) (\<lambda>link.
       let front = name @ mode @ uid @ gid @ size @ mtime;
           back = flag # link @ ''ustar'' @ [NUL] @ ''00'' @ zeros 247;
           encoded = format_nat 8 (byte_sum (front @ replicate 8 (CHR '' '') @ back));
           checksum = replicate (6 - length encoded) (CHR ''0'') @ encoded
       in Some (front @ take 6 checksum @ [NUL] @ drop 7 (take 8 (checksum @ replicate 2 (CHR '' ''))) @ back))))))))"

definition pax_order :: "string \<Rightarrow> nat" where
  "pax_order key =
     (if key = ''uid'' then 0 else if key = ''gid'' then 1 else if key = ''mtime'' then 2 else if key = ''path'' then 3 else 4)"

definition entry_pax :: "'f float_ops \<Rightarrow> 'f header \<Rightarrow> (string \<times> string) list" where
  "entry_pax ops h =
     (let p = h_pax h;
          p = (if map_of p ''path'' = None \<and> length (h_name h) > 100 then p @ [(''path'', h_name h)] else p);
          p = (if map_of p ''mtime'' = None \<and> \<not> is_whole ops (h_mtime h) then p @ [(''mtime'', format_seconds ops (h_mtime h))] else p)
      in sort_key (\<lambda>(k, _). (pax_order k, k)) p)"

fun pax_records :: "(string \<times> string) list \<Rightarrow> string option" where
  "pax_records [] = Some []"
| "pax_records ((k, v) # m) = opt_bind (pax_record k v) (\<lambda>r. opt_bind (pax_records m) (\<lambda>rs. Some (r @ rs)))"

definition flag_of :: "string \<Rightarrow> char option" where
  "flag_of kind = (if kind = [] then Some (CHR ''0'') else map_option fst (find (\<lambda>p. snd p = kind) entry_types))"

definition pax_block :: "'f float_ops \<Rightarrow> (string \<times> string) list \<Rightarrow> string option" where
  "pax_block ops pax =
     (if pax = [] then Some []
      else
        opt_bind (pax_records pax) (\<lambda>records.
          if length records > max_metadata then None
          else
            opt_bind (raw_header ops \<lparr>h_name = ''PaxHeader'', h_type = [], h_size = int (length records), h_mode = 420, h_uid = 0,
                h_gid = 0, h_mtime = of_seconds ops 0, h_link = [], h_pax = []\<rparr> (CHR ''x'')) (\<lambda>block.
              Some (block @ records @ padding (length records)))))"

definition encode_header :: "'f float_ops \<Rightarrow> 'f header \<Rightarrow> string option" where
  "encode_header ops h =
     opt_bind (flag_of (h_type h)) (\<lambda>flag.
       if length (h_name h) > 4096 then None
       else
         (let pax = entry_pax ops h;
              entry = (if map_of pax ''path'' = None then h else h\<lparr>h_name := ''entry''\<rparr>)
          in opt_bind (pax_block ops pax) (\<lambda>front.
             opt_bind (raw_header ops entry flag) (\<lambda>raw. Some (front @ raw)))))"

end
