(* ===== verification/TarProofs.thy ===== *)
theory TarProofs
  imports Tar
begin

text \<open>
  Archives written by \<open>tarstream\<close> are read back as they were written, the length prefix of a
  record always settles, and an input that is cut off is never accepted.
\<close>

section \<open>The length of a record\<close>

lemma itoa_length_le: "length (itoa n) \<le> 1 + n div 10"
proof (induction n rule: less_induct)
  case (less n)
  show ?case
  proof (cases "n < 10")
    case True
    then show ?thesis by (subst format_nat.simps) simp
  next
    case False
    then have "length (itoa n) = length (itoa (n div 10)) + 1"
      by (subst format_nat.simps) simp
    moreover have "length (itoa (n div 10)) \<le> 1 + n div 10 div 10"
      using less.IH [of "n div 10"] False by simp
    moreover have "1 + n div 10 div 10 \<le> n div 10"
      using False by linarith
    ultimately show ?thesis by linarith
  qed
qed

lemma itoa_length_mono: "m \<le> n \<Longrightarrow> length (itoa m) \<le> length (itoa n)"
proof (induction n arbitrary: m rule: less_induct)
  case (less n)
  show ?case
  proof (cases "n < 10")
    case True
    then show ?thesis using less.prems by (simp add: format_nat.simps)
  next
    case False
    have m: "1 \<le> length (itoa m)" for m
      by (simp add: Suc_leI)
    have "length (itoa n) = length (itoa (n div 10)) + 1"
      using False by (subst format_nat.simps) simp
    moreover have "length (itoa m) = length (itoa (m div 10)) + 1" if "\<not> m < 10"
      using that by (subst format_nat.simps) simp
    moreover have "length (itoa m) = 1" if "m < 10"
      using that by (subst format_nat.simps) simp
    moreover have "length (itoa (m div 10)) \<le> length (itoa (n div 10))"
      using less.IH [of "n div 10" "m div 10"] less.prems False by (simp add: div_le_mono)
    ultimately show ?thesis
      using m [of "n div 10"] by linarith
  qed
qed

lemma record_size_Some:
  "\<exists>k. record_size n = Some k \<and> k = length (itoa k) + n \<and> k \<le> 2 * n + 2"
proof -
  let ?c = "\<lambda>s. length (itoa s) + n"
  let ?P = "\<lambda>s. s \<le> ?c s \<and> s \<le> 2 * n + 2"
  have bound: "?c s \<le> 2 * n + 2" if "s \<le> 2 * n + 2" for s
    using itoa_length_le [of s] that div_le_mono [OF that, of 10] by linarith
  have step: "?P (?c s) \<and> 2 * n + 2 - ?c s < 2 * n + 2 - s" if "?P s" "?c s \<noteq> s" for s
    using that bound [of s] itoa_length_mono [of s "?c s"] by linarith
  have "1 \<le> length (itoa (n + 1))"
    by (simp add: Suc_leI)
  then have start: "?P (n + 1)"
    by linarith
  have "\<exists>k. while_option (\<lambda>s. ?c s \<noteq> s) ?c (n + 1) = Some k"
    by (rule measure_while_option_Some [where P = ?P and f = "\<lambda>s. 2 * n + 2 - s"]) (use step start in simp_all)
  then obtain k where k: "while_option (\<lambda>s. ?c s \<noteq> s) ?c (n + 1) = Some k"
    by blast
  have "?P k"
    by (rule while_option_rule [where P = ?P, OF _ k start]) (use step in blast)
  moreover have "?c k = k"
    using while_option_stop [OF k] by simp
  ultimately show ?thesis
    using k by (simp add: record_size_def)
qed

text \<open>C40. The loop that finds a PAX record's length prefix ends for every record, and what it writes
  begins with its own length.\<close>

theorem pax_record_terminates:
  "\<exists>len. pax_record key v = Some (itoa len @ '' '' @ key @ ''='' @ v @ [CHR 0x0A]) \<and>
     len = length (itoa len @ '' '' @ key @ ''='' @ v @ [CHR 0x0A])"
proof -
  let ?r = "'' '' @ key @ ''='' @ v @ [CHR 0x0A]"
  obtain k where "record_size (length ?r) = Some k" "k = length (itoa k) + length ?r"
    using record_size_Some [of "length ?r"] by blast
  then show ?thesis
    unfolding pax_record_def Let_def by (intro exI [of _ k]) simp
qed

section \<open>Reading records back\<close>

lemma itoa_hd: "0 < n \<Longrightarrow> hd (itoa n) \<noteq> CHR ''0''"
proof (induction n rule: less_induct)
  case (less n)
  show ?case
  proof (cases "n < 10")
    case True
    then have "itoa n = [digit_char n]"
      by (subst format_nat.simps) simp
    moreover have "digit_val (digit_char n) = n"
      using True by simp
    moreover have "digit_val (CHR ''0'') = 0"
      by (simp add: digit_val_def)
    ultimately show ?thesis
      using less.prems by (metis less_irrefl list.sel(1))
  next
    case False
    then have "itoa n = itoa (n div 10) @ [digit_char (n mod 10)]"
      by (subst format_nat.simps) simp
    then show ?thesis
      using less.IH [of "n div 10"] False by simp
  qed
qed

lemma itoa_digits: "c \<in> set (itoa n) \<Longrightarrow> is_digit c"
  using format_nat_digits [of 10 c n] by (auto simp: is_digit_def byte_def digit_char_def)

lemma itoa_decimal: "0 < n \<Longrightarrow> is_decimal (itoa n)"
  using itoa_digits [of _ n] itoa_hd [of n] by (cases "itoa n") (auto simp: is_decimal_def list_all_iff)

lemma index_of_append: "c \<notin> set a \<Longrightarrow> index_of c (a @ c # b) = Some (length a)"
  by (induction a) (auto simp: index_of_def)

text \<open>What a record may hold.\<close>

definition record_ok :: "string \<times> string \<Rightarrow> bool" where
  "record_ok p \<longleftrightarrow>
     (case p of (k, v) \<Rightarrow>
        k \<noteq> [] \<and> CHR ''='' \<notin> set k \<and> NUL \<notin> set k \<and> NUL \<notin> set v \<and> valid_utf8 (k @ ''='' @ v) \<and>
        \<not> has_prefix k ''GNU.sparse'' \<and> k \<noteq> ''SCHILY.filetype'')"

lemma pax_entry_record:
  assumes "record_ok (k, v)" "k \<notin> set seen" "pax_record k v = Some r" "length r < 10 ^ 8"
  shows "pax_entry seen (r @ rest) = Some (length r, k, v)"
proof -
  obtain len where r: "r = itoa len @ '' '' @ k @ ''='' @ v @ [CHR 0x0A]" and len: "len = length r"
    using pax_record_terminates [of k v] assms(3) by auto
  let ?n = "length (itoa len)"
  have n: "?n \<le> 8"
    using format_nat_length [of 10 len 8] assms(4) len by simp
  have space: "CHR '' '' \<notin> set (itoa len)"
    using itoa_digits [of "CHR '' ''" len] by (auto simp: is_digit_def)
  have s: "r @ rest = itoa len @ CHR '' '' # (k @ ''='' @ v @ [CHR 0x0A] @ rest)"
    by (simp add: r)
  have i: "index_of (CHR '' '') (r @ rest) = Some ?n"
    unfolding s by (rule index_of_append [OF space])
  have t: "take ?n (r @ rest) = itoa len"
    by (simp add: s)
  have l: "len = ?n + length k + length v + 3"
    using len arg_cong [OF r, of length] by simp
  have nl: "(r @ rest) ! (len - 1) = CHR 0x0A"
  proof -
    have "r = (itoa len @ '' '' @ k @ ''='' @ v) @ [CHR 0x0A]"
      by (simp add: r)
    moreover have "len - 1 = length (itoa len @ '' '' @ k @ ''='' @ v)"
      using l by simp
    ultimately show ?thesis
      by (metis append_assoc append_Cons nth_append_length)
  qed
  have body: "slice (?n + 1) (len - 1) (r @ rest) = k @ ''='' @ v"
  proof -
    have "len - 1 - (?n + 1) = length (k @ ''='' @ v)"
      using l by simp
    moreover have "drop (?n + 1) (r @ rest) = (k @ ''='' @ v) @ [CHR 0x0A] @ rest"
      by (simp add: s)
    ultimately show ?thesis
      unfolding slice_def by (metis append_eq_conv_conj)
  qed
  have e: "index_of (CHR ''='') (k @ ''='' @ v) = Some (length k)"
    using assms(1) index_of_append [of "CHR ''=''" k v] by (simp add: record_ok_def)
  have k: "1 \<le> length k" "k \<noteq> []"
    using assms(1) by (cases k; auto simp: record_ok_def)+
  have "0 < len" "len \<le> length (r @ rest)" "\<not> len \<le> ?n + 3"
    using l k len by auto
  moreover have "NUL \<notin> set (k @ ''='' @ v)" "valid_utf8 (k @ ''='' @ v)" "\<not> has_prefix k ''GNU.sparse''" "k \<noteq> ''SCHILY.filetype''"
    using assms(1) by (auto simp: record_ok_def)
  ultimately show ?thesis
    unfolding pax_entry_def i opt_bind_simps t Let_def parse_format_nat [of 10, simplified] body e
    using n nl itoa_decimal [of len] k assms(2) len by simp
qed

lemma pax_records_parse:
  assumes "pax_records m = Some data" "list_all record_ok m" "distinct (map fst m)" "fst ` set m \<inter> set seen = {}" "length data < 10 ^ 8"
  shows "parse_pax_from seen data = Some m"
  using assms
proof (induction m arbitrary: seen data)
  case Nil
  then show ?case
    by (simp add: parse_pax_from.simps)
next
  case (Cons p m)
  obtain k v where p: "p = (k, v)"
    by (cases p)
  obtain r rs where r: "pax_record k v = Some r" "pax_records m = Some rs" "data = r @ rs"
    using Cons.prems(1) by (auto simp: p opt_bind_Some)
  have e: "pax_entry seen (r @ rs) = Some (length r, k, v)"
    using pax_entry_record [OF _ _ r(1)] Cons.prems(2,4,5) r(3) p by simp
  have "parse_pax_from (k # seen) rs = Some m"
    using Cons.IH [OF r(2)] Cons.prems(2-5) r(3) p by auto
  moreover have "r \<noteq> []"
    using pax_entry_length [OF e] by auto
  ultimately show ?case
    using e by (subst parse_pax_from.simps) (simp add: r(3) p)
qed

section \<open>Header fields\<close>

lemma zeros_simps [simp]: "length (zeros n) = n" "all_zero (zeros n)" "zeros 0 = []"
  by (simp_all add: zeros_def all_zero_def list_all_iff)

lemma takeWhile_text: "NUL \<notin> set v \<Longrightarrow> takeWhile (\<lambda>c. c \<noteq> NUL) (v @ zeros n) = v"
  by (cases n) (auto simp: zeros_def takeWhile_append)

lemma put_text_Some:
  assumes "put_text v n = Some f"
  shows "length f = n" "valid_utf8 v \<Longrightarrow> text_field f = Some v"
proof -
  have f: "f = v @ zeros (n - length v)" "length v \<le> n" "NUL \<notin> set v"
    using assms by (auto simp: put_text_def split: if_splits)
  show "length f = n"
    using f(1,2) by simp
  show "text_field f = Some v" if "valid_utf8 v"
    using that takeWhile_text [OF f(3)] by (simp add: text_field_def f(1))
qed

lemma put_wide_length [simp]: "length (put_wide k v) = k"
  by (induction k v rule: put_wide.induct) simp_all

lemma base256_append: "base256 v (a @ b) = opt_bind (base256 v a) (\<lambda>w. base256 w b)"
  by (induction v a rule: base256.induct) auto

lemma base256_put_wide: "v \<le> max_integer \<Longrightarrow> v < 256 ^ k \<Longrightarrow> base256 0 (put_wide k v) = Some v"
proof (induction k v rule: put_wide.induct)
  case (2 k v)
  have "v div 256 < 256 ^ k"
    using 2(3) by (simp add: less_mult_imp_div_less mult.commute)
  moreover have "v div 256 \<le> max_integer div 256"
    using 2(2) by (rule div_le_mono)
  moreover have "v div 256 \<le> max_integer"
    using 2(2) by (meson div_le_dividend order_trans)
  ultimately have "base256 0 (put_wide k (v div 256)) = Some (v div 256)" "\<not> v div 256 > max_integer div 256"
    using 2(1) by simp_all
  then show ?case
    by (simp add: base256_append byte_def)
qed simp

lemma octal_digits: "c \<in> set (format_nat 8 n) \<Longrightarrow> is_octal c"
proof (induction n rule: less_induct)
  case (less n)
  show ?case
  proof (cases "n < 8")
    case True
    then have "format_nat 8 n = [digit_char n]"
      by (subst format_nat.simps) simp
    then show ?thesis
      using less.prems True by (simp add: is_octal_def digit_char_def byte_def)
  next
    case False
    then have f: "format_nat 8 n = format_nat 8 (n div 8) @ [digit_char (n mod 8)]"
      by (subst format_nat.simps) simp
    have "n mod 8 < 8"
      by simp
    then have "is_octal (digit_char (n mod 8))"
      by (simp add: is_octal_def digit_char_def byte_def)
    then show ?thesis
      using less.IH [of "n div 8"] less.prems False by (auto simp: f)
  qed
qed

text \<open>A field of octal digits ended by a NUL or by the field itself.\<close>

lemma octal_trim: "list_all is_octal t \<Longrightarrow> trim_space t = t"
proof (rule trim_space_id)
  assume o: "list_all is_octal t"
  have "visible c" if "is_octal c" for c
    using that by (simp add: is_octal_def visible_def byte_def)
  then show "t = [] \<or> visible (hd t) \<and> visible (last t)"
    using o by (auto simp: list_all_iff)
qed

lemma integer_octal:
  assumes "list_all is_octal t" "t \<noteq> []" "parse_nat 8 t \<le> max_integer"
  shows "integer (t @ NUL # rest) = Some (int (parse_nat 8 t))"
proof -
  have t: "takeWhile (\<lambda>c. c \<noteq> NUL) (t @ NUL # rest) = t"
    using assms(1) by (induction t) (auto simp: is_octal_def byte_def)
  have "valid_utf8 t"
    using assms(1) by (intro valid_utf8_ascii) (auto simp: list_all_iff is_octal_def)
  then have f: "text_field (t @ NUL # rest) = Some t"
    by (simp add: text_field_def t)
  have "\<not> 128 \<le> byte (hd (t @ NUL # rest))"
    using assms(1,2) by (cases t) (auto simp: is_octal_def)
  then show ?thesis
    using assms octal_trim [OF assms(1)] by (simp add: integer_def f)
qed

lemma put_number_Some:
  assumes "put_number v n = Some f" "2 \<le> n"
  shows "length f = n" "integer f = Some v" "0 \<le> v"
proof -
  let ?o = "format_nat 8 (nat v)"
  have v: "0 \<le> v" "nat v \<le> max_integer" "\<not> v > int max_integer"
    using assms(1) by (auto simp: put_number_def split: if_splits)
  then show "0 \<le> v" by simp
  have "length f = n \<and> integer f = Some v"
  proof (cases "length ?o < n")
    case True
    let ?t = "replicate (n - 1 - length ?o) (CHR ''0'') @ ?o"
    have oct: "list_all is_octal ?t"
      using octal_digits by (auto simp: list_all_iff is_octal_def byte_def)
    have len: "length ?t = n - 1"
      using True by simp
    have "put_text ?t n = Some f"
      using assms(1) v True by (simp add: put_number_def Let_def)
    then have "f = ?t @ zeros (n - length ?t)"
      by (simp add: put_text_def split: if_splits)
    moreover have "zeros (n - length ?t) = [NUL]"
      using len assms(2) by (simp add: zeros_def)
    moreover have "integer (?t @ [NUL]) = Some (int (parse_nat 8 ?t))"
      using integer_octal [OF oct, of "[]"] v(2) by (simp add: parse_zeros parse_format_nat)
    ultimately show ?thesis
      using len assms(2) v(1) by (simp add: parse_zeros parse_format_nat)
  next
    case False
    then have f: "f = char_of (128 :: nat) # put_wide (n - 1) (nat v)" "nat v div 256 ^ (n - 1) = 0"
      using assms(1) v by (auto simp: put_number_def split: if_splits)
    have "nat v < 256 ^ (n - 1)"
      using f(2) by (simp add: div_eq_0_iff)
    then have "base256 0 (put_wide (n - 1) (nat v)) = Some (nat v)"
      by (rule base256_put_wide [OF v(2)])
    moreover have "byte (char_of (128 :: nat)) = 128"
      by (simp add: byte_def)
    ultimately show ?thesis
      using v assms(2) unfolding f integer_def by simp
  qed
  then show "length f = n" "integer f = Some v"
    by simp_all
qed

section \<open>Header blocks\<close>

lemma byte_sum_append [simp]: "byte_sum (a @ b) = byte_sum a + byte_sum b"
  by (simp add: byte_sum_def)

lemma byte_sum_bound: "byte_sum s \<le> 255 * length s"
proof (induction s)
  case (Cons c s)
  then show ?case
    using byte_bound [of c] by (simp add: byte_sum_def)
qed (simp add: byte_sum_def)

text \<open>A block by its parts.\<close>

definition header_block :: "string \<Rightarrow> string \<Rightarrow> string \<Rightarrow> string" where
  "header_block front checksum rear = front @ checksum @ rear"

lemma header_slices:
  assumes "length front = 148" "length checksum = 8"
  shows "slice 0 148 (header_block front checksum rear) = front" "slice 148 156 (header_block front checksum rear) = checksum"
    "slice 156 512 (header_block front checksum rear) = take 356 rear"
    "b \<le> 148 \<Longrightarrow> slice a b (header_block front checksum rear) = slice a b front"
    "156 \<le> a \<Longrightarrow> slice a b (header_block front checksum rear) = slice (a - 156) (b - 156) rear"
  using assms by (simp_all add: slice_def header_block_def)

lemma checksum_field:
  assumes "n \<le> 130560"
  shows "let e = format_nat 8 n; c = replicate (6 - length e) (CHR ''0'') @ e;
             f = take 6 c @ [NUL] @ drop 7 (take 8 (c @ replicate 2 (CHR '' '')))
         in length f = 8 \<and> integer f = Some (int n)"
proof -
  let ?e = "format_nat 8 n"
  let ?c = "replicate (6 - length ?e) (CHR ''0'') @ ?e"
  have "length ?e \<le> 6"
    using format_nat_length [of 8 n 6] assms by simp
  then have l: "length ?c = 6"
    by simp
  have oct: "list_all is_octal ?c"
    using octal_digits by (auto simp: list_all_iff is_octal_def byte_def)
  have "integer (?c @ NUL # '' '') = Some (int (parse_nat 8 ?c))"
    using assms by (intro integer_octal [OF oct]) (simp_all add: parse_zeros parse_format_nat max_integer_def)
  then have "integer (?c @ NUL # '' '') = Some (int n)"
    by (simp add: parse_zeros parse_format_nat)
  moreover have "take 6 ?c @ [NUL] @ drop 7 (take 8 (?c @ replicate 2 (CHR '' ''))) = ?c @ NUL # '' ''"
    using l by (simp add: numeral_2_eq_2)
  ultimately show ?thesis
    using l unfolding Let_def by simp
qed

text \<open>What a written block reads as.\<close>

definition written :: "'f float_ops \<Rightarrow> 'f header \<Rightarrow> char \<Rightarrow> string option \<Rightarrow> 'f header" where
  "written ops h flag override =
     h\<lparr>h_name := (case override of
          Some n \<Rightarrow> n | None \<Rightarrow> if flag = CHR ''x'' \<or> flag = CHR ''g'' then ''PaxHeader'' else h_name h),
       h_type := the (map_of entry_types flag), h_mtime := of_seconds ops (whole_seconds ops (h_mtime h)), h_pax := []\<rparr>"

lemma raw_header_Some:
  assumes "raw_header ops h flag = Some b"
  shows "\<exists>name mode uid gid size mtime link checksum.
    put_text (h_name h) 100 = Some name \<and> put_number (h_mode h) 8 = Some mode \<and> put_number (h_uid h) 8 = Some uid \<and>
    put_number (h_gid h) 8 = Some gid \<and> put_number (h_size h) 12 = Some size \<and>
    put_number (whole_seconds ops (h_mtime h)) 12 = Some mtime \<and> put_text (h_link h) 100 = Some link \<and>
    (let front = name @ mode @ uid @ gid @ size @ mtime; rear = flag # link @ ''ustar'' @ [NUL] @ ''00'' @ zeros 247
     in length front = 148 \<and> length rear = 356 \<and> length checksum = 8 \<and>
        integer checksum = Some (int (256 + byte_sum front + byte_sum rear)) \<and> b = header_block front checksum rear)"
proof -
  obtain name mode uid gid size mtime link where f:
    "put_text (h_name h) 100 = Some name" "put_number (h_mode h) 8 = Some mode" "put_number (h_uid h) 8 = Some uid"
    "put_number (h_gid h) 8 = Some gid" "put_number (h_size h) 12 = Some size"
    "put_number (whole_seconds ops (h_mtime h)) 12 = Some mtime" "put_text (h_link h) 100 = Some link"
    using assms by (auto simp: raw_header_def opt_bind_Some)
  define front where "front = name @ mode @ uid @ gid @ size @ mtime"
  define rear where "rear = flag # link @ ''ustar'' @ [NUL] @ ''00'' @ zeros 247"
  define n where "n = byte_sum (front @ replicate 8 (CHR '' '') @ rear)"
  define c where "c = replicate (6 - length (format_nat 8 n)) (CHR ''0'') @ format_nat 8 n"
  define checksum where "checksum = take 6 c @ [NUL] @ drop 7 (take 8 (c @ replicate 2 (CHR '' '')))"
  have b: "b = header_block front checksum rear"
  proof -
    have "raw_header ops h flag = Some (header_block front checksum rear)"
      unfolding raw_header_def f opt_bind_simps Let_def front_def rear_def n_def c_def checksum_def header_block_def append_assoc
      by (rule refl)
    then show ?thesis
      using assms by simp
  qed
  have lengths: "length front = 148" "length rear = 356"
    using f put_text_Some(1) put_number_Some(1) by (simp_all add: front_def rear_def)
  have n: "n = 256 + byte_sum front + byte_sum rear"
    by (simp add: n_def byte_sum_def byte_def sum_list_replicate)
  then have "n \<le> 130560"
    using byte_sum_bound [of front] byte_sum_bound [of rear] lengths by simp
  from checksum_field [OF this] have "length checksum = 8" "integer checksum = Some (int n)"
    unfolding checksum_def c_def Let_def by simp_all
  then show ?thesis
    using f b lengths n unfolding front_def rear_def Let_def by blast
qed

lemma decode_raw_header:
  assumes "raw_header ops h flag = Some b" "flag \<in> fst ` set entry_types"
    "override = None \<and> flag \<noteq> CHR ''x'' \<and> flag \<noteq> CHR ''g'' \<Longrightarrow> valid_utf8 (h_name h)" "valid_utf8 (h_link h)"
  shows "length b = block_size" "\<not> all_zero b" "decode_header ops b override = Some (written ops h flag override)"
proof -
  obtain name mode uid gid size mtime link checksum where f:
    "put_text (h_name h) 100 = Some name" "put_number (h_mode h) 8 = Some mode" "put_number (h_uid h) 8 = Some uid"
    "put_number (h_gid h) 8 = Some gid" "put_number (h_size h) 12 = Some size"
    "put_number (whole_seconds ops (h_mtime h)) 12 = Some mtime" "put_text (h_link h) 100 = Some link"
    and g: "let front = name @ mode @ uid @ gid @ size @ mtime; rear = flag # link @ ''ustar'' @ [NUL] @ ''00'' @ zeros 247
     in length front = 148 \<and> length rear = 356 \<and> length checksum = 8 \<and>
        integer checksum = Some (int (256 + byte_sum front + byte_sum rear)) \<and> b = header_block front checksum rear"
    using raw_header_Some [OF assms(1)] by blast
  define front where "front = name @ mode @ uid @ gid @ size @ mtime"
  define rear where "rear = flag # link @ ''ustar'' @ [NUL] @ ''00'' @ zeros 247"
  have b: "length front = 148" "length rear = 356" "length checksum = 8"
    "integer checksum = Some (int (256 + byte_sum front + byte_sum rear))" "b = header_block front checksum rear"
    using g unfolding front_def rear_def Let_def by blast+
  have lens: "length name = 100" "length mode = 8" "length uid = 8" "length gid = 8" "length size = 12" "length mtime = 12" "length link = 100"
    using f put_text_Some(1) put_number_Some(1) by simp_all
  have ints: "integer mode = Some (h_mode h)" "integer uid = Some (h_uid h)" "integer gid = Some (h_gid h)" "integer size = Some (h_size h)"
    "integer mtime = Some (whole_seconds ops (h_mtime h))"
    using f put_number_Some(2) by simp_all
  have slices: "slice 0 100 b = name" "slice 100 108 b = mode" "slice 108 116 b = uid" "slice 116 124 b = gid" "slice 124 136 b = size"
    "slice 136 148 b = mtime" "slice 157 257 b = link" "slice 257 263 b = ''ustar'' @ [NUL]" "slice 345 500 b = zeros 155"
    "slice 148 156 b = checksum" "slice 0 148 b = front" "slice 156 512 b = rear"
    using lens b(2) unfolding b(5) by (simp_all add: header_slices [OF b(1,3)]) (simp_all add: front_def rear_def slice_def lens zeros_def)
  have flag: "b ! 156 = flag"
    unfolding b(5) header_block_def using b(1,3) by (simp add: nth_append rear_def)
  show "length b = block_size"
    using b by (simp add: header_block_def block_size_def)
  show "\<not> all_zero b"
    unfolding b(5) header_block_def rear_def by (simp add: all_zero_def)
  have texts: "text_field (''ustar'' @ [NUL]) = Some ''ustar''" "trim_space ''ustar'' = ''ustar''" "text_field (zeros 155) = Some []"
    "text_field link = Some (h_link h)" "override = None \<and> flag \<noteq> CHR ''x'' \<and> flag \<noteq> CHR ''g'' \<Longrightarrow> text_field name = Some (h_name h)"
  proof -
    show "text_field (''ustar'' @ [NUL]) = Some ''ustar''" "trim_space ''ustar'' = ''ustar''"
      by code_simp+
    show "text_field (zeros 155) = Some []"
      by (simp add: text_field_def zeros_def valid_utf8_def)
    show "text_field link = Some (h_link h)"
      using put_text_Some(2) [OF f(7) assms(4)] .
    show "text_field name = Some (h_name h)" if "override = None \<and> flag \<noteq> CHR ''x'' \<and> flag \<noteq> CHR ''g''"
      using put_text_Some(2) [OF f(1) assms(3) [OF that]] .
  qed
  have kind: "map_of entry_types flag = Some (the (map_of entry_types flag))" "flag \<noteq> NUL"
    using assms(2) by (auto simp: entry_types_def)
  show "decode_header ops b override = Some (written ops h flag override)"
  proof -
    obtain k where k: "map_of entry_types flag = Some k"
      using kind(1) by blast
    have "decode_header ops b override =
      opt_bind (case (if override = None \<and> (flag = CHR ''x'' \<or> flag = CHR ''g'') then Some ''PaxHeader'' else override) of
          Some n \<Rightarrow> Some n | None \<Rightarrow> opt_bind (text_field name) (\<lambda>name. Some name)) (\<lambda>name.
        Some \<lparr>h_name = name, h_type = k, h_size = h_size h, h_mode = h_mode h, h_uid = h_uid h, h_gid = h_gid h,
          h_mtime = of_seconds ops (whole_seconds ops (h_mtime h)), h_link = h_link h, h_pax = []\<rparr>)"
      unfolding decode_header_def slices ints texts(1-4) b(4) opt_bind_simps flag Let_def
      using \<open>length b = block_size\<close> kind(2) k by (simp cong: option.case_cong)
    then show ?thesis
      using texts(5) k by (cases override) (auto simp: written_def)
  qed
qed

section \<open>Archives\<close>

lemma skip_padding_padding: "skip_padding fin n (padding n @ rest) = Inr rest"
  by (simp add: skip_padding_def padding_def)

lemma merge_distinct: "distinct (map fst l) \<Longrightarrow> merge [] l = l"
proof -
  have "distinct (map fst l) \<Longrightarrow> fst ` set a \<inter> fst ` set l = {} \<Longrightarrow> merge a l = a @ l" for a :: "(string \<times> string) list"
  proof (induction l arbitrary: a)
    case (Cons p l)
    obtain k v where p: "p = (k, v)"
      by (cases p)
    have "k \<notin> fst ` set a"
      using Cons.prems(2) p by auto
    then have "AList.update k v a = a @ [(k, v)]"
      by (induction a) auto
    then show ?case
      using Cons.IH [of "a @ [(k, v)]"] Cons.prems p by (auto simp: merge_def)
  qed (simp add: merge_def)
  then show "distinct (map fst l) \<Longrightarrow> merge [] l = l"
    by simp
qed

definition loc_pax :: "(string \<times> string) list \<Rightarrow> (string \<times> string) list option" where
  "loc_pax pax = (if pax = [] then None else Some pax)"

text \<open>The PAX header of an entry is read into its records.\<close>

lemma walk_pax_block:
  fixes visit :: "('f, 's, 'e) visitor"
  assumes "pax_block ops pax = Some front" "list_all record_ok pax" "distinct (map fst pax)" "metadata < max_headers"
  shows "walk_from ops visit fin st [] None metadata (front @ rest) =
    walk_from ops visit fin st [] (loc_pax pax) (if pax = [] then metadata else metadata + 1) rest"
proof (cases "pax = []")
  case True
  then show ?thesis
    using assms(1) by (simp add: pax_block_def loc_pax_def)
next
  case False
  let ?h = "\<lambda>n. \<lparr>h_name = ''PaxHeader'', h_type = [], h_size = int n, h_mode = 420, h_uid = 0, h_gid = 0,
    h_mtime = of_seconds ops 0, h_link = [], h_pax = []\<rparr>"
  obtain records block where r: "pax_records pax = Some records" "length records \<le> max_metadata"
    "raw_header ops (?h (length records)) (CHR ''x'') = Some block" "front = block @ records @ padding (length records)"
    using assms(1) False by (auto simp: pax_block_def opt_bind_Some split: if_splits)
  have x: "CHR ''x'' \<in> fst ` set entry_types"
    by (simp add: entry_types_def)
  have b: "length block = block_size" "\<not> all_zero block"
    "decode_header ops block None = Some (written ops (?h (length records)) (CHR ''x'') None)"
    using decode_raw_header [OF r(3) x, of None] by (simp_all add: valid_utf8_def)
  have h: "h_type (written ops (?h n) (CHR ''x'') None) = ''pax-header''" "h_size (written ops (?h n) (CHR ''x'') None) = int n" for n
    by (simp_all add: written_def entry_types_def)
  have "length records < 10 ^ 8"
    using r(2) by (simp add: max_metadata_def)
  then have "parse_pax records = Some pax"
    unfolding parse_pax_def using pax_records_parse [OF r(1) assms(2,3), of "[]"] by simp
  then have p: "read_pax fin (length records) (records @ padding (length records) @ rest) = (Inr (pax, rest) :: 'e walk_error + _)"
    by (simp add: read_pax_def skip_padding_padding)
  show ?thesis
    using False assms(4) r(2,4) b h p
    by (subst walk_from.simps) (simp add: path_override_def loc_pax_def)
qed

text \<open>How an entry reads back.\<close>

definition stored :: "'f float_ops \<Rightarrow> 'f header \<Rightarrow> 'f header option" where
  "stored ops h =
     opt_bind (flag_of (h_type h)) (\<lambda>flag.
       let pax = entry_pax ops h
       in apply_pax ops (written ops (if map_of pax ''path'' = None then h else h\<lparr>h_name := ''entry''\<rparr>) flag (map_of pax ''path'')) pax)"

definition storable :: "'f float_ops \<Rightarrow> 'f header \<times> string \<Rightarrow> bool" where
  "storable ops e \<longleftrightarrow>
     (case e of (h, b) \<Rightarrow>
        list_all record_ok (entry_pax ops h) \<and> distinct (map fst (entry_pax ops h)) \<and> valid_utf8 (h_link h) \<and>
        (map_of (entry_pax ops h) ''path'' = None \<longrightarrow> valid_utf8 (h_name h)) \<and>
        h_type h \<notin> {''pax-header'', ''pax-global-header''} \<and> encode_header ops h \<noteq> None \<and>
        (case stored ops h of
           None \<Rightarrow> False
         | Some h' \<Rightarrow> h_size h' = int (length b) \<and> (h_type h' = ''file'' \<or> b = [])))"

definition archive_entry :: "'f float_ops \<Rightarrow> 'f header \<times> string \<Rightarrow> string" where
  "archive_entry ops e = (case e of (h, b) \<Rightarrow> the (encode_header ops h) @ b @ padding (length b))"

definition archive :: "'f float_ops \<Rightarrow> ('f header \<times> string) list \<Rightarrow> string" where
  "archive ops es = concat (map (archive_entry ops) es) @ archive_end"

fun visit_all :: "('f, 's, 'e) visitor \<Rightarrow> 's \<Rightarrow> ('f header \<times> string) list \<Rightarrow> 's \<times> 'e walk_error option" where
  "visit_all visit st [] = (st, None)"
| "visit_all visit st ((h, b) # es) =
     (case visit st h b None of
        (st', Some e) \<Rightarrow> (st', Some (Visited e))
      | (st', None) \<Rightarrow> visit_all visit st' es)"

lemma flag_of_known: "flag_of k = Some f \<Longrightarrow> f \<in> fst ` set entry_types"
  by (auto simp: flag_of_def entry_types_def split: if_splits)

lemma flag_of_kind:
  "flag_of k = Some f \<Longrightarrow> k \<notin> {''pax-header'', ''pax-global-header''} \<Longrightarrow>
     the (map_of entry_types f) \<notin> {''pax-header'', ''pax-global-header''} \<and> f \<noteq> CHR ''x'' \<and> f \<noteq> CHR ''g''"
  by (auto simp: flag_of_def entry_types_def split: if_splits)

lemma apply_pax_type: "apply_pax ops h pax = Some h' \<Longrightarrow> h_type h' = h_type h"
  by (auto simp: apply_pax_def opt_bind_Some)

lemma walk_entry:
  assumes "storable ops (h, b)" "stored ops h = Some h'" "metadata < max_headers"
  shows "\<exists>m \<le> metadata + 1. walk_from ops visit fin st [] None metadata (archive_entry ops (h, b) @ rest) =
    (case visit st h' b None of
       (st', Some e) \<Rightarrow> (st', Some (Visited e))
     | (st', None) \<Rightarrow> walk_from ops visit fin st' [] None m rest)"
proof -
  let ?pax = "entry_pax ops h"
  let ?entry = "if map_of ?pax ''path'' = None then h else h\<lparr>h_name := ''entry''\<rparr>"
  have s: "list_all record_ok ?pax" "distinct (map fst ?pax)" "valid_utf8 (h_link h)"
    "map_of ?pax ''path'' = None \<longrightarrow> valid_utf8 (h_name h)" "h_type h \<notin> {''pax-header'', ''pax-global-header''}"
    "h_size h' = int (length b)" "h_type h' = ''file'' \<or> b = []"
    using assms(1,2) by (simp_all add: storable_def)
  obtain enc where enc: "encode_header ops h = Some enc"
    using assms(1) by (auto simp: storable_def)
  obtain flag front raw where e: "flag_of (h_type h) = Some flag" "pax_block ops ?pax = Some front"
    "raw_header ops ?entry flag = Some raw" "enc = front @ raw"
    using enc by (auto simp: encode_header_def opt_bind_Some Let_def split: if_splits)
  have h': "apply_pax ops (written ops ?entry flag (map_of ?pax ''path'')) ?pax = Some h'"
    using assms(2) e(1) by (simp add: stored_def Let_def)
  have raw: "length raw = block_size" "\<not> all_zero raw"
    "decode_header ops raw (map_of ?pax ''path'') = Some (written ops ?entry flag (map_of ?pax ''path''))"
    using decode_raw_header [OF e(3) flag_of_known [OF e(1)], of "map_of ?pax ''path''"] s(3,4) by auto
  have kind: "h_type (written ops ?entry flag (map_of ?pax ''path'')) \<notin> {''pax-header'', ''pax-global-header''}"
    using flag_of_kind [OF e(1) s(5)] by (simp add: written_def)
  have over: "path_override [] (loc_pax ?pax) = map_of ?pax ''path''"
    by (simp add: path_override_def loc_pax_def split: option.split)
  have merged: "merge [] (case loc_pax ?pax of None \<Rightarrow> [] | Some l \<Rightarrow> l) = ?pax"
    using merge_distinct [OF s(2)] by (simp add: loc_pax_def merge_def)
  let ?m = "if ?pax = [] then metadata else metadata + 1"
  have "walk_from ops visit fin st [] None metadata (archive_entry ops (h, b) @ rest) =
    walk_from ops visit fin st [] (loc_pax ?pax) ?m (raw @ b @ padding (length b) @ rest)"
    using walk_pax_block [OF e(2) s(1,2) assms(3), of visit fin st "raw @ b @ padding (length b) @ rest"]
    by (simp add: archive_entry_def enc e(4))
  also have "\<dots> = (case visit st h' b None of
       (st', Some e) \<Rightarrow> (st', Some (Visited e))
     | (st', None) \<Rightarrow> walk_from ops visit fin st' [] None ?m rest)"
    using raw kind h' s(6,7) over merged
    by (subst walk_from.simps) (auto simp: read_body_def skip_padding_padding split: prod.split option.split)
  finally show ?thesis
    by (intro exI [of _ ?m]) simp
qed

lemma archive_end_read: "length archive_end = 2 * block_size" "all_zero archive_end"
  by (simp_all add: archive_end_def)

lemma walk_archive:
  "list_all (storable ops) es \<Longrightarrow> metadata + length es \<le> max_headers \<Longrightarrow>
     walk_from ops visit Eof st [] None metadata (archive ops es) =
     visit_all visit st (map (\<lambda>(h, b). (the (stored ops h), b)) es)"
proof (induction es arbitrary: st metadata)
  case Nil
  have "all_zero (take n archive_end)" "all_zero (drop n archive_end)" for n
    by (simp_all add: archive_end_def all_zero_def zeros_def list_all_iff in_set_takeD in_set_dropD)
  moreover have "all_zero []"
    by (simp add: all_zero_def)
  ultimately show ?case
    by (subst walk_from.simps) (simp add: archive_def archive_end_read walk_end_def block_size_def)
next
  case (Cons e es)
  obtain h b where e: "e = (h, b)"
    by (cases e)
  have ok: "storable ops (h, b)" "list_all (storable ops) es"
    using Cons.prems(1) e by simp_all
  then obtain h' where h': "stored ops h = Some h'"
    by (auto simp: storable_def split: option.splits)
  have "archive ops (e # es) = archive_entry ops (h, b) @ archive ops es"
    by (simp add: archive_def e)
  moreover obtain m where m: "m \<le> metadata + 1"
    "walk_from ops visit Eof st [] None metadata (archive_entry ops (h, b) @ archive ops es) =
      (case visit st h' b None of
         (st', Some e) \<Rightarrow> (st', Some (Visited e))
       | (st', None) \<Rightarrow> walk_from ops visit Eof st' [] None m (archive ops es))"
    using walk_entry [OF ok(1) h', of metadata visit Eof st "archive ops es"] Cons.prems(2) by auto
  ultimately show ?case
    using Cons.IH [OF ok(2), of m] Cons.prems(2) m(1) h' e by (auto split: prod.split option.split)
qed

section \<open>What is read of a header\<close>

text \<open>What the archives rely on of \<open>math\<close> and \<open>strconv\<close>: whole seconds convert exactly, and a
  time in range is formatted as decimal digits that parse back to it (\<open>FormatFloat\<close> with the
  shortest precision).\<close>

definition float_laws :: "'f float_ops \<Rightarrow> bool" where
  "float_laws ops \<longleftrightarrow>
     (\<forall>t. is_whole ops t \<longrightarrow> of_seconds ops (whole_seconds ops t) = t) \<and>
     (\<forall>t. in_range ops t \<longrightarrow>
        is_mtime (format_seconds ops t) \<and> parse_float ops (format_seconds ops t) = Some t)"

text \<open>A number of a header: the one of its own extra records, else the field.\<close>

definition number_of :: "(string \<times> string) list \<Rightarrow> string \<Rightarrow> int \<Rightarrow> int" where
  "number_of pax key field = (case map_of pax key of None \<Rightarrow> field | Some v \<Rightarrow> int (parse_nat 10 v))"

definition text_of :: "(string \<times> string) list \<Rightarrow> string \<Rightarrow> string \<Rightarrow> string" where
  "text_of pax key field = (case map_of pax key of None \<Rightarrow> field | Some v \<Rightarrow> v)"

text \<open>A header that was written, with its body: UTF-8 texts, well-formed extra records, a body of
  the size the header says, and only for files.\<close>

definition header_ok :: "'f float_ops \<Rightarrow> 'f header \<times> string \<Rightarrow> bool" where
  "header_ok ops e \<longleftrightarrow>
     (case e of (h, b) \<Rightarrow>
        encode_header ops h \<noteq> None \<and> h_type h \<notin> {''pax-header'', ''pax-global-header''} \<and>
        valid_utf8 (h_link h) \<and>
        (map_of (h_pax h) ''path'' = None \<longrightarrow> valid_utf8 (h_name h) \<and> NUL \<notin> set (h_name h)) \<and>
        list_all record_ok (h_pax h) \<and> distinct (map fst (h_pax h)) \<and>
        (\<forall>k \<in> {''size'', ''uid'', ''gid''}. \<forall>v. map_of (h_pax h) k = Some v \<longrightarrow>
           is_unsigned v \<and> parse_nat 10 v \<le> max_integer) \<and>
        (case map_of (h_pax h) ''mtime'' of
           Some v \<Rightarrow> is_mtime v \<and> (\<exists>t. parse_float ops v = Some t \<and> in_range ops t)
         | None \<Rightarrow> is_whole ops (h_mtime h) \<or> in_range ops (h_mtime h)) \<and>
        number_of (h_pax h) ''size'' (h_size h) = int (length b) \<and>
        (h_type h \<in> {[], ''file''} \<or> b = []))"

text \<open>The record of a key: the header's own; for a name of more than 100 bytes, the name; for a time
  that is not whole seconds from 1970, the time.\<close>

definition record_of :: "'f float_ops \<Rightarrow> 'f header \<Rightarrow> string \<Rightarrow> string option" where
  "record_of ops h k =
     (case map_of (h_pax h) k of
        Some v \<Rightarrow> Some v
      | None \<Rightarrow>
          if k = ''path'' \<and> 100 < length (h_name h) then Some (h_name h)
          else if k = ''mtime'' \<and> \<not> is_whole ops (h_mtime h) then Some (format_seconds ops (h_mtime h))
          else None)"

text \<open>The header that is read: every field as it was written, an extra record before the field.\<close>

definition reads_as :: "'f float_ops \<Rightarrow> 'f header \<Rightarrow> 'f header \<Rightarrow> bool" where
  "reads_as ops h h' \<longleftrightarrow>
     h_name h' = text_of (h_pax h) ''path'' (h_name h) \<and>
     h_type h' = (if h_type h = [] then ''file'' else h_type h) \<and>
     h_size h' = number_of (h_pax h) ''size'' (h_size h) \<and>
     h_mode h' = h_mode h \<and>
     h_uid h' = number_of (h_pax h) ''uid'' (h_uid h) \<and>
     h_gid h' = number_of (h_pax h) ''gid'' (h_gid h) \<and>
     h_mtime h' = (case map_of (h_pax h) ''mtime'' of None \<Rightarrow> h_mtime h | Some v \<Rightarrow> the (parse_float ops v)) \<and>
     h_link h' = text_of (h_pax h) ''linkpath'' (h_link h) \<and>
     (\<forall>k. map_of (h_pax h') k = record_of ops h k)"

lemma map_of_sort_key:
  assumes "distinct (map fst xs)"
  shows "map_of (sort_key f xs) = map_of xs" and "distinct (map fst (sort_key f xs))"
proof -
  show d: "distinct (map fst (sort_key f xs))"
    using assms by (simp add: distinct_map)
  show "map_of (sort_key f xs) = map_of xs"
    using map_of_inject_set [OF d assms] by simp
qed

lemma map_of_snoc_new: "map_of xs k = None \<Longrightarrow> map_of (xs @ [(k, v)]) x = (if x = k then Some v else map_of xs x)"
  by (induction xs) (auto split: if_splits)

lemma map_of_missing:
  "map_of (if map_of xs k = None \<and> c then xs @ [(k, v)] else xs) x =
     (case map_of xs x of Some w \<Rightarrow> Some w | None \<Rightarrow> if x = k \<and> c then Some v else None)"
  "distinct (map fst xs) \<Longrightarrow> distinct (map fst (if map_of xs k = None \<and> c then xs @ [(k, v)] else xs))"
   apply (cases "map_of xs k = None \<and> c")
    apply (auto simp: map_of_snoc_new simp del: map_of_append split: option.splits)[2]
  apply (auto simp: map_of_eq_None_iff)
  done

text \<open>The records that are written: the header's own, its long name and its time that is no field.\<close>

lemma entry_pax_map:
  assumes "distinct (map fst (h_pax h))"
  shows "map_of (entry_pax ops h) k = record_of ops h k"
    and "distinct (map fst (entry_pax ops h))"
    and "set (entry_pax ops h) = {(k, v). record_of ops h k = Some v}"
proof -
  define p where "p = (if map_of (h_pax h) ''path'' = None \<and> length (h_name h) > 100 then h_pax h @ [(''path'', h_name h)] else h_pax h)"
  define q where "q = (if map_of p ''mtime'' = None \<and> \<not> is_whole ops (h_mtime h)
            then p @ [(''mtime'', format_seconds ops (h_mtime h))] else p)"
  have dq: "distinct (map fst q)"
    unfolding q_def p_def by (intro map_of_missing(2) assms)
  have "map_of q x = record_of ops h x" for x
    unfolding q_def map_of_missing(1) unfolding p_def map_of_missing(1) record_of_def by (simp split: option.split)
  moreover have e: "entry_pax ops h = sort_key (\<lambda>(k, _). (pax_order k, k)) q"
    unfolding q_def p_def by (simp only: entry_pax_def Let_def)
  ultimately have m: "map_of (entry_pax ops h) x = record_of ops h x" for x
    by (simp add: map_of_sort_key(1) [OF dq])
  show d: "distinct (map fst (entry_pax ops h))"
    unfolding e by (rule map_of_sort_key(2) [OF dq])
  show "map_of (entry_pax ops h) k = record_of ops h k" by (rule m)
  show "set (entry_pax ops h) = {(k, v). record_of ops h k = Some v}"
    using m map_of_eq_Some_iff [OF d] by auto
qed

lemma valid_utf8_ascii_append: "list_all (\<lambda>c. byte c < 0x80) a \<Longrightarrow> valid_utf8 (a @ s) = valid_utf8 s"
  by (induction a) (auto simp: valid_utf8_def runes_ascii)

lemma is_mtime_chars:
  assumes "is_mtime v"
  shows "list_all (\<lambda>c. is_digit c \<or> c = CHR ''.'' \<or> c = CHR ''-'') v" (is "list_all ?num v")
proof -
  define t where "t = trim_prefix v ''-''"
  define r where "r = dropWhile is_digit t"
  have split: "t = takeWhile is_digit t @ r" by (simp add: r_def)
  have "r = [] \<or> hd r = CHR ''.'' \<and> is_unsigned (tl r)"
    using assms by (simp only: is_mtime_def Let_def r_def t_def)
  then have "list_all ?num r"
    by (cases r) (auto simp: is_unsigned_def list_all_iff)
  moreover have "list_all ?num (takeWhile is_digit t)"
    by (auto simp: list_all_iff dest: set_takeWhileD)
  ultimately have "list_all ?num t"
    by (subst split) simp
  moreover have "v = t \<or> v = CHR ''-'' # t"
    by (cases v) (auto simp: t_def trim_prefix_def has_prefix_def)
  ultimately show ?thesis
    by (elim disjE) simp_all
qed

lemma mtime_text: "is_mtime v \<Longrightarrow> record_ok (''mtime'', v)"
proof -
  assume "is_mtime v"
  note num = is_mtime_chars [OF this]
  then have "list_all (\<lambda>c. byte c < 0x80) (''mtime='' @ v)"
    by (auto simp: list_all_iff is_digit_def byte_def)
  moreover have "NUL \<notin> set v"
    using num by (auto simp: list_all_iff is_digit_def byte_def)
  ultimately show ?thesis
    using valid_utf8_ascii by (simp add: record_ok_def has_prefix_def)
qed

lemma path_text: "valid_utf8 v \<Longrightarrow> NUL \<notin> set v \<Longrightarrow> record_ok (''path'', v)"
  using valid_utf8_ascii_append [of "''path=''" v] by (simp add: record_ok_def has_prefix_def byte_def)

lemma flag_of_type:
  "flag_of k = Some f \<Longrightarrow> the (map_of entry_types f) = (if k = [] then ''file'' else k)"
  by (auto simp: flag_of_def entry_types_def split: if_splits)

lemma pax_number_of:
  assumes "\<And>v. map_of own k = Some v \<Longrightarrow> is_unsigned v \<and> parse_nat 10 v \<le> max_integer" "map_of pax k = map_of own k"
  shows "pax_number pax k field = Some (number_of own k field)"
  using assms by (auto simp: pax_number_def number_of_def split: option.split)

text \<open>A header that was written is read as it was.\<close>

lemma header_reads:
  assumes laws: "float_laws ops" and ok: "header_ok ops (h, b)"
  shows "\<exists>h'. stored ops h = Some h' \<and> reads_as ops h h'" and "storable ops (h, b)"
proof -
  let ?pax = "entry_pax ops h" and ?own = "h_pax h"
  have enc: "encode_header ops h \<noteq> None" and kind: "h_type h \<notin> {''pax-header'', ''pax-global-header''}"
    and link: "valid_utf8 (h_link h)" and own: "list_all record_ok ?own" "distinct (map fst ?own)"
    and name: "map_of ?own ''path'' = None \<Longrightarrow> valid_utf8 (h_name h) \<and> NUL \<notin> set (h_name h)"
    and num: "\<And>k v. k \<in> {''size'', ''uid'', ''gid''} \<Longrightarrow> map_of ?own k = Some v \<Longrightarrow>
        is_unsigned v \<and> parse_nat 10 v \<le> max_integer"
    and size: "number_of ?own ''size'' (h_size h) = int (length b)" and body: "h_type h \<in> {[], ''file''} \<or> b = []"
    using ok by (auto simp: header_ok_def)
  have time: "case map_of ?own ''mtime'' of
      Some v \<Rightarrow> is_mtime v \<and> (\<exists>t. parse_float ops v = Some t \<and> in_range ops t)
    | None \<Rightarrow> is_whole ops (h_mtime h) \<or> in_range ops (h_mtime h)"
    using ok by (simp add: header_ok_def)
  note m = entry_pax_map [OF own(2), of ops]
  obtain flag where flag: "flag_of (h_type h) = Some flag"
    using enc by (auto simp: encode_header_def opt_bind_Some)
  let ?entry = "if map_of ?pax ''path'' = None then h else h\<lparr>h_name := ''entry''\<rparr>"
  define w' where "w' = written ops ?entry flag (map_of ?pax ''path'')"
  let ?time = "case map_of ?own ''mtime'' of None \<Rightarrow> h_mtime h | Some v \<Rightarrow> the (parse_float ops v)"
  have w: "h_mode w' = h_mode h" "h_uid w' = h_uid h" "h_gid w' = h_gid h" "h_size w' = h_size h" "h_link w' = h_link h"
      "h_type w' = (if h_type h = [] then ''file'' else h_type h)" "h_mtime w' = of_seconds ops (whole_seconds ops (h_mtime h))"
    using flag_of_type [OF flag] by (simp_all add: written_def w'_def)
  have nm: "(case map_of ?pax ''path'' of None \<Rightarrow> h_name w' | Some v \<Rightarrow> v) = text_of ?own ''path'' (h_name h)"
    using flag_of_kind [OF flag kind] by (auto simp: m(1) record_of_def text_of_def written_def w'_def split: option.split)
  have pn: "pax_number ?pax k field = Some (number_of ?own k field)" if "k \<in> {''size'', ''uid'', ''gid''}" for k field
    using that num by (intro pax_number_of) (auto simp: m(1) record_of_def split: option.split)
  have tm: "(case map_of ?pax ''mtime'' of None \<Rightarrow> Some (of_seconds ops (whole_seconds ops (h_mtime h)))
      | Some v \<Rightarrow> if \<not> is_mtime v then None
          else opt_bind (parse_float ops v) (\<lambda>t. if in_range ops t then Some t else None)) = Some ?time"
    using time laws by (auto simp: m(1) record_of_def float_laws_def split: option.splits)
  have lk: "(case map_of ?pax ''linkpath'' of None \<Rightarrow> h_link h | Some v \<Rightarrow> v) = text_of ?own ''linkpath'' (h_link h)"
    by (simp add: m(1) record_of_def text_of_def split: option.split)
  let ?h' = "w'\<lparr>h_pax := ?pax, h_name := text_of ?own ''path'' (h_name h),
      h_link := text_of ?own ''linkpath'' (h_link h), h_size := number_of ?own ''size'' (h_size h),
      h_uid := number_of ?own ''uid'' (h_uid h), h_gid := number_of ?own ''gid'' (h_gid h), h_mtime := ?time\<rparr>"
  have stored: "stored ops h = Some ?h'"
    unfolding stored_def flag opt_bind_simps Let_def apply_pax_def w'_def [symmetric]
    by (simp only: pn insertI1 insertI2 opt_bind_simps w(2-5,7) tm nm lk)
  have reads: "reads_as ops h ?h'"
    by (simp add: reads_as_def w m(1))
  then show "\<exists>h'. stored ops h = Some h' \<and> reads_as ops h h'"
    using stored by blast
  have rec: "record_ok (k, v)" if "record_of ops h k = Some v" for k v
    using that own(1) name time laws path_text mtime_text map_of_SomeD [of ?own k v]
    by (auto simp: record_of_def list_all_iff float_laws_def split: option.splits if_splits)
  then have "list_all record_ok ?pax"
    by (auto simp: list_all_iff m(3))
  moreover have "map_of ?pax ''path'' = None \<Longrightarrow> valid_utf8 (h_name h)"
    using name by (simp add: m(1) record_of_def split: option.splits)
  moreover have "h_size ?h' = int (length b)" "h_type ?h' = ''file'' \<or> b = []"
    using size body w(6) by auto
  ultimately show "storable ops (h, b)"
    using m(2) link kind enc stored by (simp add: storable_def)
qed

text \<open>C38. An archive written entry by entry with \<open>EncodeHeader\<close>, bodies, \<open>Padding\<close> and \<open>End\<close> is
  walked back exactly: every entry is visited once, in order, with its whole body and with the header
  that was written, field by field (\<open>reads_as\<close>): name, type, size, mode, owner, group, time and link
  are those of the header, or of its own extra record where it has one, and its records are those
  extra records with the long name and the fractional or negative time added. The walk ends well
  unless the visitor stops it. The hypotheses (\<open>header_ok\<close>) are that \<open>EncodeHeader\<close> accepted each
  header, that its texts are UTF-8 and its extra records well formed, that only files have a body,
  of the size in the header, and what \<open>strconv\<close> does with times (\<open>float_laws\<close>).\<close>

theorem archive_roundtrip:
  assumes "float_laws ops" "list_all (header_ok ops) es" "length es \<le> max_headers"
  shows "\<exists>hs. list_all2 (\<lambda>e h'. reads_as ops (fst e) h') es hs \<and>
    (\<forall>visit st. walk ops visit Eof st (archive ops es) = visit_all visit st (zip hs (map snd es)))"
proof (intro exI [of _ "map (\<lambda>e. the (stored ops (fst e))) es"] conjI allI)
  have "reads_as ops (fst e) (the (stored ops (fst e))) \<and> storable ops e" if "e \<in> set es" for e
    using header_reads [OF assms(1), of "fst e" "snd e"] assms(2) that by (auto simp: list_all_iff)
  then have st: "list_all (storable ops) es"
      and rd: "list_all2 (\<lambda>e h'. reads_as ops (fst e) h') es (map (\<lambda>e. the (stored ops (fst e))) es)"
    by (auto simp: list_all2_conv_all_nth list_all_iff)
  show "list_all2 (\<lambda>e h'. reads_as ops (fst e) h') es (map (\<lambda>e. the (stored ops (fst e))) es)" by (rule rd)
  show "walk ops visit Eof st (archive ops es) =
      visit_all visit st (zip (map (\<lambda>e. the (stored ops (fst e))) es) (map snd es))" for visit st
    using walk_archive [OF st, of 0] assms(3)
    by (simp add: walk_def zip_map_map split_def zip_same_conv_map o_def)
qed

text \<open>When a header can be written.\<close>

lemma raw_header_writes:
  "put_text (h_name h) 100 \<noteq> None \<Longrightarrow> put_number (h_mode h) 8 \<noteq> None \<Longrightarrow> put_number (h_uid h) 8 \<noteq> None \<Longrightarrow>
   put_number (h_gid h) 8 \<noteq> None \<Longrightarrow> put_number (h_size h) 12 \<noteq> None \<Longrightarrow>
   put_number (whole_seconds ops (h_mtime h)) 12 \<noteq> None \<Longrightarrow> put_text (h_link h) 100 \<noteq> None \<Longrightarrow> raw_header ops h flag \<noteq> None"
  by (auto simp: raw_header_def Let_def)

definition sample_ops :: "int float_ops" where
  "sample_ops = \<lparr>of_seconds = (\<lambda>n. n), whole_seconds = (\<lambda>t. max 0 t), is_whole = (\<lambda>t. 0 \<le> t),
     parse_float = (\<lambda>s. Some (if has_prefix s ''-'' then - int (parse_nat 10 (tl s)) else int (parse_nat 10 s))),
     in_range = (\<lambda>t. \<bar>t * 1000\<bar> \<le> 8640000000000000),
     format_seconds = (\<lambda>t. if t < 0 then ''-'' @ itoa (nat (- t)) else itoa (nat t))\<rparr>"

definition sample_header :: "int header" where
  "sample_header = \<lparr>h_name = ''a'', h_type = ''file'', h_size = 3, h_mode = 420, h_uid = 0, h_gid = 0, h_mtime = - 5,
     h_link = [], h_pax = [(''uid'', ''7'')]\<rparr>"

lemma put_number_writes:
  assumes "0 \<le> v" "v \<le> int max_integer" "length (format_nat 8 (nat v)) < n"
  shows "put_number v n \<noteq> None"
proof -
  have "NUL \<notin> set (format_nat 8 (nat v))"
    using octal_digits [of NUL "nat v"] by (auto simp: is_octal_def byte_def)
  then show ?thesis
    using assms by (auto simp: put_number_def put_text_def Let_def)
qed

lemma sample_numbers:
  "put_number 420 8 \<noteq> None" "put_number 0 8 \<noteq> None" "put_number 20 12 \<noteq> None" "put_number 3 12 \<noteq> None" "put_number 0 12 \<noteq> None"
  by (rule put_number_writes; simp add: max_integer_def format_nat.simps)+

lemma sample_texts: "put_text ''PaxHeader'' 100 \<noteq> None" "put_text ''a'' 100 \<noteq> None" "put_text [] 100 \<noteq> None"
  by (simp_all add: put_text_def)

lemma sample_pax: "entry_pax sample_ops sample_header = [(''uid'', ''7''), (''mtime'', ''-5'')]"
  by code_simp

lemma sample_header_written: "encode_header sample_ops sample_header \<noteq> None"
proof -
  note p = sample_pax
  obtain r where r: "pax_records [(''uid'', ''7''), (''mtime'', ''-5'')] = Some r" "length r = 20"
  proof -
    have "map_option length (pax_records [(''uid'', ''7''), (''mtime'', ''-5'')]) = Some 20"
      by code_simp
    then show thesis
      using that by auto
  qed
  have "pax_block sample_ops [(''uid'', ''7''), (''mtime'', ''-5'')] \<noteq> None"
    using raw_header_writes [of "\<lparr>h_name = ''PaxHeader'', h_type = [], h_size = 20, h_mode = 420, h_uid = 0, h_gid = 0,
        h_mtime = of_seconds sample_ops 0, h_link = [], h_pax = []\<rparr>" sample_ops "CHR ''x''"] r
    by (auto simp: pax_block_def max_metadata_def sample_ops_def sample_numbers sample_texts)
  moreover have "raw_header sample_ops sample_header (CHR ''0'') \<noteq> None"
    by (rule raw_header_writes) (simp_all add: sample_header_def sample_ops_def sample_numbers sample_texts)
  moreover have "flag_of (h_type sample_header) = Some (CHR ''0'')" "map_of [(''uid'', ''7''), (''mtime'', ''-5'')] ''path'' = None"
    "length (h_name sample_header) = 1"
    by code_simp+
  ultimately show ?thesis
    by (auto simp: encode_header_def p Let_def)
qed

lemma itoa_mtime: "is_mtime (itoa n)" "is_mtime (CHR ''-'' # itoa n)" "\<not> has_prefix (itoa n) ''-''"
proof -
  have d: "list_all is_digit (itoa n)"
    using format_nat_digits [of 10 _ n] by (simp add: list_all_iff)
  moreover obtain c s where i: "itoa n = c # s"
    by (cases "itoa n") simp_all
  ultimately have c: "is_digit c" "dropWhile is_digit (c # s) = []" "c \<noteq> CHR ''-''"
    by (auto simp: dropWhile_eq_Nil_conv list_all_iff is_digit_def)
  then show "\<not> has_prefix (itoa n) ''-''"
    by (simp add: i has_prefix_def)
  show "is_mtime (itoa n)" "is_mtime (CHR ''-'' # itoa n)"
    using c unfolding i by (simp_all add: is_mtime_def trim_prefix_def has_prefix_def Let_def del: dropWhile.simps)
qed

lemma sample_laws: "float_laws sample_ops"
  using itoa_mtime by (auto simp: float_laws_def sample_ops_def parse_format_nat has_prefix_def)

lemma sample_ok: "header_ok sample_ops (sample_header, ''xyz'')"
proof -
  have "list_all record_ok (h_pax sample_header) \<and> distinct (map fst (h_pax sample_header)) \<and>
      valid_utf8 (h_link sample_header) \<and> valid_utf8 (h_name sample_header) \<and> h_type sample_header = ''file''"
    by code_simp
  then show ?thesis
    using sample_header_written
    by (simp add: header_ok_def sample_header_def sample_ops_def number_of_def is_unsigned_def is_digit_def
        max_integer_def parse_nat_def digit_val_def)
qed

lemma archive_roundtrip_witness:
  "walk sample_ops (\<lambda>st h b cut. (st @ [(h_name h, h_uid h, h_mtime h, b)], None :: unit option)) Eof []
     (archive sample_ops [(sample_header, ''xyz'')]) = ([(''a'', 7, - 5, ''xyz'')], None)"
proof -
  have n: "parse_nat 10 ''7'' = 7" by (simp add: parse_nat_def digit_val_def)
  have "\<exists>hs. list_all2 (\<lambda>e h'. reads_as sample_ops (fst e) h') [(sample_header, ''xyz'')] hs \<and>
      (\<forall>(visit :: (int, (string \<times> int \<times> int \<times> string) list, unit) visitor) st.
         walk sample_ops visit Eof st (archive sample_ops [(sample_header, ''xyz'')]) =
         visit_all visit st (zip hs (map snd [(sample_header, ''xyz'')])))"
    by (rule archive_roundtrip [OF sample_laws]) (simp_all add: sample_ok max_headers_def)
  then obtain h' where "reads_as sample_ops sample_header h'"
    and w: "\<And>(visit :: (int, (string \<times> int \<times> int \<times> string) list, unit) visitor) st.
      walk sample_ops visit Eof st (archive sample_ops [(sample_header, ''xyz'')]) = visit_all visit st [(h', ''xyz'')]"
    by (auto simp: list_all2_Cons1 simp del: visit_all.simps)
  then have "h_name h' = ''a''" "h_uid h' = 7" "h_mtime h' = - 5"
    by (simp_all add: reads_as_def sample_header_def number_of_def text_of_def n)
  then show ?thesis by (simp add: w)
qed

section \<open>Archives that are cut off\<close>

lemma skip_padding_blocks:
  "skip_padding fin n rest = Inr rest' \<Longrightarrow> \<exists>pre. rest = pre @ rest' \<and> length pre = padding_length n"
  by (auto simp: skip_padding_def Let_def split: if_splits intro!: exI [of _ "take (padding_length n) rest"])

lemma padded: "(n + padding_length n) mod block_size = 0"
proof (cases "n mod block_size = 0")
  case True
  then show ?thesis
    by (simp add: padding_length_def)
next
  case False
  have "n + (block_size - n mod block_size) = block_size * (n div block_size) + block_size"
  proof -
    obtain q r where r: "q = n div block_size" "r = n mod block_size"
      by blast
    have "block_size * q + r = n" "r < block_size"
      using r by (simp_all add: block_size_def)
    then show ?thesis
      unfolding r [symmetric] by linarith
  qed
  then have "(n + (block_size - n mod block_size)) mod block_size = 0"
    by simp
  then show ?thesis
    using False by (simp add: padding_length_def block_size_def)
qed

lemma padded_body:
  assumes "n \<le> length rest" "skip_padding fin n (drop n rest) = Inr rest'"
  shows "\<exists>pre. rest = pre @ rest' \<and> length pre mod block_size = 0"
proof -
  obtain pre where pre: "drop n rest = pre @ rest'" "length pre = padding_length n"
    using skip_padding_blocks [OF assms(2)] by blast
  have "take n rest @ drop n rest = (take n rest @ pre) @ rest'"
    by (simp only: pre(1) append_assoc)
  then have "rest = (take n rest @ pre) @ rest'"
    by (simp only: append_take_drop_id)
  moreover have "length (take n rest @ pre) mod block_size = 0"
    using assms(1) padded [of n] pre(2) by simp
  ultimately show ?thesis
    by (intro exI [of _ "take n rest @ pre"] conjI)
qed

lemma read_pax_blocks: "read_pax fin n rest = Inr (pax, rest') \<Longrightarrow> \<exists>pre. rest = pre @ rest' \<and> length pre mod block_size = 0"
  by (auto simp: read_pax_def res_bind_Inr intro: padded_body [OF leI] split: if_splits option.splits)

lemma read_body_blocks:
  "read_body visit fin st h rest = (st', Inr rest') \<Longrightarrow>
     nat (h_size h) \<le> length rest \<and> visit st h (take (nat (h_size h)) rest) None = (st', None) \<and>
     (\<exists>pre. rest = pre @ rest' \<and> length pre mod block_size = 0)"
  by (auto simp: read_body_def Let_def intro: padded_body [OF leI] split: if_splits option.splits prod.splits)

text \<open>A step of a walk that ends well: over an entry's blocks, or at the end.\<close>

lemma walk_from_good:
  fixes visit :: "('f, 's, 'e) visitor"
  assumes "walk_from ops visit fin st glob loc metadata src = (st', None)" "\<not> all_zero (take block_size src)"
  shows "\<exists>pre rest. src = pre @ rest \<and> pre \<noteq> [] \<and> length pre mod block_size = 0 \<and>
    ((\<exists>glob' loc' m. walk_from ops visit fin st glob' loc' m rest = (st', None)) \<or>
     (\<exists>st1 m. walk_from ops visit fin st1 glob None m rest = (st', None)))"
proof -
  have l: "\<not> length src < block_size"
    using assms(1) by (subst (asm) walk_from.simps) (auto split: if_splits)
  have add: "\<exists>pre'. src = pre' @ rest \<and> pre' \<noteq> [] \<and> length pre' mod block_size = 0"
    if pre: "drop block_size src = pre @ rest" "length pre mod block_size = 0" for pre rest
  proof -
    have "take block_size src @ drop block_size src = (take block_size src @ pre) @ rest"
      by (simp only: pre(1) append_assoc)
    then have "src = (take block_size src @ pre) @ rest"
      by (simp only: append_take_drop_id)
    moreover have "take block_size src @ pre \<noteq> []" "length (take block_size src @ pre) mod block_size = 0"
      using l pre(2) by (auto simp: block_size_def)
    ultimately show ?thesis
      by (intro exI [of _ "take block_size src @ pre"] conjI)
  qed
  note w = assms(1) [unfolded walk_from.simps [of ops visit fin st glob loc metadata src]]
  obtain h where h: "decode_header ops (take block_size src) (path_override glob loc) = Some h"
    using w l assms(2) by (cases "decode_header ops (take block_size src) (path_override glob loc)") simp_all
  show ?thesis
  proof (cases "h_type h = ''pax-header'' \<or> h_type h = ''pax-global-header''")
    case True
    then obtain pax rest where r: "read_pax fin (nat (h_size h)) (drop block_size src) = (Inr (pax, rest) :: 'e walk_error + _)"
      "\<exists>glob' loc' m. walk_from ops visit fin st glob' loc' m rest = (st', None)"
      using w l assms(2) h by (simp split: if_splits sum.splits prod.splits) blast+
    then show ?thesis
      using read_pax_blocks add by meson
  next
    case False
    then obtain h' st1 rest where r: "read_body visit fin st h' (drop block_size src) = (st1, Inr rest)"
      "walk_from ops visit fin st1 glob None metadata rest = (st', None)"
      using w l assms(2) h by (simp split: if_splits sum.splits option.splits prod.splits)
    then show ?thesis
      using read_body_blocks [OF r(1)] add by meson
  qed
qed

lemma walk_end_None:
  "walk_end fin pending rest = None \<longleftrightarrow>
     fin = Eof \<and> block_size \<le> length rest \<and> \<not> pending \<and> all_zero (take block_size rest) \<and> all_zero (drop block_size rest) \<and>
     (length rest - block_size) mod block_size = 0"
  by (cases fin) (auto simp: walk_end_def)

lemma walk_from_blocks:
  fixes visit :: "('f, 's, 'e) visitor"
  shows "walk_from ops visit fin st glob loc metadata src = (st', None) \<Longrightarrow>
     fin = Eof \<and> length src mod block_size = 0 \<and> 2 * block_size \<le> length src \<and>
     all_zero (drop (length src - 2 * block_size) src)"
proof (induction "length src" arbitrary: st glob loc metadata src rule: less_induct)
  case less
  show ?case
  proof (cases "all_zero (take block_size src)")
    case True
    then have l: "block_size \<le> length src" "walk_end fin (loc \<noteq> None) (drop block_size src) = (None :: 'e walk_error option)"
      using less.prems [unfolded walk_from.simps [of ops visit fin st glob loc metadata src]]
      by (simp_all split: if_splits)
    then have e: "fin = Eof" "2 * block_size \<le> length src" "all_zero (take block_size (drop block_size src))"
      "all_zero (drop block_size (drop block_size src))" "(length src - 2 * block_size) mod block_size = 0"
      unfolding walk_end_None by (auto simp: mult_2)
    have "all_zero (take block_size src @ take block_size (drop block_size src) @ drop block_size (drop block_size src))"
      using True e(3,4) by (simp only: all_zero_def list_all_append)
    then have "all_zero src"
      by (simp only: append_take_drop_id)
    then have "all_zero (drop (length src - 2 * block_size) src)"
      by (auto simp: all_zero_def list_all_iff dest: in_set_dropD)
    moreover have "length src mod block_size = 0"
      using e(5) mod_mult_self1 [of "length src - 2 * block_size" 2 block_size] e(2) by simp
    ultimately show ?thesis
      using e by blast
  next
    case False
    obtain pre rest where p: "src = pre @ rest \<and> pre \<noteq> [] \<and> length pre mod block_size = 0 \<and>
        ((\<exists>glob' loc' m. walk_from ops visit fin st glob' loc' m rest = (st', None)) \<or>
         (\<exists>st1 m. walk_from ops visit fin st1 glob None m rest = (st', None)))"
      using walk_from_good [OF less.prems False] by (elim exE)
    then obtain st1 glob1 loc1 m where r: "src = pre @ rest" "pre \<noteq> []" "length pre mod block_size = 0"
      "walk_from ops visit fin st1 glob1 loc1 m rest = (st', None)"
      by (elim conjE disjE exE)
    have "fin = Eof \<and> length rest mod block_size = 0 \<and> 2 * block_size \<le> length rest \<and>
        all_zero (drop (length rest - 2 * block_size) rest)"
      using less.hyps [OF _ r(4)] r(1,2) by simp
    then show ?thesis
      using r(1,3) by (auto simp: mod_add_eq [symmetric])
  qed
qed

text \<open>C39. An archive that is cut off is never accepted: a walk that ends well has met the end of its
  input, on a block boundary, after at least two blocks of zeros.\<close>

theorem accepted_archive_whole:
  assumes "walk ops visit fin st src = (st', None)"
  shows "fin = Eof \<and> length src mod block_size = 0 \<and> 2 * block_size \<le> length src \<and>
    all_zero (drop (length src - 2 * block_size) src)"
  using assms unfolding walk_def by (rule walk_from_blocks)

lemma accepted_archive_whole_witness: "all_zero (drop (length archive_end - 2 * block_size) archive_end)"
proof -
  have "walk sample_ops (\<lambda>st h b cut. (st, None :: unit option)) Eof () archive_end = ((), None)"
  proof -
    have "all_zero (take 512 archive_end)" "all_zero (take 512 (drop 512 archive_end))" "all_zero (drop 512 (drop 512 archive_end))"
      "length archive_end = 1024"
      by (simp_all add: all_zero_def archive_end_def zeros_def block_size_def list_all_iff)
    then show ?thesis
      unfolding walk_def by (subst walk_from.simps) (simp add: walk_end_def block_size_def)
  qed
  from accepted_archive_whole [OF this] show ?thesis
    by blast
qed

end
