(* ===== verification/JsonCodec.thy ===== *)
theory JsonCodec
  imports Json
begin

text \<open>
  Whole values of \<open>encoding/json\<close>: writing a value, the maps that reading one yields, and the round
  trip of canonical values, which is what makes a saved column readable after a restart.
\<close>

section \<open>Writing values\<close>

text \<open>The number of a \<open>JNum\<close> is its text. A Go map is written with its keys in order.\<close>

fun write_json :: "json \<Rightarrow> string" where
  "write_json JNull = ''null''"
| "write_json (JBool b) = (if b then ''true'' else ''false'')"
| "write_json (JNum n) = n"
| "write_json (JStr s) = json_string s"
| "write_json (JArr xs) = ''['' @ join_with '','' (map write_json xs) @ '']''"
| "write_json (JObj ms) = ''{'' @ join_with '','' (map (\<lambda>(k, x). json_string k @ '':'' @ write_json x) ms) @ ''}''"

section \<open>Reading into maps\<close>

text \<open>A later member replaces an earlier one of the same key; the order of a map is that of its keys.\<close>

type_synonym members = "(string \<times> json) list"

definition as_map :: "members \<Rightarrow> members" where
  "as_map ms = sort_key fst (AList.clearjunk (rev ms))"

fun go_value :: "json \<Rightarrow> json" where
  "go_value (JArr xs) = JArr (map go_value xs)"
| "go_value (JObj ms) = JObj (as_map (map (\<lambda>(k, x). (k, go_value x)) ms))"
| "go_value j = j"

text \<open>Decoding into \<open>map[string]any\<close>: anything but an object, \<open>null\<close> included, is refused by the callers.\<close>

definition parse_map :: "string \<Rightarrow> members option" where
  "parse_map s =
     (case parse_json s of
        Some (JObj ms) \<Rightarrow> (case go_value (JObj ms) of JObj m \<Rightarrow> Some m | _ \<Rightarrow> None)
      | _ \<Rightarrow> None)"

definition write_map :: "members \<Rightarrow> string" where
  "write_map m = write_json (JObj m)"

section \<open>Valid text\<close>

lemma rune_len_append: "rune_len s \<noteq> 0 \<Longrightarrow> rune_len (s @ t) = rune_len s"
  by (cases s; cases "tl s"; cases "tl (tl s)"; cases "tl (tl (tl s))") (auto simp: rune_len_def)

lemma runes_step:
  "rune_len s \<noteq> 0 \<Longrightarrow> runes s = (Some (take (rune_len s) s), take (rune_len s) s) # runes (drop (rune_len s) s)"
  using rune_len_le [of s] by (subst runes.simps) auto

lemma valid_utf8_Nil [simp]: "valid_utf8 []"
  by (simp add: valid_utf8_def)

lemma valid_utf8_step:
  assumes "s \<noteq> []"
  shows "valid_utf8 s \<longleftrightarrow> rune_len s \<noteq> 0 \<and> valid_utf8 (drop (rune_len s) s)"
  using assms by (subst (1) valid_utf8_def, subst runes.simps) (auto simp: valid_utf8_def)

lemma runes_append: "valid_utf8 s \<Longrightarrow> runes (s @ t) = runes s @ runes t"
proof (induction s rule: runes.induct)
  case (1 s)
  show ?case
  proof (cases "s = []")
    case False
    then have n: "rune_len s \<noteq> 0" "valid_utf8 (drop (rune_len s) s)"
      using 1(3) valid_utf8_step by blast+
    have "runes (drop (rune_len s) s @ t) = runes (drop (rune_len s) s) @ runes t"
      using 1(2) False n by simp
    then show ?thesis
      using n(1) rune_len_le [of s] runes_step [of "s @ t"] runes_step [of s] by (simp add: rune_len_append)
  qed simp
qed

lemma valid_utf8_append: "valid_utf8 s \<Longrightarrow> valid_utf8 (s @ t) \<longleftrightarrow> valid_utf8 t"
  by (simp add: valid_utf8_def runes_append)

lemma valid_utf8_concat: "list_all valid_utf8 ss \<Longrightarrow> valid_utf8 (concat ss)"
  by (induction ss) (simp_all add: valid_utf8_append)

text \<open>A sequence is one ASCII character or two and more bytes beyond ASCII.\<close>

definition rune_shape :: "string \<Rightarrow> bool" where
  "rune_shape r \<longleftrightarrow> (\<exists>c. r = [c] \<and> byte c < 128) \<or> 2 \<le> length r \<and> list_all (\<lambda>c. 128 \<le> byte c) r"

lemma rune_len_cases:
  assumes "rune_len s \<noteq> 0"
  obtains (one) a t where "s = a # t" "rune_len s = 1" "byte a < 128"
  | (two) a b t where "s = a # b # t" "rune_len s = 2" "128 \<le> byte a" "128 \<le> byte b" "rune_len [a, b] = 2"
  | (three) a b c t where "s = a # b # c # t" "rune_len s = 3" "128 \<le> byte a" "128 \<le> byte b" "128 \<le> byte c"
      "rune_len [a, b, c] = 3"
  | (four) a b c e t where "s = a # b # c # e # t" "rune_len s = 4" "128 \<le> byte a" "128 \<le> byte b" "128 \<le> byte c"
      "128 \<le> byte e" "rune_len [a, b, c, e] = 4"
proof (cases s)
  case Nil
  then show ?thesis using assms by (simp add: rune_len_def)
next
  case (Cons a s1)
  note d = rune_len_def between_def
  consider "byte a < 128" | "\<not> byte a < 128" "between 0xC2 0xDF a"
    | "\<not> byte a < 128" "\<not> between 0xC2 0xDF a" "between 0xE0 0xEF a"
    | "\<not> byte a < 128" "\<not> between 0xC2 0xDF a" "\<not> between 0xE0 0xEF a"
    by blast
  then show ?thesis
  proof cases
    case 1
    then show ?thesis using Cons one by (simp add: rune_len_def)
  next
    case 2
    obtain b t where t: "s1 = b # t" using assms Cons 2 by (cases s1) (auto simp: rune_len_def)
    have "cont b" using assms Cons 2 t by (simp add: rune_len_def split: if_splits)
    then show ?thesis using two [of a b t] Cons 2 t by (simp add: d)
  next
    case 3
    obtain b c t where t: "s1 = b # c # t"
      using assms Cons 3 by (cases s1; cases "tl s1") (auto simp: rune_len_def split: if_splits)
    have e: "rune_len s = (if byte a = 0xE0 then (if between 0xA0 0xBF b \<and> cont c then 3 else 0)
        else if byte a = 0xED then (if between 0x80 0x9F b \<and> cont c then 3 else 0)
        else if between 0xE1 0xEF a then (if cont b \<and> cont c then 3 else 0) else 0)"
      "rune_len [a, b, c] = rune_len s"
      using 3 by (auto simp: Cons t rune_len_def between_def)
    have "128 \<le> byte b \<and> 128 \<le> byte c \<and> rune_len s = 3"
      using assms unfolding e(1) by (auto simp: between_def split: if_split_asm)
    then show ?thesis using three [of a b c t] Cons 3 t e(2) by simp
  next
    case 4
    then have x: "byte a \<noteq> 0xE0" "byte a \<noteq> 0xED" "\<not> between 0xE1 0xEF a" by (auto simp: between_def)
    obtain b c e t where t: "s1 = b # c # e # t"
      using assms Cons 4 x
      by (cases s1; cases "tl s1"; cases "tl (tl s1)") (auto simp: rune_len_def)
    have l: "rune_len s = (if byte a = 0xF0 then (if between 0x90 0xBF b \<and> cont c \<and> cont e then 4 else 0)
        else if byte a = 0xF4 then (if between 0x80 0x8F b \<and> cont c \<and> cont e then 4 else 0)
        else if between 0xF1 0xF3 a then (if cont b \<and> cont c \<and> cont e then 4 else 0) else 0)"
      "rune_len [a, b, c, e] = rune_len s"
      using 4(1,2) x by (simp_all add: Cons t rune_len_def)
    have "128 \<le> byte b \<and> 128 \<le> byte c \<and> 128 \<le> byte e \<and> rune_len s = 4"
      using assms unfolding l(1) by (auto simp: between_def split: if_split_asm)
    then show ?thesis using four [of a b c e t] Cons 4 t l(2) by simp
  qed
qed

lemma rune_shape_take: "rune_len s \<noteq> 0 \<Longrightarrow> rune_shape (take (rune_len s) s)"
  by (erule rune_len_cases) (simp_all add: rune_shape_def)

lemma valid_utf8_rune: "rune_len s \<noteq> 0 \<Longrightarrow> valid_utf8 (take (rune_len s) s)"
proof -
  assume n: "rune_len s \<noteq> 0"
  let ?r = "take (rune_len s) s"
  have "rune_len ?r = rune_len s"
    by (rule rune_len_cases [OF n]) (simp_all add: rune_len_def)
  then show ?thesis
    using n rune_len_le [of s] valid_utf8_step [of ?r] by (cases "?r = []") auto
qed

lemma valid_runes:
  "valid_utf8 s \<Longrightarrow> (x, p) \<in> set (runes s) \<Longrightarrow> x = Some p \<and> rune_shape p \<and> valid_utf8 p"
proof (induction s rule: runes.induct)
  case (1 s)
  then have "s \<noteq> []" by auto
  then have n: "rune_len s \<noteq> 0" "valid_utf8 (drop (rune_len s) s)"
    using 1(3) valid_utf8_step by blast+
  show ?case
    using 1(2) [OF \<open>s \<noteq> []\<close> n] 1(4) rune_shape_take [OF n(1)] valid_utf8_rune [OF n(1)]
    by (auto simp: runes_step [OF n(1)])
qed

lemma fix_utf8_valid: "valid_utf8 s \<Longrightarrow> fix_utf8 s = s"
proof -
  assume v: "valid_utf8 s"
  have "map (\<lambda>(r, _). case r of None \<Rightarrow> replacement | Some r \<Rightarrow> r) (runes s) = map snd (runes s)"
    using valid_runes [OF v] by (intro map_cong) fastforce+
  then show ?thesis
    unfolding fix_utf8_def by (simp only: concat_runes)
qed

section \<open>Strings\<close>

lemma hex_value_small: "n < 16 \<Longrightarrow> hex_value (hex_small n) = Some n"
  by (auto simp: hex_value_def hex_small_def is_digit_def between_def byte_def)

lemma char_of_byte: "char_of (byte c) = c"
  by (simp add: byte_def)

lemma unicode_escape_low:
  assumes "byte c < 128"
  shows "unicode_escape (CHR ''0'' # CHR ''0'' # hex_small (byte c div 16) # hex_small (byte c mod 16) # u) = Some ([c], u)"
proof -
  have "hex_value (CHR ''0'') = Some 0" by code_simp
  then have "hex4 (CHR ''0'' # CHR ''0'' # hex_small (byte c div 16) # hex_small (byte c mod 16) # u) = Some (byte c, u)"
    using assms hex_value_small [of "byte c div 16"] hex_value_small [of "byte c mod 16"] by (simp add: hex4_def)
  then show ?thesis
    using assms by (simp add: unicode_escape_def encode_rune_def char_of_byte)
qed

lemma byte_backslash: "byte backslash = 92" "backslash \<noteq> quote"
  by (simp_all add: byte_def backslash_def quote_def)

lemma scan_escape:
  "simple_escape e = Some r \<Longrightarrow> e \<noteq> CHR ''u'' \<Longrightarrow>
     scan_string (backslash # e # u) = map_option (\<lambda>(x, t). (r @ x, t)) (scan_string u)"
  by (simp add: byte_backslash)

lemma scan_unicode:
  "unicode_escape s = Some (r, u) \<Longrightarrow>
     scan_string (backslash # CHR ''u'' # s) = map_option (\<lambda>(x, t). (r @ x, t)) (scan_string u)"
  by (simp add: byte_backslash)

lemma scan_beyond:
  "list_all (\<lambda>c. 128 \<le> byte c) r \<Longrightarrow> scan_string (r @ u) = map_option (\<lambda>(x, t). (r @ x, t)) (scan_string u)"
proof (induction r)
  case Nil
  then show ?case by (cases "scan_string u") auto
next
  case (Cons c r)
  then have "c \<noteq> quote" "c \<noteq> backslash" "\<not> byte c < 32"
    using byte_backslash by auto
  then show ?case
    using Cons by (cases "scan_string u") auto
qed

lemma scan_ascii:
  assumes "byte c < 128"
  shows "scan_string (json_rune (Some [c], p) @ u) = map_option (\<lambda>(x, t). ([c] @ x, t)) (scan_string u)"
proof -
  consider "c = quote \<or> c = backslash"
    | (esc) e where "(e, c) \<in> {(CHR ''b'', CHR 0x08), (CHR ''f'', CHR 0x0C), (CHR ''n'', CHR 0x0A), (CHR ''r'', CHR 0x0D), (CHR ''t'', CHR 0x09)}"
    | (hex) "c \<noteq> quote" "c \<noteq> backslash" "c \<notin> {CHR 0x08, CHR 0x0C, CHR 0x0A, CHR 0x0D, CHR 0x09}"
        "byte c < 32 \<or> c \<in> {CHR ''<'', CHR ''>'', CHR ''&''}"
    | (raw) "c \<noteq> quote" "c \<noteq> backslash" "c \<notin> {CHR 0x08, CHR 0x0C, CHR 0x0A, CHR 0x0D, CHR 0x09}"
        "\<not> byte c < 32" "c \<notin> {CHR ''<'', CHR ''>'', CHR ''&''}"
    by blast
  then show ?thesis
  proof cases
    case 1
    then have "json_rune (Some [c], p) = [backslash, c]" "simple_escape c = Some [c]" "c \<noteq> CHR ''u''"
      by (auto simp: json_rune_def simple_escape_def quote_def backslash_def)
    then show ?thesis using scan_escape [of c "[c]" u] by simp
  next
    case esc
    then have "json_rune (Some [c], p) = [backslash, e]" "simple_escape e = Some [c]" "e \<noteq> CHR ''u''"
      by (auto simp: json_rune_def simple_escape_def quote_def backslash_def)
    then show ?thesis using scan_escape [of e "[c]" u] by simp
  next
    case hex
    then have "json_rune (Some [c], p) = backslash # ''u00'' @ [hex_small (byte c div 16), hex_small (byte c mod 16)]"
      by (auto simp: json_rune_def)
    then show ?thesis
      using scan_unicode [OF unicode_escape_low [OF assms, of u]] by simp
  next
    case raw
    then show ?thesis
      by (cases "scan_string u") (simp_all add: json_rune_def)
  qed
qed

lemma hex_202: "hex_value (CHR ''2'') = Some 2" "hex_value (CHR ''0'') = Some 0"
  by code_simp+

lemma scan_rune:
  assumes "rune_shape r"
  shows "scan_string (json_rune (Some r, p) @ u) = map_option (\<lambda>(x, t). (r @ x, t)) (scan_string u)"
proof (cases "\<exists>c. r = [c] \<and> byte c < 128")
  case True
  then show ?thesis using scan_ascii by auto
next
  case False
  then have r: "2 \<le> length r" "list_all (\<lambda>c. 128 \<le> byte c) r"
    using assms by (auto simp: rune_shape_def)
  consider "r = [CHR 0xE2, CHR 0x80, CHR 0xA8]" | "r = [CHR 0xE2, CHR 0x80, CHR 0xA9]"
    | (other) "r \<noteq> [CHR 0xE2, CHR 0x80, CHR 0xA8]" "r \<noteq> [CHR 0xE2, CHR 0x80, CHR 0xA9]"
    by blast
  then show ?thesis
  proof cases
    case 1
    have "hex_value (CHR ''8'') = Some 8" "encode_rune 0x2028 = r"
      unfolding 1 by (code_simp, simp add: encode_rune_def char_of_eq_iff)
    then have "unicode_escape (''2028'' @ u) = Some (r, u)"
      using hex_202 by (simp add: unicode_escape_def hex4_def)
    then show ?thesis
      using scan_unicode [of "''2028'' @ u" r u] 1 by (simp add: json_rune_def quote_def backslash_def)
  next
    case 2
    have "hex_value (CHR ''9'') = Some 9" "encode_rune 0x2029 = r"
      unfolding 2 by (code_simp, simp add: encode_rune_def char_of_eq_iff)
    then have "unicode_escape (''2029'' @ u) = Some (r, u)"
      using hex_202 by (simp add: unicode_escape_def hex4_def)
    then show ?thesis
      using scan_unicode [of "''2029'' @ u" r u] 2 by (simp add: json_rune_def quote_def backslash_def)
  next
    case other
    have "json_rune (Some r, p) = r"
      using other r(1) by (cases r; cases "tl r") (auto simp: json_rune_def)
    then show ?thesis
      using scan_beyond [OF r(2)] by simp
  qed
qed

lemma scan_runes:
  "\<forall>(x, p) \<in> set rs. x = Some p \<and> rune_shape p \<Longrightarrow>
     scan_string (concat (map json_rune rs) @ quote # t) = Some (concat (map snd rs), t)"
  by (induction rs) (auto simp: scan_rune)

lemma scan_json_string: "valid_utf8 s \<Longrightarrow> scan_string (concat (map json_rune (runes s)) @ quote # t) = Some (s, t)"
  using scan_runes [of "runes s" t] valid_runes [of s] concat_runes [of s] by fastforce

section \<open>Values\<close>

text \<open>
  Canonical values: text is valid UTF-8 and a number is an integer of at most 300 digits. The value
  of a Go map has, besides, its members in strict order of their keys.
\<close>

definition plain_number :: "string \<Rightarrow> bool" where
  "plain_number n \<longleftrightarrow>
     (let t = trim_prefix n ''-'' in
      t \<noteq> [] \<and> list_all is_digit t \<and> (hd t \<noteq> CHR ''0'' \<or> t = ''0'') \<and> length t \<le> 300)"

fun canonical :: "nat \<Rightarrow> json \<Rightarrow> bool" where
  "canonical depth (JNum n) = plain_number n"
| "canonical depth (JStr s) = valid_utf8 s"
| "canonical depth (JArr xs) = (depth > 0 \<and> list_all (canonical (depth - 1)) xs)"
| "canonical depth (JObj ms) =
     (depth > 0 \<and> list_all (\<lambda>(k, x). valid_utf8 k \<and> canonical (depth - 1) x) ms)"
| "canonical depth _ = True"

fun ordered :: "json \<Rightarrow> bool" where
  "ordered (JArr xs) = list_all ordered xs"
| "ordered (JObj ms) = (list_all (\<lambda>(k, x). ordered x) ms \<and> sorted_wrt (<) (map fst ms))"
| "ordered _ = True"

definition stops :: "string \<Rightarrow> bool" where
  "stops t \<longleftrightarrow> t = [] \<or> hd t = CHR '','' \<or> hd t = CHR '']'' \<or> hd t = CHR ''}''"

lemma stops_simps [simp]: "stops []" "stops (CHR '','' # t)" "stops (CHR '']'' # t)" "stops (CHR ''}'' # t)"
  by (simp_all add: stops_def)

lemma parse_nat_bound: "list_all is_digit s \<Longrightarrow> parse_nat 10 s < 10 ^ length s"
proof (induction s rule: rev_induct)
  case (snoc c s)
  then have "digit_val c < 10" "parse_nat 10 s < 10 ^ length s"
    by (auto simp: is_digit_def digit_val_def)
  then show ?case by simp
qed simp

lemma float_limit: "10 ^ 300 < float_top"
  by (simp add: float_top_def)

lemma takeWhile_digits:
  assumes "list_all is_digit s" "stops t"
  shows "takeWhile is_digit (s @ t) = s" "dropWhile is_digit (s @ t) = t"
proof -
  have "\<not> is_digit (CHR '','')" "\<not> is_digit (CHR '']'')" "\<not> is_digit (CHR ''}'')"
    by (simp_all add: is_digit_def)
  then have "takeWhile is_digit t = []" "dropWhile is_digit t = t"
    using assms(2) by (cases t; auto simp: stops_def)+
  then show "takeWhile is_digit (s @ t) = s" "dropWhile is_digit (s @ t) = t"
    using assms(1) by (simp_all add: list_all_iff)
qed

lemma scan_plain_number:
  assumes "plain_number n" "stops t"
  shows "scan_number (n @ t) = Some (n, t)"
proof -
  define m where "m = trim_prefix n ''-''"
  have m: "m \<noteq> []" "list_all is_digit m" "hd m \<noteq> CHR ''0'' \<or> m = ''0''" "length m \<le> 300"
    using assms(1) unfolding plain_number_def Let_def m_def by blast+
  have trim: "trim_prefix (n @ t) ''-'' = m @ t"
    using m(1) unfolding m_def by (cases n) (auto simp: trim_prefix_def has_prefix_def)
  have dot: "has_prefix t ''.'' = False" and ex: "(t \<noteq> [] \<and> (hd t = CHR ''e'' \<or> hd t = CHR ''E'')) = False"
    using assms(2) by (cases t; auto simp: stops_def has_prefix_def)+
  have small: "(float_top \<le> parse_nat 10 m) = False"
    using parse_nat_bound [OF m(2)] power_increasing [OF m(4), of "10 :: nat"] float_limit by simp
  have whole: "(if hd m = CHR ''0'' then (''0'', tl m @ t) else (m, t)) = (m, t)"
    using m(3) by auto
  have "scan_number (n @ t) =
      (if float_top * 10 ^ nat (- 0) \<le> parse_nat 10 m * 10 ^ nat 0 then None
       else Some (take (length (n @ t) - length t) (n @ t), t))"
    unfolding scan_number_def
    by (simp only: Let_def trim digits_def takeWhile_digits [OF m(2) assms(2)] whole dot ex prod.case m(1) if_False
        simp_thms append_Nil2 list.size of_nat_0 parse_nat_Nil minus_zero diff_zero)
  then show ?thesis
    using small by simp
qed

lemma skip_space_digit: "is_digit c \<or> c = CHR ''-'' \<Longrightarrow> skip_space (c # s) = c # s"
  by (auto simp: skip_space_def json_space_def is_digit_def)

lemma skip_space_letters [simp]:
  "skip_space (CHR ''{'' # s) = CHR ''{'' # s" "skip_space (CHR ''}'' # s) = CHR ''}'' # s"
  "skip_space (CHR '':'' # s) = CHR '':'' # s"
  "skip_space (CHR ''n'' # s) = CHR ''n'' # s" "skip_space (CHR ''t'' # s) = CHR ''t'' # s"
  "skip_space (CHR ''f'' # s) = CHR ''f'' # s"
  by (simp_all add: skip_space_def json_space_def)

lemma quote_letters [simp]:
  "CHR ''{'' \<noteq> quote" "CHR ''}'' \<noteq> quote" "CHR '':'' \<noteq> quote" "CHR ''n'' \<noteq> quote" "CHR ''t'' \<noteq> quote" "CHR ''f'' \<noteq> quote"
  by (simp_all add: quote_def)

lemma parse_plain_number:
  assumes "plain_number n" "stops t"
  shows "parse_value (Suc f) depth (n @ t) = Some (JNum n, t)"
proof -
  obtain c s where n: "n = c # s"
    using assms(1) by (cases n) (simp_all add: plain_number_def trim_prefix_def has_prefix_def)
  have c: "is_digit c \<or> c = CHR ''-''"
    using assms(1) n by (auto simp: plain_number_def trim_prefix_def has_prefix_def Let_def split: if_splits)
  then have "c \<noteq> quote" "c \<noteq> CHR ''[''" "c \<noteq> CHR ''{''" "c \<noteq> CHR ''n''" "c \<noteq> CHR ''t''" "c \<noteq> CHR ''f''"
    by (auto simp: is_digit_def quote_def)
  then show ?thesis
    using scan_plain_number [OF assms] skip_space_digit [OF c] n
    by (simp add: parse_value.simps has_prefix_def)
qed

lemma parse_json_string: "valid_utf8 s \<Longrightarrow> parse_value (Suc f) depth (json_string s @ t) = Some (JStr s, t)"
  by (simp add: json_string_def parse_value.simps scan_json_string)

lemma write_json_start:
  assumes "canonical depth x"
  shows "\<exists>c s. write_json x @ t = c # s \<and> skip_space (c # s) = c # s \<and> c \<noteq> CHR '']'' \<and> c \<noteq> CHR ''}''"
proof (cases x)
  case (JNum n)
  then obtain c s where n: "n = c # s" and c: "is_digit c \<or> c = CHR ''-''"
    using assms
    by (cases n) (auto simp: plain_number_def trim_prefix_def has_prefix_def Let_def split: if_splits)
  then have "c \<noteq> CHR '']''" "c \<noteq> CHR ''}''"
    by (auto simp: is_digit_def)
  then show ?thesis
    using JNum n skip_space_digit [OF c] by simp
next
  case (JStr s)
  then show ?thesis by (simp add: json_string_def) (simp add: quote_def)
qed simp_all

definition write_member :: "string \<times> json \<Rightarrow> string" where
  "write_member m = json_string (fst m) @ '':'' @ write_json (snd m)"

lemma write_json_obj: "write_json (JObj ms) = ''{'' @ join_with '','' (map write_member ms) @ ''}''"
  by (auto simp: write_member_def intro!: arg_cong [of _ _ "join_with '',''"])

text \<open>Reading undoes writing: the fuel is twice the length of the text and a little more.\<close>

definition reads_back :: "nat \<Rightarrow> json \<Rightarrow> bool" where
  "reads_back depth x \<longleftrightarrow>
     (\<forall>n t. 2 * length (write_json x) + 1 \<le> n \<longrightarrow> stops t \<longrightarrow> parse_value n depth (write_json x @ t) = Some (x, t))"

lemma parse_items_write:
  assumes "list_all (reads_back depth) xs" "xs \<noteq> []" "2 * length (join_with '','' (map write_json xs)) + 2 \<le> n"
  shows "parse_items n depth (join_with '','' (map write_json xs) @ CHR '']'' # t) = Some (xs, t)"
  using assms
proof (induction xs arbitrary: n)
  case (Cons x xs)
  obtain m where n: "n = Suc m" using Cons.prems(3) by (cases n) auto
  have v: "parse_value m depth (write_json x @ u) = Some (x, u)" if "stops u" for u
    using Cons.prems n that by (auto simp: reads_back_def join_Cons split: if_splits)
  have "parse_items m depth (join_with '','' (map write_json xs) @ CHR '']'' # t) = Some (xs, t)" if "xs \<noteq> []"
    using Cons.prems that n by (intro Cons.IH) (auto simp: join_Cons)
  then show ?case
    unfolding n parse_items.simps by (cases "xs = []") (simp_all add: join_Cons v)
qed simp

lemma parse_members_write:
  assumes "list_all (\<lambda>(k, x). valid_utf8 k \<and> reads_back depth x) ms" "ms \<noteq> []"
    "2 * length (join_with '','' (map write_member ms)) + 2 \<le> n"
  shows "parse_members n depth (join_with '','' (map write_member ms) @ CHR ''}'' # t) = Some (ms, t)"
  using assms
proof (induction ms arbitrary: n)
  case (Cons m ms)
  obtain k x where m: "m = (k, x)" by (cases m)
  obtain f where n: "n = Suc f" using Cons.prems(3) by (cases n) auto
  have v: "parse_value f depth (write_json x @ u) = Some (x, u)" if "stops u" for u
    using Cons.prems n m that by (auto simp: reads_back_def join_Cons write_member_def split: if_splits)
  have s: "scan_string (concat (map json_rune (runes k)) @ quote # u) = Some (k, u)" for u
    using Cons.prems(1) m by (simp add: scan_json_string)
  have colon: "has_prefix (CHR '':'' # u) '':''" for u
    by (simp add: has_prefix_def)
  have "parse_members f depth (join_with '','' (map write_member ms) @ CHR ''}'' # t) = Some (ms, t)" if "ms \<noteq> []"
    using Cons.prems that n by (intro Cons.IH) (auto simp: join_Cons)
  then show ?case
    unfolding n parse_members.simps
    by (cases "ms = []") (simp_all add: join_Cons m write_member_def json_string_def s v colon)
qed simp

lemma write_start:
  "canonical depth x \<Longrightarrow> \<not> has_prefix (skip_space (write_json x @ t)) '']''"
  using write_json_start [of depth x t] by (auto simp: has_prefix_def)

lemma canonical_reads_back: "canonical depth x \<Longrightarrow> reads_back depth x"
proof (induction x arbitrary: depth)
  case (JArr xs)
  have c: "0 < depth" "list_all (canonical (depth - 1)) xs" and r: "list_all (reads_back (depth - 1)) xs"
    using JArr by (auto simp: list_all_iff)
  show ?case
    unfolding reads_back_def
  proof (intro allI impI)
    fix n t
    assume n: "2 * length (write_json (JArr xs)) + 1 \<le> n"
    obtain f where f: "n = Suc f" using n by (cases n) auto
    show "parse_value n depth (write_json (JArr xs) @ t) = Some (JArr xs, t)"
    proof (cases xs)
      case Nil
      then show ?thesis using c(1) f by (simp add: parse_value.simps has_prefix_def)
    next
      case (Cons y ys)
      have "\<not> has_prefix (skip_space (join_with '','' (map write_json xs) @ CHR '']'' # t)) '']''"
        using c(2) Cons write_start [of "depth - 1" y] by (auto simp: join_Cons)
      moreover have "parse_items f (depth - 1) (join_with '','' (map write_json xs) @ CHR '']'' # t) = Some (xs, t)"
        using Cons n f by (intro parse_items_write [OF r]) auto
      ultimately show ?thesis
        using c(1) f by (simp add: parse_value.simps)
    qed
  qed
next
  case (JObj ms)
  have c: "0 < depth" and r: "list_all (\<lambda>(k, x). valid_utf8 k \<and> reads_back (depth - 1) x) ms"
    using JObj by (auto simp: list_all_iff)
  show ?case
    unfolding reads_back_def
  proof (intro allI impI)
    fix n t
    assume n: "2 * length (write_json (JObj ms)) + 1 \<le> n"
    obtain f where f: "n = Suc f" using n by (cases n) auto
    show "parse_value n depth (write_json (JObj ms) @ t) = Some (JObj ms, t)"
    proof (cases ms)
      case Nil
      then show ?thesis using c f by (simp add: parse_value.simps has_prefix_def)
    next
      case (Cons y ys)
      have "\<not> has_prefix (skip_space (join_with '','' (map write_member ms) @ CHR ''}'' # t)) ''}''"
        using Cons by (simp add: join_Cons write_member_def json_string_def has_prefix_def quote_def [symmetric]) (simp add: quote_def)
      moreover have "parse_members f (depth - 1) (join_with '','' (map write_member ms) @ CHR ''}'' # t) = Some (ms, t)"
        using Cons n f by (intro parse_members_write [OF r]) (auto simp: write_json_obj simp del: write_json.simps)
      ultimately show ?thesis
        using c f by (simp add: write_json_obj parse_value.simps del: write_json.simps)
    qed
  qed
next
  case (JNum n)
  show ?case
    unfolding reads_back_def
  proof (intro allI impI)
    fix f t assume "2 * length (write_json (JNum n)) + 1 \<le> f" "stops t"
    then show "parse_value f depth (write_json (JNum n) @ t) = Some (JNum n, t)"
      using JNum parse_plain_number by (cases f) auto
  qed
next
  case (JStr s)
  show ?case
    unfolding reads_back_def
  proof (intro allI impI)
    fix f t assume "2 * length (write_json (JStr s)) + 1 \<le> f" "stops t"
    then show "parse_value f depth (write_json (JStr s) @ t) = Some (JStr s, t)"
      using JStr parse_json_string by (cases f) auto
  qed
next
  case JNull
  show ?case
    unfolding reads_back_def
  proof (intro allI impI)
    fix f t assume "2 * length (write_json JNull) + 1 \<le> f"
    then show "parse_value f depth (write_json JNull @ t) = Some (JNull, t)"
      by (cases f) (simp_all add: parse_value.simps has_prefix_def)
  qed
next
  case (JBool b)
  show ?case
    unfolding reads_back_def
  proof (intro allI impI)
    fix f t assume "2 * length (write_json (JBool b)) + 1 \<le> f"
    then show "parse_value f depth (write_json (JBool b) @ t) = Some (JBool b, t)"
      by (cases f; cases b) (simp_all add: parse_value.simps has_prefix_def)
  qed
qed

text \<open>The written text is valid UTF-8, so that reading it changes no byte.\<close>

lemma json_rune_ascii: "json_rune (Some r, p) = r \<or> list_all (\<lambda>c. byte c < 128) (json_rune (Some r, p))"
proof -
  have h: "byte (hex_small n) < 128" if "n < 16" for n
    using that by (simp add: hex_small_def byte_def)
  have "byte (hex_small (byte (hd r) div 16)) < 128" "byte (hex_small (byte (hd r) mod 16)) < 128"
    using byte_bound [of "hd r"] by (intro h; simp)+
  then have hex: "list_all (\<lambda>c. byte c < 128) [hex_small (byte (hd r) div 16), hex_small (byte (hd r) mod 16)]"
    by simp
  have esc: "list_all (\<lambda>c. byte c < 128) (backslash # s) = list_all (\<lambda>c. byte c < 128) s" for s
    by (simp add: byte_backslash)
  have lit: "list_all (\<lambda>c. byte c < 128) ''b''" "list_all (\<lambda>c. byte c < 128) ''f''" "list_all (\<lambda>c. byte c < 128) ''n''"
      "list_all (\<lambda>c. byte c < 128) ''r''" "list_all (\<lambda>c. byte c < 128) ''t''" "list_all (\<lambda>c. byte c < 128) ''u00''"
      "list_all (\<lambda>c. byte c < 128) ''u2028''" "list_all (\<lambda>c. byte c < 128) ''u2029''"
      "list_all (\<lambda>c. byte c < 128) [quote]" "list_all (\<lambda>c. byte c < 128) [backslash]"
    by (simp_all add: byte_def backslash_def quote_def)
  consider "r = [quote] \<or> r = [backslash]" | "r = [CHR 0x08]" | "r = [CHR 0x0C]" | "r = [CHR 0x0A]" | "r = [CHR 0x0D]"
    | "r = [CHR 0x09]" | "json_rune (Some r, p) = r"
    | "json_rune (Some r, p) = backslash # ''u00'' @ [hex_small (byte (hd r) div 16), hex_small (byte (hd r) mod 16)]"
    | "json_rune (Some r, p) = backslash # ''u2028''" | "json_rune (Some r, p) = backslash # ''u2029''"
    unfolding json_rune_def prod.case option.case by argo
  then show ?thesis
  proof cases
    case 1
    then show ?thesis using lit(9,10) esc by (auto simp: json_rune_def)
  qed (use lit esc hex in \<open>auto simp: json_rune_def quote_def backslash_def\<close>)
qed

lemma valid_utf8_json_string: "valid_utf8 s \<Longrightarrow> valid_utf8 (json_string s)"
proof -
  assume s: "valid_utf8 s"
  have "valid_utf8 (json_rune (x, p))" if "(x, p) \<in> set (runes s)" for x p
    using json_rune_ascii [of p p] valid_runes [OF s that] valid_utf8_ascii by auto
  then have "valid_utf8 (concat (map json_rune (runes s)))"
    by (intro valid_utf8_concat) (auto simp: list_all_iff)
  moreover have "valid_utf8 [quote]"
    by (rule valid_utf8_ascii) simp
  ultimately show ?thesis
    unfolding json_string_def using valid_utf8_append [of "[quote]"] valid_utf8_append by simp
qed

lemma valid_utf8_join: "list_all valid_utf8 xs \<Longrightarrow> valid_utf8 sep \<Longrightarrow> valid_utf8 (join_with sep xs)"
  by (induction xs) (auto simp: join_Cons valid_utf8_append)

lemma valid_utf8_lits [simp]:
  "valid_utf8 '',''" "valid_utf8 ''[''" "valid_utf8 '']''" "valid_utf8 ''{''" "valid_utf8 ''}''" "valid_utf8 '':''"
  by (rule valid_utf8_ascii; simp add: byte_def)+

lemma canonical_valid: "canonical depth x \<Longrightarrow> valid_utf8 (write_json x)"
proof (induction x arbitrary: depth)
  case (JNum n)
  then have "list_all (\<lambda>c. byte c < 128) n"
    by (cases n) (auto simp: plain_number_def trim_prefix_def has_prefix_def Let_def is_digit_def byte_def list_all_iff
        split: if_splits)
  then show ?case by (simp add: valid_utf8_ascii)
next
  case (JStr s)
  then show ?case by (simp add: valid_utf8_json_string)
next
  case (JArr xs)
  then have "list_all valid_utf8 (map write_json xs)"
    by (auto simp: list_all_iff)
  then show ?case
    using valid_utf8_append [of "''[''"] by (simp add: valid_utf8_append valid_utf8_join)
next
  case (JObj ms)
  have "valid_utf8 (write_member (k, x))" if m: "(k, x) \<in> set ms" for k x
  proof -
    have "valid_utf8 (write_json x)"
      using JObj.prems m by (intro JObj.IH [OF m]) (auto simp: list_all_iff)
    moreover have "valid_utf8 k"
      using JObj.prems m by (auto simp: list_all_iff)
    ultimately show ?thesis
      using valid_utf8_append [of "'':''"] by (simp add: write_member_def valid_utf8_append valid_utf8_json_string)
  qed
  then have "list_all valid_utf8 (map write_member ms)"
    by (auto simp: list_all_iff)
  then show ?case
    unfolding write_json_obj using valid_utf8_append [of "''{''"] by (simp add: valid_utf8_append valid_utf8_join)
qed (auto intro!: valid_utf8_ascii simp: byte_def)

theorem parse_write_json: "canonical max_depth x \<Longrightarrow> parse_json (write_json x) = Some x"
  using canonical_reads_back [of max_depth x, unfolded reads_back_def, rule_format, of "2 * length (write_json x) + 2" "[]"]
  by (simp add: parse_json_def fix_utf8_valid [OF canonical_valid])

lemma as_map_sorted: "sorted_wrt (<) (map fst ms) \<Longrightarrow> as_map ms = ms"
proof -
  assume s: "sorted_wrt (<) (map fst ms)"
  then have d: "distinct (map fst ms)" "sorted (map fst ms)"
    by (auto simp: strict_sorted_iff)
  have "AList.clearjunk (rev ms) = rev ms"
    using d(1) by (simp add: distinct_clearjunk_id rev_map [symmetric])
  moreover have "sort_key fst (rev ms) = ms"
  proof (rule map_sorted_distinct_set_unique)
    show "inj_on fst (set (sort_key fst (rev ms)) \<union> set ms)"
      using d(1) by (simp add: distinct_map)
    show "distinct (map fst (sort_key fst (rev ms)))"
      using d(1) by (simp add: distinct_map)
  qed (use d in simp_all)
  ultimately show ?thesis
    by (simp add: as_map_def)
qed

lemma go_value_ordered: "ordered x \<Longrightarrow> go_value x = x"
proof (induction x)
  case (JArr xs)
  then show ?case by (simp add: list_all_iff map_idI)
next
  case (JObj ms)
  have "map (\<lambda>(k, x). (k, go_value x)) ms = ms"
    using JObj by (intro map_idI) (auto simp: list_all_iff)
  then show ?case
    using JObj.prems by (simp add: as_map_sorted)
qed simp_all

lemma parse_write_map:
  "canonical max_depth (JObj m) \<Longrightarrow> ordered (JObj m) \<Longrightarrow> parse_map (write_map m) = Some m"
  using go_value_ordered [of "JObj m"] by (simp add: parse_map_def write_map_def parse_write_json del: write_json.simps)

section \<open>Integers\<close>

definition format_int :: "int \<Rightarrow> string" where
  "format_int i = (if i < 0 then CHR ''-'' # itoa (nat (- i)) else itoa (nat i))"

definition json_int :: "int \<Rightarrow> json" where
  "json_int i = JNum (format_int i)"

definition int64 :: "int \<Rightarrow> bool" where
  "int64 i \<longleftrightarrow> - (2 ^ 63) \<le> i \<and> i < 2 ^ 63"

text \<open>\<open>strconv.ParseInt\<close> on the text of a JSON number: a fraction, an exponent or an overflow is an error.\<close>

definition parse_int64 :: "string \<Rightarrow> int option" where
  "parse_int64 s =
     (let t = trim_prefix s ''-''; n = int (parse_nat 10 t); i = (if has_prefix s ''-'' then - n else n)
      in if t \<noteq> [] \<and> list_all is_digit t \<and> int64 i then Some i else None)"

lemma itoa_all_digits: "list_all is_digit (itoa n)"
  using format_nat_digits [of 10 _ n] by (simp add: list_all_iff)

lemma itoa_no_sign: "\<not> has_prefix (itoa n) ''-''"
  using itoa_all_digits [of n] format_nat_not_Nil [of 10 n] by (cases "itoa n") (auto simp: has_prefix_def is_digit_def)

lemma itoa_no_zero: "hd (itoa n) \<noteq> CHR ''0'' \<or> itoa n = ''0''"
proof (induction n rule: less_induct)
  case (less n)
  show ?case
  proof (cases "n < 10")
    case True
    then have "itoa n = [digit_char n]" by (subst format_nat.simps) simp
    then show ?thesis by simp
  next
    case False
    then have e: "itoa n = itoa (n div 10) @ [digit_char (n mod 10)]" by (subst format_nat.simps) simp
    have "itoa (n div 10) \<noteq> ''0''"
    proof
      assume "itoa (n div 10) = ''0''"
      then have "n div 10 = 0"
        using parse_format_nat [of 10 "n div 10"] by (simp add: parse_nat_def digit_val_def)
      then show False using False by simp
    qed
    then show ?thesis
      using less [of "n div 10"] False e format_nat_not_Nil [of 10 "n div 10"] by simp
  qed
qed

lemma parse_format_int: "int64 i \<Longrightarrow> parse_int64 (format_int i) = Some i"
proof -
  note d = itoa_all_digits and h = itoa_no_sign
  assume "int64 i"
  then show ?thesis
    using d h [of "nat i"] by (cases "i < 0") (simp_all add: parse_int64_def format_int_def parse_format_nat
      trim_prefix_def has_prefix_def Let_def)
qed

lemma plain_format_int: "int64 i \<Longrightarrow> plain_number (format_int i)"
proof -
  assume i: "int64 i"
  have "length (itoa n) \<le> 20" if "n \<le> 2 ^ 63" for n
    using that by (intro format_nat_length) simp_all
  then have "length (itoa (nat i)) \<le> 300" "length (itoa (nat (- i))) \<le> 300"
    using i by (auto simp: int64_def intro: le_trans [of _ 20])
  then show ?thesis
    using itoa_all_digits itoa_no_zero itoa_no_sign [of "nat i"]
    by (auto simp: plain_number_def format_int_def trim_prefix_def has_prefix_def Let_def)
qed

lemma canonical_int [simp]: "int64 i \<Longrightarrow> canonical depth (json_int i)"
  by (simp add: json_int_def plain_format_int)

end
