(* ===== verification/Recovery.thy ===== *)
theory Recovery
  imports JsonCodec
begin

text \<open>
  The recovery state that an operation saves before each step on Docker (\<open>ops.Recovery\<close> of
  \<open>src/internal/ops/ops.go\<close>): its JSON form under \<open>encoding/json\<close>'s rules for structs, and the proof
  that a restart reads what was saved.
\<close>

record recovery =
  rc_container :: string
  rc_fingerprint :: string
  rc_locks :: "string list"
  rc_initial_running :: "bool option"
  rc_stop_started :: bool
  rc_stop_settled :: bool
  rc_stop_deadline :: int
  rc_stop_initial :: "int option"
  rc_stop_timed_out :: bool
  rc_force_stopped :: bool
  rc_stopped_started :: string
  rc_start_requested :: bool
  rc_state_restored :: bool
  rc_save_status :: string
  rc_save_reason :: string
  rc_helper :: string
  rc_backup :: string
  rc_destination :: string
  rc_backup_complete :: bool
  rc_unsafe :: bool
  rc_restore :: "json option"
  rc_swap :: "json option"

definition no_recovery :: recovery where
  "no_recovery = \<lparr>rc_container = [], rc_fingerprint = [], rc_locks = [], rc_initial_running = None,
     rc_stop_started = False, rc_stop_settled = False, rc_stop_deadline = 0, rc_stop_initial = None,
     rc_stop_timed_out = False, rc_force_stopped = False, rc_stopped_started = [], rc_start_requested = False,
     rc_state_restored = False, rc_save_status = [], rc_save_reason = [], rc_helper = [], rc_backup = [],
     rc_destination = [], rc_backup_complete = False, rc_unsafe = False, rc_restore = None, rc_swap = None\<rparr>"

section \<open>Writing\<close>

text \<open>Each field is omitted when empty; a raw message is its value.\<close>

definition text_member :: "string \<Rightarrow> string \<Rightarrow> members" where
  "text_member k v = (if v = [] then [] else [(k, JStr v)])"

definition flag_member :: "string \<Rightarrow> bool \<Rightarrow> members" where
  "flag_member k b = (if b then [(k, JBool True)] else [])"

definition int_member :: "string \<Rightarrow> int \<Rightarrow> members" where
  "int_member k i = (if i = 0 then [] else [(k, json_int i)])"

definition list_member :: "string \<Rightarrow> string list \<Rightarrow> members" where
  "list_member k vs = (if vs = [] then [] else [(k, JArr (map JStr vs))])"

definition opt_member :: "string \<Rightarrow> ('a \<Rightarrow> json) \<Rightarrow> 'a option \<Rightarrow> members" where
  "opt_member k f v = (case v of None \<Rightarrow> [] | Some x \<Rightarrow> [(k, f x)])"

definition recovery_members :: "recovery \<Rightarrow> members" where
  "recovery_members r =
     text_member ''containerId'' (rc_container r) @ text_member ''fingerprint'' (rc_fingerprint r) @
     list_member ''lockKeys'' (rc_locks r) @ opt_member ''initialRunning'' JBool (rc_initial_running r) @
     flag_member ''stopStarted'' (rc_stop_started r) @ flag_member ''stopSettled'' (rc_stop_settled r) @
     int_member ''stopRecoveryDeadlineAt'' (rc_stop_deadline r) @
     opt_member ''stopInitialStartedAt'' json_int (rc_stop_initial r) @
     flag_member ''stopRecoveryTimedOut'' (rc_stop_timed_out r) @ flag_member ''forceStopped'' (rc_force_stopped r) @
     text_member ''stoppedStartedAt'' (rc_stopped_started r) @ flag_member ''startRequested'' (rc_start_requested r) @
     flag_member ''stateRestored'' (rc_state_restored r) @ text_member ''saveStatus'' (rc_save_status r) @
     text_member ''saveReason'' (rc_save_reason r) @ text_member ''dataHelperId'' (rc_helper r) @
     text_member ''backupId'' (rc_backup r) @ text_member ''backupDestination'' (rc_destination r) @
     flag_member ''backupComplete'' (rc_backup_complete r) @ flag_member ''dataUnsafe'' (rc_unsafe r) @
     opt_member ''restore'' id (rc_restore r) @ opt_member ''swap'' id (rc_swap r)"

definition write_recovery :: "recovery \<Rightarrow> string" where
  "write_recovery r = write_json (JObj (recovery_members r))"

section \<open>Reading\<close>

text \<open>
  A value of the wrong type is an error, \<open>null\<close> leaves a plain field and clears a pointer or a slice,
  and a raw message takes any value.
\<close>

type_synonym setter = "json \<Rightarrow> recovery \<Rightarrow> recovery option"

definition set_text :: "(string \<Rightarrow> recovery \<Rightarrow> recovery) \<Rightarrow> setter" where
  "set_text f j r = (case j of JStr s \<Rightarrow> Some (f s r) | JNull \<Rightarrow> Some r | _ \<Rightarrow> None)"

definition set_flag :: "(bool \<Rightarrow> recovery \<Rightarrow> recovery) \<Rightarrow> setter" where
  "set_flag f j r = (case j of JBool b \<Rightarrow> Some (f b r) | JNull \<Rightarrow> Some r | _ \<Rightarrow> None)"

definition set_int :: "(int \<Rightarrow> recovery \<Rightarrow> recovery) \<Rightarrow> setter" where
  "set_int f j r =
     (case j of JNum n \<Rightarrow> map_option (\<lambda>i. f i r) (parse_int64 n) | JNull \<Rightarrow> Some r | _ \<Rightarrow> None)"

definition set_flag_pointer :: "(bool option \<Rightarrow> recovery \<Rightarrow> recovery) \<Rightarrow> setter" where
  "set_flag_pointer f j r = (case j of JBool b \<Rightarrow> Some (f (Some b) r) | JNull \<Rightarrow> Some (f None r) | _ \<Rightarrow> None)"

definition set_int_pointer :: "(int option \<Rightarrow> recovery \<Rightarrow> recovery) \<Rightarrow> setter" where
  "set_int_pointer f j r =
     (case j of JNum n \<Rightarrow> map_option (\<lambda>i. f (Some i) r) (parse_int64 n) | JNull \<Rightarrow> Some (f None r) | _ \<Rightarrow> None)"

fun json_texts :: "json list \<Rightarrow> string list option" where
  "json_texts [] = Some []"
| "json_texts (JStr s # xs) = map_option ((#) s) (json_texts xs)"
| "json_texts (JNull # xs) = map_option ((#) []) (json_texts xs)"
| "json_texts (_ # xs) = None"

definition set_texts :: "(string list \<Rightarrow> recovery \<Rightarrow> recovery) \<Rightarrow> setter" where
  "set_texts f j r =
     (case j of JArr xs \<Rightarrow> map_option (\<lambda>vs. f vs r) (json_texts xs) | JNull \<Rightarrow> Some (f [] r) | _ \<Rightarrow> None)"

definition set_raw :: "(json option \<Rightarrow> recovery \<Rightarrow> recovery) \<Rightarrow> setter" where
  "set_raw f j r = Some (f (Some j) r)"

definition recovery_fields :: "(string \<times> setter) list" where
  "recovery_fields =
    [(''containerId'', set_text (\<lambda>v r. r\<lparr>rc_container := v\<rparr>)),
     (''fingerprint'', set_text (\<lambda>v r. r\<lparr>rc_fingerprint := v\<rparr>)),
     (''lockKeys'', set_texts (\<lambda>v r. r\<lparr>rc_locks := v\<rparr>)),
     (''initialRunning'', set_flag_pointer (\<lambda>v r. r\<lparr>rc_initial_running := v\<rparr>)),
     (''stopStarted'', set_flag (\<lambda>v r. r\<lparr>rc_stop_started := v\<rparr>)),
     (''stopSettled'', set_flag (\<lambda>v r. r\<lparr>rc_stop_settled := v\<rparr>)),
     (''stopRecoveryDeadlineAt'', set_int (\<lambda>v r. r\<lparr>rc_stop_deadline := v\<rparr>)),
     (''stopInitialStartedAt'', set_int_pointer (\<lambda>v r. r\<lparr>rc_stop_initial := v\<rparr>)),
     (''stopRecoveryTimedOut'', set_flag (\<lambda>v r. r\<lparr>rc_stop_timed_out := v\<rparr>)),
     (''forceStopped'', set_flag (\<lambda>v r. r\<lparr>rc_force_stopped := v\<rparr>)),
     (''stoppedStartedAt'', set_text (\<lambda>v r. r\<lparr>rc_stopped_started := v\<rparr>)),
     (''startRequested'', set_flag (\<lambda>v r. r\<lparr>rc_start_requested := v\<rparr>)),
     (''stateRestored'', set_flag (\<lambda>v r. r\<lparr>rc_state_restored := v\<rparr>)),
     (''saveStatus'', set_text (\<lambda>v r. r\<lparr>rc_save_status := v\<rparr>)),
     (''saveReason'', set_text (\<lambda>v r. r\<lparr>rc_save_reason := v\<rparr>)),
     (''dataHelperId'', set_text (\<lambda>v r. r\<lparr>rc_helper := v\<rparr>)),
     (''backupId'', set_text (\<lambda>v r. r\<lparr>rc_backup := v\<rparr>)),
     (''backupDestination'', set_text (\<lambda>v r. r\<lparr>rc_destination := v\<rparr>)),
     (''backupComplete'', set_flag (\<lambda>v r. r\<lparr>rc_backup_complete := v\<rparr>)),
     (''dataUnsafe'', set_flag (\<lambda>v r. r\<lparr>rc_unsafe := v\<rparr>)),
     (''restore'', set_raw (\<lambda>v r. r\<lparr>rc_restore := v\<rparr>)),
     (''swap'', set_raw (\<lambda>v r. r\<lparr>rc_swap := v\<rparr>))]"

text \<open>
  The name of a member is that of a field, or else equals one up to case; the Kelvin sign and the long
  \<open>s\<close> are the only letters beyond ASCII that fold to one of ASCII.
\<close>

definition fold_name :: "string \<Rightarrow> string" where
  "fold_name k = concat (map (\<lambda>(_, p).
     if p = [CHR 0xE2, CHR 0x84, CHR 0xAA] then ''k'' else if p = [CHR 0xC5, CHR 0xBF] then ''s'' else to_lower p) (runes k))"

definition find_field :: "string \<Rightarrow> setter option" where
  "find_field k =
     (case map_of recovery_fields k of
        Some f \<Rightarrow> Some f
      | None \<Rightarrow> map_option snd (find (\<lambda>(n, f). fold_name n = fold_name k) recovery_fields))"

definition set_member :: "string \<times> json \<Rightarrow> recovery \<Rightarrow> recovery option" where
  "set_member m r = (case find_field (fst m) of None \<Rightarrow> Some r | Some f \<Rightarrow> f (snd m) r)"

fun set_members :: "members \<Rightarrow> recovery \<Rightarrow> recovery option" where
  "set_members [] r = Some r"
| "set_members (m # ms) r = (case set_member m r of None \<Rightarrow> None | Some r' \<Rightarrow> set_members ms r')"

definition read_recovery :: "string \<Rightarrow> recovery option" where
  "read_recovery s = (case parse_json s of Some (JObj ms) \<Rightarrow> set_members ms no_recovery | _ \<Rightarrow> None)"

section \<open>What was saved is what is read\<close>

lemma set_members_append:
  "set_members (xs @ ys) r = (case set_members xs r of None \<Rightarrow> None | Some r' \<Rightarrow> set_members ys r')"
  by (induction xs arbitrary: r) (auto split: option.splits)

lemma json_texts_map [simp]: "json_texts (map JStr vs) = Some vs"
  by (induction vs) simp_all

text \<open>One member sets its field; an omitted one leaves the field empty.\<close>

lemma set_text_member:
  "find_field k = Some (set_text f) \<Longrightarrow> (v = [] \<Longrightarrow> f v r = r) \<Longrightarrow> set_members (text_member k v) r = Some (f v r)"
  by (simp add: text_member_def set_member_def set_text_def)

lemma set_flag_member:
  "find_field k = Some (set_flag f) \<Longrightarrow> (\<not> b \<Longrightarrow> f b r = r) \<Longrightarrow> set_members (flag_member k b) r = Some (f b r)"
  by (simp add: flag_member_def set_member_def set_flag_def)

lemma set_int_member:
  "find_field k = Some (set_int f) \<Longrightarrow> int64 i \<Longrightarrow> (i = 0 \<Longrightarrow> f i r = r) \<Longrightarrow> set_members (int_member k i) r = Some (f i r)"
  by (simp add: int_member_def set_member_def set_int_def json_int_def parse_format_int)

lemma set_list_member:
  "find_field k = Some (set_texts f) \<Longrightarrow> (vs = [] \<Longrightarrow> f vs r = r) \<Longrightarrow> set_members (list_member k vs) r = Some (f vs r)"
  by (simp add: list_member_def set_member_def set_texts_def)

lemma set_flag_pointer_member:
  "find_field k = Some (set_flag_pointer f) \<Longrightarrow> (v = None \<Longrightarrow> f v r = r) \<Longrightarrow>
     set_members (opt_member k JBool v) r = Some (f v r)"
  by (cases v) (simp_all add: opt_member_def set_member_def set_flag_pointer_def)

lemma set_int_pointer_member:
  "find_field k = Some (set_int_pointer f) \<Longrightarrow> pred_option int64 v \<Longrightarrow> (v = None \<Longrightarrow> f v r = r) \<Longrightarrow>
     set_members (opt_member k json_int v) r = Some (f v r)"
  by (cases v) (simp_all add: opt_member_def set_member_def set_int_pointer_def json_int_def parse_format_int)

lemma set_raw_member:
  "find_field k = Some (set_raw f) \<Longrightarrow> (v = None \<Longrightarrow> f v r = r) \<Longrightarrow> set_members (opt_member k id v) r = Some (f v r)"
  by (cases v) (simp_all add: opt_member_def set_member_def set_raw_def)

lemmas set_one_member =
  set_text_member set_flag_member set_int_member set_list_member set_flag_pointer_member set_int_pointer_member set_raw_member

lemma find_recovery_field: "map_of recovery_fields k = Some f \<Longrightarrow> find_field k = Some f"
  by (simp add: find_field_def)

definition int64s :: "recovery \<Rightarrow> bool" where
  "int64s r \<longleftrightarrow> int64 (rc_stop_deadline r) \<and> pred_option int64 (rc_stop_initial r)"

lemma set_recovery_members: "int64s r \<Longrightarrow> set_members (recovery_members r) no_recovery = Some r"
  unfolding recovery_members_def int64s_def
  by (simp add: set_members_append set_one_member find_recovery_field recovery_fields_def no_recovery_def)

text \<open>What Go's types and valid text give: the integers are 64 bits wide, and raw messages are JSON.\<close>

definition storable :: "recovery \<Rightarrow> bool" where
  "storable r \<longleftrightarrow>
     int64s r \<and> list_all valid_utf8 (rc_locks r) \<and>
     list_all valid_utf8 [rc_container r, rc_fingerprint r, rc_stopped_started r, rc_save_status r, rc_save_reason r,
       rc_helper r, rc_backup r, rc_destination r] \<and>
     pred_option (canonical (max_depth - 1)) (rc_restore r) \<and> pred_option (canonical (max_depth - 1)) (rc_swap r)"

definition member_ok :: "string \<times> json \<Rightarrow> bool" where
  "member_ok m \<longleftrightarrow> valid_utf8 (fst m) \<and> canonical (max_depth - 1) (snd m)"

lemma members_ok:
  "valid_utf8 k \<Longrightarrow> valid_utf8 v \<Longrightarrow> list_all member_ok (text_member k v)"
  "valid_utf8 k \<Longrightarrow> list_all member_ok (flag_member k b)"
  "valid_utf8 k \<Longrightarrow> int64 i \<Longrightarrow> list_all member_ok (int_member k i)"
  "valid_utf8 k \<Longrightarrow> list_all valid_utf8 vs \<Longrightarrow> list_all member_ok (list_member k vs)"
  "valid_utf8 k \<Longrightarrow> list_all member_ok (opt_member k JBool p)"
  "valid_utf8 k \<Longrightarrow> pred_option int64 q \<Longrightarrow> list_all member_ok (opt_member k json_int q)"
  "valid_utf8 k \<Longrightarrow> pred_option (canonical (max_depth - 1)) x \<Longrightarrow> list_all member_ok (opt_member k id x)"
  by (auto simp: member_ok_def text_member_def flag_member_def int_member_def list_member_def opt_member_def
      list_all_iff max_depth_def split: option.splits)

lemma plain_valid_utf8: "plain k \<Longrightarrow> valid_utf8 k"
  by (rule valid_utf8_ascii) (auto simp: plain_def plain_char_def list_all_iff)

lemma recovery_names:
  "list_all valid_utf8 (map fst recovery_fields)"
proof -
  have "list_all plain (map fst recovery_fields)"
    by (simp add: recovery_fields_def plain_def plain_char_def byte_def quote_def backslash_def)
  then show ?thesis
    by (auto simp: list_all_iff plain_valid_utf8)
qed

lemma recovery_members_canonical: "storable r \<Longrightarrow> canonical max_depth (JObj (recovery_members r))"
proof -
  assume r: "storable r"
  have "list_all member_ok (recovery_members r)"
    unfolding recovery_members_def list_all_append
    using r recovery_names by (intro conjI members_ok) (auto simp: storable_def int64s_def recovery_fields_def)
  then show ?thesis
    by (auto simp: list_all_iff member_ok_def max_depth_def)
qed

lemma read_write_recovery: "storable r \<Longrightarrow> read_recovery (write_recovery r) = Some r"
  using parse_write_json [OF recovery_members_canonical] set_recovery_members [of r]
  by (simp add: read_recovery_def write_recovery_def storable_def del: write_json.simps)

end
