(* ===== verification/Jobs.thy ===== *)
theory Jobs
  imports Recovery Accounts "HOL-Library.Product_Lexorder"
begin

text \<open>
  Persisted operations, \<open>src/internal/ops/ops.go\<close>: the rows of the table, the job a row describes,
  queueing with a request key, and each statement by which the runner moves a job. The SHA-256 of
  a request key, new identifiers and the clock are arguments.
\<close>

section \<open>Jobs\<close>

abbreviation queued :: string where "queued \<equiv> ''queued''"
abbreviation running :: string where "running \<equiv> ''running''"
abbreviation succeeded :: string where "succeeded \<equiv> ''succeeded''"
abbreviation already_current :: string where "already_current \<equiv> ''already_current''"
abbreviation failed :: string where "failed \<equiv> ''failed''"
abbreviation interrupted :: string where "interrupted \<equiv> ''interrupted''"

record job =
  j_id :: string
  j_server :: string
  j_kind :: string
  j_status :: string
  j_phase :: string
  j_created :: int
  j_updated :: int
  j_error :: string
  j_result :: "members option"
  j_actor :: string
  j_input :: members
  j_recovery :: recovery
  j_binding :: int

definition invalid_state :: db_error where
  "invalid_state = PublicError ''INVALID_OPERATION_STATE'' 409"

definition parse_object :: "string \<Rightarrow> db_error + members" where
  "parse_object s = (case parse_map s of None \<Rightarrow> Inl invalid_state | Some m \<Rightarrow> Inr m)"

definition parse_result :: "string option \<Rightarrow> db_error + members option" where
  "parse_result v = (case v of None \<Rightarrow> Inr None | Some s \<Rightarrow> res_bind (parse_object s) (\<lambda>m. Inr (Some m)))"

definition row_job :: "operation_row \<Rightarrow> db_error + job" where
  "row_job r =
     res_bind (parse_result (p_result r)) (\<lambda>result.
     res_bind (parse_object (p_input r)) (\<lambda>input.
     (case read_recovery (p_recovery r) of
        None \<Rightarrow> Inl invalid_state
      | Some recovery \<Rightarrow>
          Inr \<lparr>j_id = p_id r, j_server = p_server r, j_kind = p_kind r, j_status = p_status r, j_phase = p_phase r,
               j_created = p_created r, j_updated = p_updated r, j_error = (case p_error r of None \<Rightarrow> [] | Some e \<Rightarrow> e),
               j_result = result, j_actor = p_actor r, j_input = input, j_recovery = recovery, j_binding = p_binding r\<rparr>)))"

definition find_operation :: "string \<Rightarrow> database \<Rightarrow> operation_row option" where
  "find_operation i d = find (\<lambda>r. p_id r = i) (operations d)"

definition get_job :: "string \<Rightarrow> database \<Rightarrow> db_error + job option" where
  "get_job i d =
     (case find_operation i d of None \<Rightarrow> Inr None | Some r \<Rightarrow> res_bind (row_job r) (\<lambda>j. Inr (Some j)))"

section \<open>Queueing\<close>

record enqueue_options =
  q_server :: string
  q_actor :: string
  q_kind :: string
  q_binding :: int
  q_input :: members
  q_key :: string

definition results :: "db_error + 'a \<Rightarrow> 'a db_op" where
  "results r d = (d, r)"

definition active :: "operation_row \<Rightarrow> bool" where
  "active r \<longleftrightarrow> p_status r = queued \<or> p_status r = running"

definition active_on :: "string \<Rightarrow> database \<Rightarrow> operation_row option" where
  "active_on server d = find (\<lambda>r. p_server r = server \<and> active r) (operations d)"

text \<open>INSERT INTO operations: the primary key, UNIQUE on the request key, the server's row.\<close>

definition insert_operation :: "operation_row \<Rightarrow> unit db_op" where
  "insert_operation r d =
     (if \<exists>q \<in> set (operations d). p_id q = p_id r \<or> p_key r \<noteq> None \<and> p_key q = p_key r then (d, Inl UniqueViolation)
      else if \<not> (\<exists>s \<in> set (servers d). v_id s = p_server r) then (d, Inl ConstraintViolation)
      else (d\<lparr>operations := operations d @ [r]\<rparr>, Inr ()))"

definition request_text :: "enqueue_options \<Rightarrow> string" where
  "request_text q = q_actor q @ '':'' @ q_server q @ '':'' @ q_kind q @ '':'' @ q_key q"

definition request_key :: "(string \<Rightarrow> string) \<Rightarrow> enqueue_options \<Rightarrow> string option" where
  "request_key digest q = (if q_key q = [] then None else Some (digest (request_text q)))"

definition prior_operation :: "string option \<Rightarrow> database \<Rightarrow> operation_row option" where
  "prior_operation key d =
     (case key of None \<Rightarrow> None | Some k \<Rightarrow> find (\<lambda>r. p_key r = Some k) (operations d))"

definition queued_row :: "(string \<Rightarrow> string) \<Rightarrow> string \<Rightarrow> int \<Rightarrow> enqueue_options \<Rightarrow> operation_row" where
  "queued_row digest i now q =
     \<lparr>p_id = i, p_server = q_server q, p_actor = q_actor q, p_kind = q_kind q, p_status = queued, p_phase = queued,
      p_input = write_map (q_input q), p_recovery = ''{}'', p_binding = q_binding q, p_key = request_key digest q,
      p_created = now, p_updated = now, p_error = None, p_result = None\<rparr>"

definition queued_audit :: "string \<Rightarrow> enqueue_options \<Rightarrow> audit_entry" where
  "queued_audit i q =
     \<lparr>e_user = q_actor q, e_action = ''server.'' @ q_kind q @ ''.queued'', e_type = ''server'', e_target = q_server q,
      e_details = Some (JObj [(''operationId'', JStr i)]), e_ip = []\<rparr>"

text \<open>\<open>Enqueue\<close> inside the caller's transaction.\<close>

definition enqueue_in :: "(string \<Rightarrow> string) \<Rightarrow> string \<Rightarrow> int \<Rightarrow> enqueue_options \<Rightarrow> job db_op" where
  "enqueue_in digest i now q =
     and_then (reads (prior_operation (request_key digest q))) (\<lambda>prior.
     case prior of
       Some r \<Rightarrow>
         if p_input r \<noteq> write_map (q_input q) then fail_with (PublicError ''IDEMPOTENCY_CONFLICT'' 409)
         else results (row_job r)
     | None \<Rightarrow>
         and_then (reads (active_on (q_server q))) (\<lambda>conflict.
         case conflict of
           Some _ \<Rightarrow> fail_with (PublicError ''OPERATION_CONFLICT'' 409)
         | None \<Rightarrow>
             and_then (insert_operation (queued_row digest i now q)) (\<lambda>_.
             and_then (write_audit now True (queued_audit i q)) (\<lambda>_.
             and_then (reads (find_operation i)) (\<lambda>row.
             case row of None \<Rightarrow> fail_with NoRows | Some r \<Rightarrow> results (row_job r))))))"

definition enqueue :: "(string \<Rightarrow> string) \<Rightarrow> string \<Rightarrow> int \<Rightarrow> enqueue_options \<Rightarrow> job db_op" where
  "enqueue digest i now q =
     and_then (tx (enqueue_in digest i now q)) (\<lambda>j. and_then prune_audit_if_needed (\<lambda>_. done_with j))"

section \<open>The runner's statements\<close>

text \<open>UPDATE operations SET ... WHERE: how many rows it changes.\<close>

definition update_operations :: "(operation_row \<Rightarrow> bool) \<Rightarrow> (operation_row \<Rightarrow> operation_row) \<Rightarrow> nat db_op" where
  "update_operations p f d =
     (d\<lparr>operations := map (\<lambda>r. if p r then f r else r) (operations d)\<rparr>, Inr (length (filter p (operations d))))"

definition mark_running :: "int \<Rightarrow> string \<Rightarrow> bool db_op" where
  "mark_running now i =
     and_then (update_operations (\<lambda>r. p_id r = i \<and> p_status r = queued)
       (\<lambda>r. r\<lparr>p_status := running, p_phase := ''validating'', p_updated := now\<rparr>)) (\<lambda>n. done_with (n = 1))"

definition mark_queued :: "int \<Rightarrow> string \<Rightarrow> unit db_op" where
  "mark_queued now i =
     and_then (update_operations (\<lambda>r. p_id r = i) (\<lambda>r. r\<lparr>p_status := queued, p_phase := queued, p_updated := now\<rparr>))
       (\<lambda>_. done_with ())"

text \<open>\<open>Progress\<close>: the job in memory changes only once the row has.\<close>

definition progress ::
    "int \<Rightarrow> job \<Rightarrow> string \<Rightarrow> (recovery \<Rightarrow> recovery) option \<Rightarrow> members option \<Rightarrow> job db_op" where
  "progress now j phase change result =
     (let merged = (case change of None \<Rightarrow> j_recovery j | Some f \<Rightarrow> f (j_recovery j));
          public = (case result of None \<Rightarrow> j_result j | Some m \<Rightarrow> Some m)
      in and_then (update_operations (\<lambda>r. p_id r = j_id j)
           (\<lambda>r. r\<lparr>p_phase := phase, p_recovery := write_recovery merged, p_result := map_option write_map public,
                 p_updated := now\<rparr>))
         (\<lambda>_. done_with (j\<lparr>j_recovery := merged, j_result := public, j_phase := phase\<rparr>)))"

definition outcome_details :: "job \<Rightarrow> string \<Rightarrow> members" where
  "outcome_details j text =
     (''actorId'', JStr (j_actor j)) # (if text = [] then [] else [(''error'', JStr text)]) @ [(''operationId'', JStr (j_id j))]"

text \<open>The owner may have been deleted since: then the entry names no account.\<close>

definition outcome_audit :: "job \<Rightarrow> string \<Rightarrow> string \<Rightarrow> database \<Rightarrow> audit_entry" where
  "outcome_audit j status text d =
     \<lparr>e_user = (case find_user_by_id (j_actor j) d of None \<Rightarrow> [] | Some _ \<Rightarrow> j_actor j),
      e_action = ''server.'' @ j_kind j @ ''.'' @ status, e_type = ''server'', e_target = j_server j,
      e_details = Some (JObj (outcome_details j text)), e_ip = []\<rparr>"

definition set_outcome :: "int \<Rightarrow> string \<Rightarrow> members option \<Rightarrow> string \<Rightarrow> operation_row \<Rightarrow> operation_row" where
  "set_outcome now status result text r =
     r\<lparr>p_status := status, p_phase := status,
       p_result := (case result of None \<Rightarrow> p_result r | Some m \<Rightarrow> Some (write_map m)),
       p_error := nullable text, p_updated := now\<rparr>"

definition finish :: "int \<Rightarrow> job \<Rightarrow> string \<Rightarrow> members option \<Rightarrow> string \<Rightarrow> unit db_op" where
  "finish now j status result text =
     and_then (reads (outcome_audit j status text)) (\<lambda>entry.
     and_then (tx (and_then (update_operations (\<lambda>r. p_id r = j_id j) (set_outcome now status result text))
       (\<lambda>_. write_audit now True entry))) (\<lambda>_.
     and_then prune_audit_if_needed (\<lambda>_. done_with ())))"

text \<open>The job of a row that could not be read: what its outcome is recorded under.\<close>

definition bare_job :: "operation_row \<Rightarrow> job" where
  "bare_job r =
     \<lparr>j_id = p_id r, j_server = p_server r, j_kind = p_kind r, j_status = [], j_phase = [], j_created = 0, j_updated = 0,
      j_error = [], j_result = None, j_actor = p_actor r, j_input = [], j_recovery = no_recovery, j_binding = 0\<rparr>"

definition member :: "string \<Rightarrow> members \<Rightarrow> json option" where
  "member k m = map_of m k"

text \<open>The key of the notification for a scheduled job that failed, if the job is one.\<close>

definition failure_notice :: "operation_row \<Rightarrow> string option" where
  "failure_notice r =
     (case parse_object (p_input r) of
        Inl _ \<Rightarrow> None
      | Inr m \<Rightarrow>
          (case member ''scheduleId'' m of
             Some (JStr _) \<Rightarrow> Some ((if p_kind r = ''backup'' then ''backup-failed:'' else ''schedule-failed:'') @ p_id r)
           | _ \<Rightarrow> None))"

section \<open>Lanes\<close>

datatype lane = Lifecycle | Data

definition lane_capacity :: "lane \<Rightarrow> nat" where
  "lane_capacity l = (case l of Lifecycle \<Rightarrow> 4 | Data \<Rightarrow> 1)"

definition lane_for :: "operation_row \<Rightarrow> lane" where
  "lane_for r =
     (if p_kind r = ''start'' \<or> p_kind r = ''stop'' then Lifecycle
      else if p_kind r = ''restart'' then
        (case parse_object (p_input r) of
           Inl _ \<Rightarrow> Data
         | Inr m \<Rightarrow> if member ''createBackup'' m = Some (JBool True) then Data else Lifecycle)
      else Data)"

definition queue :: "database \<Rightarrow> operation_row list" where
  "queue d = sort_key (\<lambda>r. (p_created r, p_id r)) (filter (\<lambda>r. p_status r = queued) (operations d))"

definition final :: "string \<Rightarrow> bool" where
  "final status \<longleftrightarrow> status = succeeded \<or> status = already_current \<or> status = failed \<or> status = interrupted"

end
