(* ===== verification/Runner.thy ===== *)
theory Runner
  imports Jobs
begin

text \<open>
  The runner of \<open>src/internal/ops/ops.go\<close> as a state machine. A worker is a goroutine of \<open>fill\<close>,
  known by its row's identifier; each step is one statement on the database or one section under the
  mutex, so that every interleaving of them is a run. A crash ends the process with its workers and
  keeps the database.
\<close>

section \<open>State\<close>

text \<open>What a handler's \<open>Run\<close> returned, or where its worker is between two steps.\<close>

datatype stage =
    Starting
  | Acting job
  | Finishing job string "members option" string
  | Requeueing bool
  | Requeued bool
  | Waiting
  | Leaving

record worker =
  k_row :: operation_row
  k_lane :: lane
  k_stage :: stage

datatype loop =
    Off
  | Recovering "operation_row list"
  | Idle
  | Filling "operation_row list"

record runner =
  r_db :: database
  r_enabled :: bool
  r_loop :: loop
  r_claimed :: "string set"
  r_yielded :: "string set"
  r_waiting :: "string set"
  r_load :: "lane \<Rightarrow> nat"
  r_workers :: "string \<Rightarrow> worker option"

definition fresh_runner :: "database \<Rightarrow> runner" where
  "fresh_runner d = \<lparr>r_db = d, r_enabled = False, r_loop = Off, r_claimed = {}, r_yielded = {}, r_waiting = {},
     r_load = (\<lambda>_. 0), r_workers = (\<lambda>_. None)\<rparr>"

definition with_stage :: "string \<Rightarrow> stage \<Rightarrow> runner \<Rightarrow> runner" where
  "with_stage i g s =
     (case r_workers s i of None \<Rightarrow> s | Some k \<Rightarrow> s\<lparr>r_workers := (r_workers s)(i \<mapsto> k\<lparr>k_stage := g\<rparr>)\<rparr>)"

section \<open>Claiming queued work\<close>

definition lanes_full :: "runner \<Rightarrow> bool" where
  "lanes_full s \<longleftrightarrow> (\<forall>l \<in> {Lifecycle, Data}. lane_capacity l \<le> r_load s l)"

definition claimable :: "runner \<Rightarrow> operation_row \<Rightarrow> bool" where
  "claimable s r \<longleftrightarrow>
     r_enabled s \<and> p_id r \<notin> r_claimed s \<and> p_id r \<notin> r_waiting s \<and> r_load s (lane_for r) < lane_capacity (lane_for r)"

definition claim :: "operation_row \<Rightarrow> runner \<Rightarrow> runner" where
  "claim r s =
     (if \<not> claimable s r then s
      else s\<lparr>r_claimed := insert (p_id r) (r_claimed s),
             r_load := (r_load s)(lane_for r := r_load s (lane_for r) + 1),
             r_workers := (r_workers s)(p_id r \<mapsto> \<lparr>k_row = r, k_lane = lane_for r, k_stage = Starting\<rparr>)\<rparr>)"

definition leave :: "string \<Rightarrow> lane \<Rightarrow> runner \<Rightarrow> runner" where
  "leave i l s = s\<lparr>r_claimed := r_claimed s - {i}, r_yielded := r_yielded s - {i},
     r_load := (r_load s)(l := r_load s l - 1), r_workers := (r_workers s)(i := None)\<rparr>"

section \<open>One worker\<close>

definition public_message :: "string option \<Rightarrow> string" where
  "public_message e =
     (case e of Some m \<Rightarrow> m | None \<Rightarrow> ''The operation failed. Check administrator diagnostics.'')"

definition invalid_message :: string where
  "invalid_message = ''Saved operation state is invalid; administrator review is required''"

definition unsupported_message :: string where
  "unsupported_message = ''This operation type is unavailable''"

text \<open>
  After the row was saved as running, or was not: damaged state and an unknown kind fail the job, which
  is then recorded under what the row says.
\<close>

definition after_claim :: "(string \<Rightarrow> bool) \<Rightarrow> operation_row \<Rightarrow> bool \<Rightarrow> stage" where
  "after_claim registered r claimed =
     (if \<not> claimed then Leaving
      else
        (case row_job r of
           Inl _ \<Rightarrow> Finishing (bare_job r) failed None invalid_message
         | Inr j \<Rightarrow>
             if registered (j_kind j) then Acting j else Finishing (bare_job r) failed None unsupported_message))"

text \<open>The end of \<open>Run\<close>: an error, with its public message if it has one, or a result.\<close>

definition after_run :: "operation_row \<Rightarrow> job \<Rightarrow> string option + members option \<Rightarrow> stage" where
  "after_run r j outcome =
     (case outcome of
        Inl e \<Rightarrow> Finishing (bare_job r) failed None (public_message e)
      | Inr result \<Rightarrow>
          (let m = (case result of None \<Rightarrow> [] | Some m \<Rightarrow> m)
           in Finishing j (if member ''alreadyCurrent'' m = Some (JBool True) then already_current else succeeded) (Some m) []))"

text \<open>
  \<open>WithLocks\<close> on a conflict: what holds the resources decides. A job waits for background work
  outside its lane, holds the queue while another job acts, and else fails.
\<close>

datatype conflict = Background | Held | Other

definition other_active :: "runner \<Rightarrow> string \<Rightarrow> bool" where
  "other_active s i \<longleftrightarrow> (\<exists>j \<in> r_claimed s. j \<noteq> i \<and> j \<notin> r_yielded s)"

definition lock_conflict :: "runner \<Rightarrow> string \<Rightarrow> conflict \<Rightarrow> bool option" where
  "lock_conflict s i c =
     (if i \<in> r_claimed s \<and> c = Background then Some False
      else if i \<in> r_claimed s \<and> c = Held \<and> other_active s i then Some True
      else None)"

definition after_requeue :: "string \<Rightarrow> bool \<Rightarrow> runner \<Rightarrow> runner" where
  "after_requeue i holds s =
     (if holds then with_stage i Waiting (s\<lparr>r_yielded := insert i (r_yielded s)\<rparr>)
      else with_stage i Leaving (s\<lparr>r_waiting := insert i (r_waiting s)\<rparr>))"

text \<open>A job that held the queue reads its row again before it retries.\<close>

definition retry :: "string \<Rightarrow> runner \<Rightarrow> runner" where
  "retry i s =
     (case (r_workers s i, find_operation i (r_db s)) of
        (Some k, Some r) \<Rightarrow>
          if r_enabled s \<and> p_status r = queued
          then s\<lparr>r_workers := (r_workers s)(i \<mapsto> k\<lparr>k_row := r, k_stage := Starting\<rparr>)\<rparr>
          else with_stage i Leaving s
      | _ \<Rightarrow> with_stage i Leaving s)"

section \<open>Recovery\<close>

definition recovery_message :: "bool \<Rightarrow> string" where
  "recovery_message ok =
     (if ok then ''Ludock restarted during this operation. Review the server state before retrying.''
      else ''Recovery requires administrator attention. The server has been left stopped where possible.'')"

text \<open>
  One interrupted row after its handler's \<open>Recover\<close>, if it has one: \<open>None\<close> stands for an error, also
  that of a row which cannot be read.
\<close>

definition recover_row :: "int \<Rightarrow> operation_row \<Rightarrow> members option option \<Rightarrow> database \<Rightarrow> database" where
  "recover_row now r outcome d =
     (case (row_job r, outcome) of
        (Inr j, Some result) \<Rightarrow> fst (finish now j interrupted result (recovery_message True) d)
      | _ \<Rightarrow> fst (finish now (bare_job r) interrupted None (recovery_message False) d))"

section \<open>Steps\<close>

text \<open>What others see of a step: a handler's \<open>Run\<close> begins, or the owner of a failed schedule is told.\<close>

datatype event = Runs string | Notifies string | Quiet

definition begins :: "string \<Rightarrow> stage \<Rightarrow> event" where
  "begins i g = (case g of Acting _ \<Rightarrow> Runs i | _ \<Rightarrow> Quiet)"

definition tells :: "operation_row \<Rightarrow> string \<Rightarrow> event" where
  "tells r status =
     (if status = failed then (case failure_notice r of None \<Rightarrow> Quiet | Some k \<Rightarrow> Notifies k) else Quiet)"

inductive runner_step :: "(string \<Rightarrow> string) \<Rightarrow> (string \<Rightarrow> bool) \<Rightarrow> runner \<Rightarrow> event \<Rightarrow> runner \<Rightarrow> bool"
  for digest registered where
  queue_job: "enqueue_in digest i now q (r_db s) = (d', Inr j) \<Longrightarrow>
    runner_step digest registered s Quiet (s\<lparr>r_db := d'\<rparr>)"
| other_work: "operations d' = operations (r_db s) \<Longrightarrow>
    runner_step digest registered s Quiet (s\<lparr>r_db := d'\<rparr>)"
| start: "\<not> r_enabled s \<Longrightarrow> r_loop s = Off \<Longrightarrow> r_workers s = (\<lambda>_. None) \<Longrightarrow>
    runner_step digest registered s Quiet
      (fresh_runner (r_db s)\<lparr>r_enabled := True,
         r_loop := Recovering (filter (\<lambda>r. p_status r = running) (operations (r_db s)))\<rparr>)"
| recover_progress: "r_loop s = Recovering (r # rs) \<Longrightarrow> row_job r = Inr j \<Longrightarrow>
    runner_step digest registered s Quiet (s\<lparr>r_db := fst (progress now (j\<lparr>j_recovery := v, j_result := w\<rparr>) phase change result (r_db s))\<rparr>)"
| recover_one: "r_loop s = Recovering (r # rs) \<Longrightarrow>
    runner_step digest registered s Quiet (s\<lparr>r_db := recover_row now r outcome (r_db s), r_loop := Recovering rs\<rparr>)"
| recover_cancelled: "r_loop s = Recovering rs \<Longrightarrow>
    runner_step digest registered s Quiet (s\<lparr>r_enabled := False, r_loop := Off\<rparr>)"
| recovered: "r_loop s = Recovering [] \<Longrightarrow>
    runner_step digest registered s Quiet (s\<lparr>r_loop := Idle\<rparr>)"
| read_queue: "r_loop s = Idle \<Longrightarrow> r_enabled s \<Longrightarrow> r_yielded s = {} \<Longrightarrow> \<not> lanes_full s \<Longrightarrow>
    runner_step digest registered s Quiet (s\<lparr>r_loop := Filling (queue (r_db s))\<rparr>)"
| fill: "r_loop s = Filling rs \<Longrightarrow>
    runner_step digest registered s Quiet (fold claim rs (s\<lparr>r_loop := Idle\<rparr>))"
| begin_job: "r_workers s i = Some k \<Longrightarrow> k_stage k = Starting \<Longrightarrow> mark_running now i (r_db s) = (d', Inr claimed) \<Longrightarrow>
    after_claim registered (k_row k) claimed = g \<Longrightarrow>
    runner_step digest registered s (begins i g) (with_stage i g (s\<lparr>r_db := d'\<rparr>))"
| job_progress: "r_workers s i = Some k \<Longrightarrow> k_stage k = Acting j \<Longrightarrow>
    progress now j phase change result (r_db s) = (d', Inr j') \<Longrightarrow>
    runner_step digest registered s Quiet (with_stage i (Acting j') (s\<lparr>r_db := d'\<rparr>))"
| job_locked: "r_workers s i = Some k \<Longrightarrow> k_stage k = Acting j \<Longrightarrow>
    runner_step digest registered s Quiet (s\<lparr>r_yielded := r_yielded s - {i}\<rparr>)"
| job_busy: "r_workers s i = Some k \<Longrightarrow> k_stage k = Acting j \<Longrightarrow> lock_conflict s i c = Some holds \<Longrightarrow>
    runner_step digest registered s Quiet (with_stage i (Requeueing holds) (s\<lparr>r_yielded := r_yielded s - {i}\<rparr>))"
| job_returns: "r_workers s i = Some k \<Longrightarrow> k_stage k = Acting j \<Longrightarrow>
    runner_step digest registered s Quiet (with_stage i (after_run (k_row k) j outcome) s)"
| finish_job: "r_workers s i = Some k \<Longrightarrow> k_stage k = Finishing j status result text \<Longrightarrow>
    finish now j status result text (r_db s) = (d', Inr ()) \<Longrightarrow>
    runner_step digest registered s (tells (k_row k) status) (with_stage i Leaving (s\<lparr>r_db := d'\<rparr>))"
| requeue: "r_workers s i = Some k \<Longrightarrow> k_stage k = Requeueing holds \<Longrightarrow>
    runner_step digest registered s Quiet (with_stage i (Requeued holds) (s\<lparr>r_db := fst (mark_queued now i (r_db s))\<rparr>))"
| requeued: "r_workers s i = Some k \<Longrightarrow> k_stage k = Requeued holds \<Longrightarrow>
    runner_step digest registered s Quiet (after_requeue i holds s)"
| give_up: "r_workers s i = Some k \<Longrightarrow> k_stage k \<noteq> Waiting \<Longrightarrow> (\<forall>j. k_stage k \<noteq> Acting j) \<Longrightarrow>
    runner_step digest registered s Quiet (with_stage i Leaving s)"
| retries: "r_workers s i = Some k \<Longrightarrow> k_stage k = Waiting \<Longrightarrow>
    runner_step digest registered s Quiet (retry i s)"
| leaves: "r_workers s i = Some k \<Longrightarrow> k_stage k = Leaving \<Longrightarrow>
    runner_step digest registered s Quiet (leave i (k_lane k) s)"
| released: "runner_step digest registered s Quiet (s\<lparr>r_waiting := r_waiting s - {i}\<rparr>)"
| stop: "r_enabled s \<Longrightarrow>
    runner_step digest registered s Quiet (s\<lparr>r_enabled := False\<rparr>)"
| loop_ends: "r_loop s = Idle \<Longrightarrow> \<not> r_enabled s \<Longrightarrow>
    runner_step digest registered s Quiet (s\<lparr>r_loop := Off\<rparr>)"
| crash: "runner_step digest registered s Quiet (fresh_runner (r_db s))"

inductive runner_runs :: "(string \<Rightarrow> string) \<Rightarrow> (string \<Rightarrow> bool) \<Rightarrow> runner \<Rightarrow> event list \<Rightarrow> runner \<Rightarrow> bool"
  for digest registered where
  runs_nil: "runner_runs digest registered s [] s"
| runs_step: "runner_runs digest registered s es s' \<Longrightarrow> runner_step digest registered s' e s'' \<Longrightarrow>
    runner_runs digest registered s (es @ [e]) s''"

inductive_cases runner_runsE: "runner_runs digest registered s es s'"

end
