(* ===== verification/RunnerProofs.thy ===== *)
theory RunnerProofs
  imports Runner
begin

text \<open>
  What the runner keeps in every interleaving: one active job per server, lanes within their
  capacity, and no second run of a job that was running or had ended.
\<close>

section \<open>The table\<close>

definition identity_of :: "operation_row \<Rightarrow> string \<times> string \<times> string \<times> string \<times> string \<times> string option" where
  "identity_of r = (p_id r, p_server r, p_actor r, p_kind r, p_input r, p_key r)"

lemma identity_of_eq:
  "identity_of r = identity_of q \<longleftrightarrow>
     p_id r = p_id q \<and> p_server r = p_server q \<and> p_actor r = p_actor q \<and> p_kind r = p_kind q \<and>
     p_input r = p_input q \<and> p_key r = p_key q"
  by (simp add: identity_of_def)

text \<open>The primary key, the unique request keys, and at most one active operation per server.\<close>

definition jobs_ok :: "database \<Rightarrow> bool" where
  "jobs_ok d \<longleftrightarrow>
     distinct (map p_id (operations d)) \<and>
     distinct (map p_key (filter (\<lambda>r. p_key r \<noteq> None) (operations d))) \<and>
     distinct (map p_server (filter active (operations d)))"

lemma distinct_filter_map:
  assumes "distinct (map g (filter p xs))" "\<And>x. x \<in> set xs \<Longrightarrow> q (f x) \<Longrightarrow> p x" "\<And>x. g (f x) = g x"
  shows "distinct (map g (filter q (map f xs)))"
proof -
  have "map g (filter q (map f xs)) = map g (filter (\<lambda>x. q (f x)) xs)"
    by (simp add: filter_map o_def assms(3))
  moreover have "filter (\<lambda>x. q (f x)) xs = filter (\<lambda>x. q (f x)) (filter p xs)"
    using assms(2) by (auto intro: filter_cong)
  ultimately show ?thesis
    using distinct_map_filter [OF assms(1), of "\<lambda>x. q (f x)"] by simp
qed

lemma jobs_ok_map:
  assumes "jobs_ok d" "\<And>r. identity_of (f r) = identity_of r"
    "\<And>r. r \<in> set (operations d) \<Longrightarrow> active (f r) \<Longrightarrow> active r" "operations d' = map f (operations d)"
  shows "jobs_ok d'"
proof -
  have i: "p_id (f r) = p_id r" "p_server (f r) = p_server r" "p_key (f r) = p_key r" for r
    using assms(2) [of r] by (simp_all add: identity_of_eq)
  have "distinct (map p_id (map f (operations d)))"
    using assms(1) by (simp add: jobs_ok_def o_def i)
  moreover have "distinct (map p_key (filter (\<lambda>r. p_key r \<noteq> None) (map f (operations d))))"
    using assms(1) by (intro distinct_filter_map [where p = "\<lambda>r. p_key r \<noteq> None"]) (auto simp: jobs_ok_def i)
  moreover have "distinct (map p_server (filter active (map f (operations d))))"
    using assms(1,3) by (intro distinct_filter_map [where p = active]) (auto simp: jobs_ok_def i)
  ultimately show ?thesis
    unfolding jobs_ok_def assms(4) by blast
qed

lemma jobs_ok_unique: "jobs_ok d \<Longrightarrow> r \<in> set (operations d) \<Longrightarrow> q \<in> set (operations d) \<Longrightarrow> p_id r = p_id q \<Longrightarrow> r = q"
  by (auto simp: jobs_ok_def distinct_map inj_on_def)

lemma jobs_ok_key:
  "jobs_ok d \<Longrightarrow> r \<in> set (operations d) \<Longrightarrow> q \<in> set (operations d) \<Longrightarrow> p_key r = Some k \<Longrightarrow> p_key q = Some k \<Longrightarrow> r = q"
  by (auto simp: jobs_ok_def distinct_map inj_on_def)

lemma jobs_ok_server:
  "jobs_ok d \<Longrightarrow> r \<in> set (operations d) \<Longrightarrow> q \<in> set (operations d) \<Longrightarrow> active r \<Longrightarrow> active q \<Longrightarrow>
     p_server r = p_server q \<Longrightarrow> r = q"
  by (auto simp: jobs_ok_def distinct_map inj_on_def)

section \<open>What each statement does to the table\<close>

lemma prune_operations: "prune_audit_if_needed d = (d', r) \<Longrightarrow> operations d' = operations d \<and> r = Inr ()"
  by (auto simp: prune_audit_if_needed_def prune_audit_def writes_def split: if_splits list.splits)

lemma write_audit_operations: "write_audit now b e d = (d', r) \<Longrightarrow> operations d' = operations d"
  by (auto simp: write_audit_def Let_def dest!: prune_operations split: if_splits)

lemma mark_running_Inr:
  "mark_running now i d = (d', Inr c) \<longleftrightarrow>
     d' = d\<lparr>operations := map (\<lambda>r. if p_id r = i \<and> p_status r = queued
        then r\<lparr>p_status := running, p_phase := ''validating'', p_updated := now\<rparr> else r) (operations d)\<rparr> \<and>
     c = (length (filter (\<lambda>r. p_id r = i \<and> p_status r = queued) (operations d)) = 1)"
  by (auto simp: mark_running_def and_then_def update_operations_def)

lemma mark_queued_fst:
  "fst (mark_queued now i d) =
     d\<lparr>operations := map (\<lambda>r. if p_id r = i then r\<lparr>p_status := queued, p_phase := queued, p_updated := now\<rparr> else r) (operations d)\<rparr>"
  by (simp add: mark_queued_def and_then_def update_operations_def)

lemma progress_operations:
  "progress now j phase change result d = (d', r) \<Longrightarrow>
     \<exists>f. operations d' = map (\<lambda>q. if p_id q = j_id j then f q else q) (operations d) \<and>
       (\<forall>q. identity_of (f q) = identity_of q \<and> p_status (f q) = p_status q)"
  by (auto simp: progress_def and_then_def update_operations_def Let_def identity_of_def
      intro!: exI [of _ "\<lambda>q. q\<lparr>p_phase := phase, p_recovery := _ q, p_result := _ q, p_updated := now\<rparr>"])

lemma update_operations_eq:
  "update_operations p f d = (d\<lparr>operations := map (\<lambda>r. if p r then f r else r) (operations d)\<rparr>, Inr (length (filter p (operations d))))"
  by (simp add: update_operations_def)

lemma find_user_exists: "find_user_by_id i d = Some u \<Longrightarrow> user_exists d i"
  by (auto simp: find_user_by_id_def find_user_def user_exists_def find_Some_iff)

lemma outcome_audit_ok:
  "e_user (outcome_audit j status msg d) \<noteq> [] \<Longrightarrow> user_exists d (e_user (outcome_audit j status msg d))"
  by (auto simp: outcome_audit_def intro: find_user_exists split: option.splits)

text \<open>Recording an outcome never fails, and changes one row.\<close>

lemma finish_eq:
  obtains d' where "finish now j status result msg d = (d', Inr ())"
    "operations d' = map (\<lambda>q. if p_id q = j_id j then set_outcome now status result msg q else q) (operations d)"
proof -
  let ?d = "d\<lparr>operations := map (\<lambda>q. if p_id q = j_id j then set_outcome now status result msg q else q) (operations d)\<rparr>"
  let ?e = "outcome_audit j status msg d"
  have "\<not> (e_user ?e \<noteq> [] \<and> \<not> user_exists ?d (e_user ?e))"
    using outcome_audit_ok [of j status msg d] by (auto simp: user_exists_def)
  then obtain d1 where w: "write_audit now True ?e ?d = (d1, Inr ())"
    by (auto simp: write_audit_def Let_def)
  obtain d2 r where p: "prune_audit_if_needed d1 = (d2, r)" by fastforce
  have "finish now j status result msg d = (d2, Inr ())"
    using w prune_operations [OF p] p by (simp add: finish_def and_then_def tx_def update_operations_eq)
  moreover have "operations d2 = operations ?d"
    using write_audit_operations [OF w] prune_operations [OF p] by simp
  ultimately show ?thesis
    using that [of d2] by simp
qed

lemma set_outcome_fields: "identity_of (set_outcome now status result msg q) = identity_of q"
    "p_status (set_outcome now status result msg q) = status"
  by (simp_all add: set_outcome_def identity_of_def)

lemma row_job_id: "row_job r = Inr j \<Longrightarrow> j_id j = p_id r"
  by (auto simp: row_job_def go_error split: option.splits)

lemma recover_row_operations:
  "\<exists>f. operations (recover_row now r outcome d) = map (\<lambda>q. if p_id q = p_id r then f q else q) (operations d) \<and>
    (\<forall>q. identity_of (f q) = identity_of q \<and> p_status (f q) = interrupted)"
proof -
  have f: "\<exists>f. operations (fst (finish now j interrupted result msg d)) =
      map (\<lambda>q. if p_id q = p_id r then f q else q) (operations d) \<and>
      (\<forall>q. identity_of (f q) = identity_of q \<and> p_status (f q) = interrupted)" if "j_id j = p_id r" for j result msg
    by (rule finish_eq [of now j interrupted result msg d])
       (auto simp: set_outcome_fields that intro!: exI [of _ "set_outcome now interrupted result msg"])
  have "j_id (bare_job r) = p_id r"
    by (simp add: bare_job_def)
  then show ?thesis
    using f [of "bare_job r"] f row_job_id by (auto simp: recover_row_def split: sum.splits option.splits)
qed

lemma find_snoc: "(\<forall>y \<in> set xs. \<not> p y) \<Longrightarrow> p x \<Longrightarrow> find p (xs @ [x]) = Some x"
  by (induction xs) auto

lemma enqueue_in_Inr:
  assumes "enqueue_in digest i now q d = (d', Inr j)"
  shows "d' = d \<and> (\<exists>k r. request_key digest q = Some k \<and> r \<in> set (operations d) \<and> p_key r = Some k \<and>
        p_input r = write_map (q_input q) \<and> row_job r = Inr j) \<or>
    operations d' = operations d @ [queued_row digest i now q] \<and>
      (\<forall>r \<in> set (operations d). p_id r \<noteq> i \<and> (p_server r = q_server q \<longrightarrow> \<not> active r) \<and>
         (request_key digest q \<noteq> None \<longrightarrow> p_key r \<noteq> request_key digest q)) \<and>
      row_job (queued_row digest i now q) = Inr j"
proof (cases "prior_operation (request_key digest q) d")
  case (Some r)
  then have "\<exists>k. request_key digest q = Some k \<and> r \<in> set (operations d) \<and> p_key r = Some k"
    by (auto simp: prior_operation_def find_Some_iff split: option.splits)
  with Some assms show ?thesis
    by (auto simp: enqueue_in_def and_then_def results_def split: if_splits)
next
  case None
  let ?r = "queued_row digest i now q"
  have a: "active_on (q_server q) d = None"
    using assms None by (auto simp: enqueue_in_def and_then_def split: option.splits)
  obtain d1 d2 where i: "insert_operation ?r d = (d1, Inr ())" and w: "write_audit now True (queued_audit i q) d1 = (d2, Inr ())"
    and f: "(case find_operation i d2 of None \<Rightarrow> fail_with NoRows | Some r \<Rightarrow> results (row_job r)) d2 = (d', Inr j)"
    using assms None a by (auto simp: enqueue_in_def and_then_Inr)
  have d2: "operations d2 = operations d @ [?r]"
    using i write_audit_operations [OF w] by (auto simp: insert_operation_def split: if_splits)
  have fresh: "\<forall>r \<in> set (operations d). p_id r \<noteq> i \<and> (request_key digest q \<noteq> None \<longrightarrow> p_key r \<noteq> request_key digest q)"
    using i by (auto simp: insert_operation_def queued_row_def split: if_splits)
  moreover have "find_operation i d2 = Some ?r"
    unfolding find_operation_def d2 using fresh by (intro find_snoc) (auto simp: queued_row_def)
  moreover have "\<forall>r \<in> set (operations d). p_server r = q_server q \<longrightarrow> \<not> active r"
    using a by (auto simp: active_on_def find_None_iff)
  ultimately show ?thesis
    using f d2 by (auto simp: results_def)
qed

lemma enqueue_keeps_jobs: "jobs_ok d \<Longrightarrow> enqueue_in digest i now q d = (d', Inr j) \<Longrightarrow> jobs_ok d'"
  by (drule enqueue_in_Inr) (auto simp: jobs_ok_def queued_row_def)

section \<open>The invariant\<close>

definition row_is :: "database \<Rightarrow> string \<Rightarrow> string \<Rightarrow> bool" where
  "row_is d i status \<longleftrightarrow> (\<exists>r \<in> set (operations d). p_id r = i \<and> p_status r = status)"

definition known :: "database \<Rightarrow> operation_row \<Rightarrow> bool" where
  "known d r \<longleftrightarrow> (\<exists>q \<in> set (operations d). identity_of q = identity_of r)"

lemma row_is_unique: "jobs_ok d \<Longrightarrow> row_is d i a \<Longrightarrow> row_is d i b \<Longrightarrow> a = b"
  using jobs_ok_unique by (fastforce simp: row_is_def)

text \<open>A change of one row: the others keep their status, and no row loses what identifies it.\<close>

definition touches :: "string \<Rightarrow> database \<Rightarrow> database \<Rightarrow> bool" where
  "touches i d d' \<longleftrightarrow>
     jobs_ok d' \<and> (\<forall>r. known d r \<longrightarrow> known d' r) \<and> (\<forall>j a. j \<noteq> i \<longrightarrow> row_is d j a \<longrightarrow> row_is d' j a)"

definition extends :: "database \<Rightarrow> database \<Rightarrow> bool" where
  "extends d d' \<longleftrightarrow> jobs_ok d' \<and> (\<forall>r. known d r \<longrightarrow> known d' r) \<and> (\<forall>j a. row_is d j a \<longrightarrow> row_is d' j a)"

lemma extends_touches: "extends d d' \<Longrightarrow> touches i d d'"
  by (simp add: extends_def touches_def)

lemma extends_same: "jobs_ok d \<Longrightarrow> operations d' = operations d \<Longrightarrow> extends d d'"
  by (simp add: extends_def jobs_ok_def known_def row_is_def)

lemma extends_enqueue: "jobs_ok d \<Longrightarrow> enqueue_in digest i now q d = (d', Inr j) \<Longrightarrow> extends d d'"
  using enqueue_keeps_jobs [of d digest i now q d' j] enqueue_in_Inr [of digest i now q d d' j]
  by (auto simp: extends_def known_def row_is_def)

lemma touches_map:
  assumes "jobs_ok d" "operations d' = map (\<lambda>q. if p_id q = i then f q else q) (operations d)"
    "\<And>q. identity_of (f q) = identity_of q" "\<And>q. q \<in> set (operations d) \<Longrightarrow> p_id q = i \<Longrightarrow> active (f q) \<Longrightarrow> active q"
  shows "touches i d d'"
  unfolding touches_def
proof (intro conjI allI impI)
  show "jobs_ok d'"
    using assms(1,3,4) by (intro jobs_ok_map [OF assms(1) _ _ assms(2)]) (auto split: if_splits)
  fix r assume "known d r"
  then obtain q where q: "q \<in> set (operations d)" "identity_of q = identity_of r"
    by (auto simp: known_def)
  then have "(if p_id q = i then f q else q) \<in> set (operations d')"
    by (auto simp: assms(2))
  then show "known d' r"
    using q(2) assms(3) [of q] by (auto simp: known_def split: if_splits)
next
  fix j a assume "j \<noteq> i" "row_is d j a"
  then show "row_is d' j a"
    by (auto simp: row_is_def assms(2))
qed

lemma extends_map:
  assumes "jobs_ok d" "operations d' = map (\<lambda>q. if p_id q = i then f q else q) (operations d)"
    "\<And>q. identity_of (f q) = identity_of q" "\<And>q. p_status (f q) = p_status q"
  shows "extends d d'"
proof -
  have "touches i d d'"
    using assms by (intro touches_map [OF assms(1,2)]) (auto simp: active_def)
  moreover have "row_is d' j a" if row: "row_is d j a" for j a
  proof -
    obtain q where q: "q \<in> set (operations d)" "p_id q = j" "p_status q = a"
      using row by (auto simp: row_is_def)
    then have "(if p_id q = i then f q else q) \<in> set (operations d')"
      by (auto simp: assms(2))
    then show ?thesis
      using q(2,3) assms(3,4) [of q] by (auto simp: row_is_def identity_of_eq split: if_splits)
  qed
  ultimately show ?thesis
    by (simp add: extends_def touches_def)
qed

lemma extends_progress: "jobs_ok d \<Longrightarrow> progress now j phase change result d = (d', r) \<Longrightarrow> extends d d'"
  using progress_operations [of now j phase change result d d' r] by (auto intro: extends_map)

definition owns :: "stage \<Rightarrow> bool" where
  "owns g = (case g of Acting _ \<Rightarrow> True | Finishing _ _ _ _ \<Rightarrow> True | Requeueing _ \<Rightarrow> True | _ \<Rightarrow> False)"

definition stage_job :: "stage \<Rightarrow> job option" where
  "stage_job g = (case g of Acting j \<Rightarrow> Some j | Finishing j _ _ _ \<Rightarrow> Some j | _ \<Rightarrow> None)"

definition final_stage :: "stage \<Rightarrow> bool" where
  "final_stage g = (case g of Finishing _ status _ _ \<Rightarrow> final status | _ \<Rightarrow> True)"

lemma stage_simps [simp]:
  "owns (Acting j)" "owns (Finishing j a b c)" "owns (Requeueing h)" "\<not> owns (Requeued h)" "\<not> owns Starting" "\<not> owns Waiting"
  "\<not> owns Leaving" "stage_job (Acting j) = Some j" "stage_job (Finishing j a b c) = Some j" "stage_job (Requeueing h) = None"
  "stage_job (Requeued h) = None" "stage_job Starting = None" "stage_job Waiting = None" "stage_job Leaving = None"
  "final_stage (Acting j)" "final_stage (Finishing j a b c) = final a" "final_stage (Requeueing h)" "final_stage (Requeued h)"
  "final_stage Starting" "final_stage Waiting" "final_stage Leaving"
  by (simp_all add: owns_def stage_job_def final_stage_def)

definition worker_ok :: "database \<Rightarrow> string \<Rightarrow> worker \<Rightarrow> bool" where
  "worker_ok d i k \<longleftrightarrow>
     p_id (k_row k) = i \<and> known d (k_row k) \<and> k_lane k = lane_for (k_row k) \<and>
     (owns (k_stage k) \<longrightarrow> row_is d i running) \<and> (\<forall>j. stage_job (k_stage k) = Some j \<longrightarrow> j_id j = i) \<and>
     final_stage (k_stage k)"

definition in_lane :: "(string \<Rightarrow> worker option) \<Rightarrow> lane \<Rightarrow> string set" where
  "in_lane ws l = {i. \<exists>k. ws i = Some k \<and> k_lane k = l}"

definition loop_ok :: "runner \<Rightarrow> bool" where
  "loop_ok s =
     (case r_loop s of
        Recovering rs \<Rightarrow> r_workers s = (\<lambda>_. None) \<and> distinct (map p_id rs) \<and>
          (\<forall>r \<in> set rs. known (r_db s) r \<and> row_is (r_db s) (p_id r) running)
      | Filling rs \<Rightarrow> (\<forall>r \<in> set rs. known (r_db s) r)
      | _ \<Rightarrow> True)"

definition runner_ok :: "runner \<Rightarrow> bool" where
  "runner_ok s \<longleftrightarrow>
     jobs_ok (r_db s) \<and> (\<forall>i k. r_workers s i = Some k \<longrightarrow> worker_ok (r_db s) i k) \<and>
     r_claimed s = dom (r_workers s) \<and> finite (dom (r_workers s)) \<and>
     (\<forall>l. r_load s l = card (in_lane (r_workers s) l)) \<and> (\<forall>l. card (in_lane (r_workers s) l) \<le> lane_capacity l) \<and>
     loop_ok s"

lemma runner_ok_jobs: "runner_ok s \<Longrightarrow> jobs_ok (r_db s)"
  by (simp add: runner_ok_def)

lemma runner_ok_worker: "runner_ok s \<Longrightarrow> r_workers s i = Some k \<Longrightarrow> worker_ok (r_db s) i k"
  by (simp add: runner_ok_def)

lemma runner_ok_sets [simp]:
  "runner_ok (s\<lparr>r_yielded := y\<rparr>) = runner_ok s" "runner_ok (s\<lparr>r_waiting := w\<rparr>) = runner_ok s"
  "runner_ok (s\<lparr>r_enabled := b\<rparr>) = runner_ok s"
  by (simp_all add: runner_ok_def loop_ok_def cong: loop.case_cong)

lemma runner_ok_fresh: "jobs_ok d \<Longrightarrow> runner_ok (fresh_runner d)"
  by (simp add: runner_ok_def fresh_runner_def loop_ok_def in_lane_def)

text \<open>The two shapes of a step: the table grows, or one worker moves together with its row.\<close>

lemma worker_ok_extends: "extends d d' \<Longrightarrow> worker_ok d i k \<Longrightarrow> worker_ok d' i k"
  by (auto simp: extends_def worker_ok_def)

lemma runner_ok_extends: "runner_ok s \<Longrightarrow> extends (r_db s) d' \<Longrightarrow> runner_ok (s\<lparr>r_db := d'\<rparr>)"
  using worker_ok_extends [of "r_db s" d']
  by (auto simp: runner_ok_def loop_ok_def extends_def split: loop.splits)

lemma in_lane_stage: "ws i = Some k \<Longrightarrow> in_lane (ws(i \<mapsto> k\<lparr>k_stage := g\<rparr>)) l = in_lane ws l"
  by (auto simp: in_lane_def)

lemma in_lane_row: "ws i = Some k \<Longrightarrow> in_lane (ws(i \<mapsto> k\<lparr>k_row := r, k_stage := g\<rparr>)) l = in_lane ws l"
  by (auto simp: in_lane_def)

lemma runner_ok_move:
  assumes "runner_ok s" "r_workers s i = Some k" "touches i (r_db s) d'" "owns g \<Longrightarrow> row_is d' i running"
    "\<And>j. stage_job g = Some j \<Longrightarrow> j_id j = i" "final_stage g"
  shows "runner_ok (with_stage i g (s\<lparr>r_db := d'\<rparr>))"
proof -
  have "worker_ok d' j k'" if "r_workers s j = Some k'" "j \<noteq> i" for j k'
    using runner_ok_worker [OF assms(1) that(1)] assms(3) that(2) by (auto simp: worker_ok_def touches_def)
  moreover have "worker_ok d' i (k\<lparr>k_stage := g\<rparr>)"
    using runner_ok_worker [OF assms(1,2)] assms(3-6) by (auto simp: worker_ok_def touches_def)
  moreover have "loop_ok (with_stage i g (s\<lparr>r_db := d'\<rparr>))"
    using assms(1-3) by (auto simp: runner_ok_def loop_ok_def with_stage_def touches_def split: loop.splits)
  ultimately show ?thesis
    using assms(1-3)
    by (auto simp: runner_ok_def with_stage_def in_lane_stage touches_def insert_absorb domI)
qed

lemma runner_ok_stage:
  assumes "runner_ok s" "r_workers s i = Some k" "owns g \<Longrightarrow> owns (k_stage k)" "\<And>j. stage_job g = Some j \<Longrightarrow> j_id j = i" "final_stage g"
  shows "runner_ok (with_stage i g s)"
proof -
  have "touches i (r_db s) (r_db s)"
    using assms(1) by (simp add: touches_def runner_ok_def)
  then show ?thesis
    using runner_ok_move [OF assms(1,2), of "r_db s" g] assms(3-5) runner_ok_worker [OF assms(1,2)]
    by (auto simp: worker_ok_def)
qed

section \<open>Every step keeps it\<close>

lemma claim_other_fields: "r_db (claim r s) = r_db s" "r_loop (claim r s) = r_loop s"
  by (simp_all add: claim_def)

lemma runner_ok_claim:
  assumes "runner_ok s" "known (r_db s) r" "\<forall>rs. r_loop s \<noteq> Recovering rs"
  shows "runner_ok (claim r s)"
proof (cases "claimable s r")
  case True
  let ?ws = "(r_workers s)(p_id r \<mapsto> \<lparr>k_row = r, k_lane = lane_for r, k_stage = Starting\<rparr>)"
  have n: "r_workers s (p_id r) = None"
    using True assms(1) by (auto simp: claimable_def runner_ok_def)
  have l: "in_lane ?ws l = (if l = lane_for r then insert (p_id r) (in_lane (r_workers s) l) else in_lane (r_workers s) l)" for l
    using n by (auto simp: in_lane_def)
  have f: "finite (in_lane (r_workers s) l)" for l
    using assms(1) by (auto simp: runner_ok_def in_lane_def elim: rev_finite_subset)
  have c: "card (in_lane ?ws l) = (if l = lane_for r then card (in_lane (r_workers s) l) + 1 else card (in_lane (r_workers s) l))" for l
  proof -
    have "p_id r \<notin> in_lane (r_workers s) (lane_for r)"
      using n by (simp add: in_lane_def)
    then show ?thesis
      unfolding l using f [of "lane_for r"] by simp
  qed
  have "card (in_lane (r_workers s) (lane_for r)) < lane_capacity (lane_for r)"
    using True assms(1) by (simp add: claimable_def runner_ok_def)
  moreover have "worker_ok (r_db s) (p_id r) \<lparr>k_row = r, k_lane = lane_for r, k_stage = Starting\<rparr>"
    using assms(2) by (simp add: worker_ok_def)
  ultimately show ?thesis
    using assms(1,3) True
    by (auto simp: runner_ok_def claim_def c loop_ok_def split: loop.splits)
qed (use assms in \<open>simp add: claim_def\<close>)

lemma runner_ok_fill:
  "runner_ok s \<Longrightarrow> \<forall>r \<in> set rs. known (r_db s) r \<Longrightarrow> \<forall>rs. r_loop s \<noteq> Recovering rs \<Longrightarrow> runner_ok (fold claim rs s)"
  by (induction rs arbitrary: s) (simp_all add: runner_ok_claim claim_other_fields)

lemma runner_ok_leave:
  assumes "runner_ok s" "r_workers s i = Some k"
  shows "runner_ok (leave i (k_lane k) s)"
proof -
  let ?ws = "(r_workers s)(i := None)"
  have l: "in_lane ?ws l = in_lane (r_workers s) l - {i}" for l
    by (auto simp: in_lane_def)
  have f: "finite (in_lane (r_workers s) l)" for l
    using assms(1) by (auto simp: runner_ok_def in_lane_def elim: rev_finite_subset)
  have "i \<in> in_lane (r_workers s) l \<longleftrightarrow> l = k_lane k" for l
    using assms(2) by (auto simp: in_lane_def)
  then have c: "card (in_lane ?ws l) = (if l = k_lane k then card (in_lane (r_workers s) l) - 1 else card (in_lane (r_workers s) l))" for l
    using f by (simp add: l card_Diff_singleton_if)
  have "card (in_lane ?ws l) \<le> card (in_lane (r_workers s) l)" for l
    by (simp add: c)
  then have "card (in_lane ?ws l) \<le> lane_capacity l" for l
    using assms(1) by (meson le_trans runner_ok_def)
  then show ?thesis
    using assms by (auto simp: runner_ok_def leave_def c loop_ok_def split: loop.splits)
qed

lemma runner_ok_retry:
  assumes "runner_ok s" "r_workers s i = Some k"
  shows "runner_ok (retry i s)"
proof (cases "find_operation i (r_db s)")
  case None
  then show ?thesis
    using runner_ok_stage [OF assms, of Leaving] assms(2) by (simp add: retry_def)
next
  case (Some r)
  then have r: "r \<in> set (operations (r_db s))" "p_id r = i"
    by (auto simp: find_operation_def find_Some_iff)
  then have k: "known (r_db s) r"
    by (auto simp: known_def)
  moreover have "identity_of (k_row k) = identity_of r"
    using runner_ok_worker [OF assms] runner_ok_jobs [OF assms(1)] r jobs_ok_unique
    by (fastforce simp: worker_ok_def known_def identity_of_eq)
  then have "lane_for (k_row k) = lane_for r"
    by (simp add: lane_for_def identity_of_eq)
  ultimately have w: "worker_ok (r_db s) i (k\<lparr>k_row := r, k_stage := Starting\<rparr>)"
    using runner_ok_worker [OF assms] r by (simp add: worker_ok_def)
  have "runner_ok (s\<lparr>r_workers := (r_workers s)(i \<mapsto> k\<lparr>k_row := r, k_stage := Starting\<rparr>)\<rparr>)"
    using assms w by (auto simp: runner_ok_def in_lane_row loop_ok_def insert_absorb domI split: loop.splits)
  then show ?thesis
    using runner_ok_stage [OF assms, of Leaving] assms(2) Some by (simp add: retry_def)
qed

lemma runner_ok_loop: "runner_ok s \<Longrightarrow> loop_ok (s\<lparr>r_loop := l\<rparr>) \<Longrightarrow> runner_ok (s\<lparr>r_loop := l\<rparr>)"
  by (simp add: runner_ok_def)

lemma runner_ok_recover:
  assumes "runner_ok s" "r_loop s = Recovering (r # rs)"
  shows "runner_ok (s\<lparr>r_db := recover_row now r outcome (r_db s), r_loop := Recovering rs\<rparr>)"
proof -
  obtain f where f: "operations (recover_row now r outcome (r_db s)) = map (\<lambda>q. if p_id q = p_id r then f q else q) (operations (r_db s))"
    "\<And>q. identity_of (f q) = identity_of q" "\<And>q. p_status (f q) = interrupted"
    using recover_row_operations [of now r outcome "r_db s"] by blast
  have t: "touches (p_id r) (r_db s) (recover_row now r outcome (r_db s))"
    using f(2,3) by (intro touches_map [OF runner_ok_jobs [OF assms(1)] f(1)]) (auto simp: active_def)
  have l: "r_workers s = (\<lambda>_. None)" "p_id r \<notin> p_id ` set rs" "distinct (map p_id rs)"
    "\<forall>q \<in> set rs. known (r_db s) q \<and> row_is (r_db s) (p_id q) running"
    using assms by (simp_all add: runner_ok_def loop_ok_def)
  have "\<forall>q \<in> set rs. known (recover_row now r outcome (r_db s)) q \<and> row_is (recover_row now r outcome (r_db s)) (p_id q) running"
  proof
    fix q assume q: "q \<in> set rs"
    have "p_id q \<noteq> p_id r" using l(2) q by (metis imageI)
    then show "known (recover_row now r outcome (r_db s)) q \<and> row_is (recover_row now r outcome (r_db s)) (p_id q) running"
      using t q l(4) by (simp add: touches_def)
  qed
  then show ?thesis
    using assms(1) t l by (simp add: runner_ok_def loop_ok_def touches_def)
qed

lemma queue_known: "r \<in> set (queue d) \<Longrightarrow> known d r"
  by (auto simp: queue_def known_def)

lemma touches_running:
  assumes "jobs_ok d" "mark_running now i d = (d', Inr c)"
  shows "touches i d d'" and "c \<Longrightarrow> row_is d i queued \<and> row_is d' i running" and "\<not> row_is d i queued \<Longrightarrow> operations d' = operations d \<and> \<not> c"
proof -
  let ?f = "\<lambda>r. if p_status r = queued then r\<lparr>p_status := running, p_phase := ''validating'', p_updated := now\<rparr> else r"
  have o: "operations d' = map (\<lambda>q. if p_id q = i then ?f q else q) (operations d)"
    using assms(2) by (auto simp: mark_running_Inr)
  then show "touches i d d'"
    using assms(1) by (intro touches_map [where f = ?f]) (auto simp: identity_of_def active_def split: if_splits)
  show "c \<Longrightarrow> row_is d i queued \<and> row_is d' i running"
  proof -
    assume c
    then have "filter (\<lambda>r. p_id r = i \<and> p_status r = queued) (operations d) \<noteq> []"
      using assms(2) by (auto simp: mark_running_Inr)
    then obtain q where "q \<in> set (operations d)" "p_id q = i" "p_status q = queued"
      by (auto simp: filter_empty_conv)
    note q = this
    then have "?f q \<in> set (operations d')"
      unfolding o by auto
    then show ?thesis
      unfolding row_is_def using q by (intro conjI bexI [of _ q] bexI [of _ "?f q"]) simp_all
  qed
  assume n: "\<not> row_is d i queued"
  then have "filter (\<lambda>r. p_id r = i \<and> p_status r = queued) (operations d) = []"
    by (auto simp: row_is_def filter_empty_conv)
  moreover have "operations d' = operations d"
    unfolding o using n by (intro map_idI) (auto simp: row_is_def)
  ultimately show "operations d' = operations d \<and> \<not> c"
    using assms(2) by (simp add: mark_running_Inr)
qed

lemma after_claim_cases:
  assumes "after_claim registered r c = g"
  shows "c \<and> owns g \<and> (\<exists>j. stage_job g = Some j \<and> j_id j = p_id r) \<and> final_stage g \<or> \<not> c \<and> g = Leaving"
  using assms row_job_id [of r]
  by (auto simp: after_claim_def bare_job_def final_def split: if_splits sum.splits)

lemma after_run_stage: "\<exists>j' a b c. after_run r j outcome = Finishing j' a b c \<and> final a \<and> (j' = bare_job r \<or> j' = j)"
  by (auto simp: after_run_def final_def Let_def split: sum.splits)

lemma progress_keeps_id: "progress now j phase change result d = (d', Inr j') \<Longrightarrow> j_id j' = j_id j"
  by (auto simp: progress_def and_then_def update_operations_def Let_def)

lemma touches_finish:
  assumes "jobs_ok d" "finish now j status result msg d = (d', Inr ())" "final status"
  shows "touches (j_id j) d d'"
proof (rule finish_eq [of now j status result msg d])
  fix d1
  assume f: "finish now j status result msg d = (d1, Inr ())"
    and o: "operations d1 = map (\<lambda>q. if p_id q = j_id j then set_outcome now status result msg q else q) (operations d)"
  show ?thesis
    using assms(2,3) f o
    by (intro touches_map [OF assms(1), of _ _ "set_outcome now status result msg"])
       (auto simp: set_outcome_fields active_def final_def)
qed

lemma touches_requeue:
  assumes "jobs_ok d" "row_is d i running"
  shows "touches i d (fst (mark_queued now i d))"
proof -
  have "q \<in> set (operations d) \<Longrightarrow> p_id q = i \<Longrightarrow> active q" for q
    using assms jobs_ok_unique by (fastforce simp: row_is_def active_def)
  then show ?thesis
    by (intro touches_map [OF assms(1), of _ _ "\<lambda>r. r\<lparr>p_status := queued, p_phase := queued, p_updated := now\<rparr>"])
       (auto simp: mark_queued_fst identity_of_def)
qed

lemma runner_step_ok: "runner_step digest registered s e s' \<Longrightarrow> runner_ok s \<Longrightarrow> runner_ok s'"
proof (induction rule: runner_step.induct)
  case (queue_job now q i s d' j)
  then show ?case by (intro runner_ok_extends) (auto intro: extends_enqueue runner_ok_jobs)
next
  case (other_work d' s)
  then show ?case by (intro runner_ok_extends) (auto intro: extends_same runner_ok_jobs)
next
  case (start s)
  have "distinct (map p_id (filter (\<lambda>r. p_status r = running) (operations (r_db s))))"
    using runner_ok_jobs [OF start(4)] by (simp add: jobs_ok_def distinct_map_filter)
  moreover have "runner_ok (fresh_runner (r_db s)\<lparr>r_enabled := True\<rparr>)"
    using runner_ok_fresh [OF runner_ok_jobs [OF start(4)]] by simp
  ultimately show ?case
    by (intro runner_ok_loop) (auto simp: loop_ok_def fresh_runner_def known_def row_is_def)
next
  case (recover_progress s r rs j now w v phase change result)
  then show ?case
    by (cases "progress now (j\<lparr>j_recovery := v, j_result := w\<rparr>) phase change result (r_db s)")
       (auto intro: runner_ok_extends extends_progress runner_ok_jobs)
next
  case (recover_one s r rs now outcome)
  then show ?case by (rule_tac runner_ok_recover)
next
  case (recover_cancelled s rs)
  have "runner_ok (s\<lparr>r_enabled := False\<rparr>)"
    using recover_cancelled(2) by simp
  then show ?case
    by (rule runner_ok_loop) (simp add: loop_ok_def)
next
  case (recovered s)
  then show ?case by (intro runner_ok_loop) (simp_all add: loop_ok_def)
next
  case (read_queue s)
  then show ?case by (intro runner_ok_loop) (auto simp: loop_ok_def intro: queue_known)
next
  case (fill s rs)
  have "runner_ok (s\<lparr>r_loop := Idle\<rparr>)"
    using fill(2) by (intro runner_ok_loop) (simp_all add: loop_ok_def)
  then show ?case
    using fill by (intro runner_ok_fill) (simp_all add: runner_ok_def loop_ok_def)
next
  case (begin_job s i k now d' claimed g)
  have w: "worker_ok (r_db s) i k"
    using begin_job by (intro runner_ok_worker)
  show ?case
    using touches_running [OF runner_ok_jobs [OF begin_job(5)] begin_job(3)] after_claim_cases [OF begin_job(4)] w
    by (intro runner_ok_move [OF begin_job(5,1)]) (auto simp: worker_ok_def)
next
  case (job_progress s i k j now phase change result d' j')
  have e: "extends (r_db s) d'"
    using job_progress by (intro extends_progress) (auto intro: runner_ok_jobs)
  show ?case
    using runner_ok_worker [OF job_progress(4,1)] job_progress(2) progress_keeps_id [OF job_progress(3)] e
    by (intro runner_ok_move [OF job_progress(4,1) extends_touches [OF e]]) (auto simp: worker_ok_def extends_def)
next
  case (job_locked s i k j)
  then show ?case by simp
next
  case (job_busy s i k j c holds)
  then show ?case by (intro runner_ok_stage [of _ i k]) simp_all
next
  case (job_returns s i k j outcome)
  show ?case
    using runner_ok_worker [OF job_returns(3,1)] job_returns(2) after_run_stage [of "k_row k" j outcome]
    by (intro runner_ok_stage [OF job_returns(3,1)]) (auto simp: worker_ok_def bare_job_def)
next
  case (finish_job s i k j status result msg now d')
  have w: "j_id j = i" "final status"
    using runner_ok_worker [OF finish_job(4,1)] finish_job(2) by (auto simp: worker_ok_def)
  show ?case
    using touches_finish [OF runner_ok_jobs [OF finish_job(4)] finish_job(3)] w
    by (intro runner_ok_move [OF finish_job(4,1)]) simp_all
next
  case (requeue s i k holds now)
  have "row_is (r_db s) i running"
    using runner_ok_worker [OF requeue(3,1)] requeue(2) by (auto simp: worker_ok_def)
  then show ?case
    using touches_requeue [OF runner_ok_jobs [OF requeue(3)]]
    by (intro runner_ok_move [OF requeue(3,1)]) simp_all
next
  case (requeued s i k holds)
  then show ?case
    by (auto simp: after_requeue_def intro!: runner_ok_stage [of _ i k])
next
  case (give_up s i k)
  then show ?case by (intro runner_ok_stage [of _ i k]) simp_all
next
  case (retries s i k)
  then show ?case by (intro runner_ok_retry)
next
  case (leaves s i k)
  then show ?case by (intro runner_ok_leave)
next
  case (loop_ends s)
  then show ?case by (intro runner_ok_loop) (simp_all add: loop_ok_def)
next
  case (crash s)
  then show ?case by (intro runner_ok_fresh runner_ok_jobs)
qed simp_all

lemma runner_runs_ok: "runner_runs digest registered s es s' \<Longrightarrow> runner_ok s \<Longrightarrow> runner_ok s'"
  by (induction rule: runner_runs.induct) (auto intro: runner_step_ok)

section \<open>No second run\<close>

text \<open>
  An operation that ended, or that is saved as running without a worker that owns it, as after a
  crash.
\<close>

definition ended :: "database \<Rightarrow> string \<Rightarrow> string \<Rightarrow> bool" where
  "ended d i status \<longleftrightarrow> final status \<and> row_is d i status"

definition abandoned :: "runner \<Rightarrow> string \<Rightarrow> bool" where
  "abandoned s i \<longleftrightarrow> row_is (r_db s) i running \<and> (\<forall>k. r_workers s i = Some k \<longrightarrow> \<not> owns (k_stage k))"

definition spent :: "runner \<Rightarrow> string \<Rightarrow> bool" where
  "spent s i \<longleftrightarrow> (\<exists>a. ended (r_db s) i a) \<or> abandoned s i"

lemma final_not_running: "final a \<Longrightarrow> a \<noteq> running \<and> a \<noteq> queued"
  by (auto simp: final_def)

lemma spent_not_owned: "runner_ok s \<Longrightarrow> spent s i \<Longrightarrow> r_workers s i = Some k \<Longrightarrow> \<not> owns (k_stage k)"
  using runner_ok_worker [of s i k] row_is_unique [OF runner_ok_jobs] final_not_running
  by (fastforce simp: spent_def ended_def abandoned_def worker_ok_def)

lemma spent_not_queued: "runner_ok s \<Longrightarrow> spent s i \<Longrightarrow> \<not> row_is (r_db s) i queued"
  using row_is_unique [OF runner_ok_jobs] final_not_running
  by (fastforce simp: spent_def ended_def abandoned_def)

text \<open>What a step leaves alone: a spent operation's row and the stage of its worker.\<close>

definition spares :: "string \<Rightarrow> runner \<Rightarrow> runner \<Rightarrow> bool" where
  "spares i s s' \<longleftrightarrow>
     (\<forall>a. row_is (r_db s) i a \<longrightarrow> row_is (r_db s') i a) \<and>
     (\<forall>k'. r_workers s' i = Some k' \<longrightarrow> owns (k_stage k') \<longrightarrow> (\<exists>k. r_workers s i = Some k \<and> owns (k_stage k)))"

lemma spares_spent: "spares i s s' \<Longrightarrow> spent s i \<Longrightarrow> spent s' i"
  unfolding spares_def spent_def ended_def abandoned_def by blast

lemma spares_ended: "spares i s s' \<Longrightarrow> ended (r_db s) i a \<Longrightarrow> ended (r_db s') i a"
  by (simp add: spares_def ended_def)

lemma spares_extends: "extends (r_db s) d' \<Longrightarrow> r_workers s' = r_workers s \<Longrightarrow> r_db s' = d' \<Longrightarrow> spares i s s'"
  by (simp add: spares_def extends_def)

lemma spares_same: "r_workers s' = r_workers s \<Longrightarrow> r_db s' = r_db s \<Longrightarrow> spares i s s'"
  by (simp add: spares_def)

lemma with_stage_workers:
  "r_workers s i = Some k \<Longrightarrow> r_workers (with_stage i g s) = (r_workers s)(i \<mapsto> k\<lparr>k_stage := g\<rparr>)"
  "r_db (with_stage i g s) = r_db s"
  by (auto simp: with_stage_def split: option.splits)

text \<open>A step of another worker, or one to a stage that does not own the row.\<close>

lemma spares_other: "touches j (r_db s) d' \<Longrightarrow> i \<noteq> j \<Longrightarrow> r_workers s j = Some k \<Longrightarrow> spares i s (with_stage j g (s\<lparr>r_db := d'\<rparr>))"
  by (auto simp: spares_def touches_def with_stage_workers)

lemma spares_stage: "r_workers s j = Some k \<Longrightarrow> \<not> owns g \<Longrightarrow> spares i s (with_stage j g s)"
  by (auto simp: spares_def with_stage_workers)

lemma spares_fill: "spares i s (fold claim rs s)"
proof (induction rs arbitrary: s)
  case (Cons r rs)
  have "spares i s (claim r s)"
    by (auto simp: spares_def claim_def)
  then show ?case
    using Cons [of "claim r s"] by (auto simp: spares_def)
qed (simp add: spares_def)

lemma spares_retry: "r_workers s j = Some k \<Longrightarrow> spares i s (retry j s)"
  using spares_stage [of s j k Leaving i]
  by (auto simp: retry_def spares_def split: option.splits)

lemma spares_recover:
  assumes "runner_ok s" "spent s i" "r_loop s = Recovering (r # rs)" "s' = s\<lparr>r_db := recover_row now r outcome (r_db s), r_loop := Recovering rs\<rparr>"
  shows "spares i s s' \<or> (\<forall>a. \<not> ended (r_db s) i a) \<and> ended (r_db s') i interrupted"
proof -
  obtain f where f: "operations (recover_row now r outcome (r_db s)) = map (\<lambda>q. if p_id q = p_id r then f q else q) (operations (r_db s))"
    "\<And>q. identity_of (f q) = identity_of q" "\<And>q. p_status (f q) = interrupted"
    using recover_row_operations [of now r outcome "r_db s"] by blast
  have run: "row_is (r_db s) (p_id r) running" and jobs: "jobs_ok (r_db s)"
    using assms(1,3) by (auto simp: runner_ok_def loop_ok_def)
  show ?thesis
  proof (cases "i = p_id r")
    case True
    obtain q where q: "q \<in> set (operations (r_db s))" "p_id q = i"
      using run True by (auto simp: row_is_def)
    have "f q \<in> set (operations (recover_row now r outcome (r_db s)))"
      using q True by (auto simp: f(1))
    then have "ended (r_db s') i interrupted"
      using f(2) [of q] f(3) [of q] q(2) assms(4) by (auto simp: ended_def final_def row_is_def identity_of_eq)
    moreover have "\<forall>a. \<not> ended (r_db s) i a"
      using row_is_unique [OF jobs _ run] True final_not_running by (auto simp: ended_def)
    ultimately show ?thesis by blast
  next
    case False
    have "touches (p_id r) (r_db s) (recover_row now r outcome (r_db s))"
      using f(2,3) by (intro touches_map [OF jobs f(1)]) (auto simp: active_def)
    then show ?thesis
      using False assms(4) by (simp add: spares_def touches_def)
  qed
qed

lemma spent_step:
  "runner_step digest registered s e s' \<Longrightarrow> runner_ok s \<Longrightarrow> spent s i \<Longrightarrow>
     e \<noteq> Runs i \<and> (spares i s s' \<or> (\<forall>a. \<not> ended (r_db s) i a) \<and> ended (r_db s') i interrupted)"
proof (induction rule: runner_step.induct)
  case (queue_job now q j s d' job)
  then show ?case
    by (auto intro!: spares_extends [OF extends_enqueue] runner_ok_jobs)
next
  case (other_work d' s)
  then show ?case by (auto intro!: spares_extends [OF extends_same] runner_ok_jobs)
next
  case (start s)
  then show ?case by (simp add: spares_def fresh_runner_def)
next
  case (recover_progress s r rs j now w v phase change result)
  then show ?case
    by (cases "progress now (j\<lparr>j_recovery := v, j_result := w\<rparr>) phase change result (r_db s)")
       (auto intro!: spares_extends [OF extends_progress] runner_ok_jobs)
next
  case (recover_one s r rs now outcome)
  then show ?case using spares_recover by blast
next
  case (fill s rs)
  then show ?case
    using spares_fill [of i "s\<lparr>r_loop := Idle\<rparr>" rs] by (simp add: spares_def)
next
  case (begin_job s j k now d' claimed g)
  show ?case
  proof (cases "i = j")
    case True
    have "operations d' = operations (r_db s) \<and> \<not> claimed"
      using touches_running(3) [OF runner_ok_jobs [OF begin_job(5)] begin_job(3)] spent_not_queued [OF begin_job(5,6)] True by simp
    then show ?thesis
      using begin_job(1,4) True
      by (auto simp: after_claim_def begins_def spares_def row_is_def with_stage_workers)
  next
    case False
    then show ?thesis
      using spares_other [OF touches_running(1) [OF runner_ok_jobs [OF begin_job(5)] begin_job(3)] False begin_job(1)]
      by (auto simp: begins_def split: stage.splits)
  qed
next
  case (job_progress s j k job now phase change result d' job')
  have "i \<noteq> j"
    using spent_not_owned [OF job_progress(4,5)] job_progress(1,2) by auto
  then show ?case
    using job_progress runner_ok_jobs by (auto intro!: spares_other extends_touches extends_progress)
next
  case (job_busy s j k job c holds)
  have "i \<noteq> j"
    using spent_not_owned [OF job_busy(4,5)] job_busy(1,2) by auto
  then show ?case
    using job_busy(1) by (auto simp: spares_def with_stage_workers)
next
  case (job_returns s j k job outcome)
  have "i \<noteq> j"
    using spent_not_owned [OF job_returns(3,4)] job_returns(1,2) by auto
  then show ?case
    using job_returns(1) by (auto simp: spares_def with_stage_workers)
next
  case (finish_job s j k job status result msg now d')
  have "i \<noteq> j"
    using spent_not_owned [OF finish_job(4,5)] finish_job(1,2) by auto
  moreover have "j_id job = j" "final status"
    using runner_ok_worker [OF finish_job(4,1)] finish_job(2) by (auto simp: worker_ok_def)
  ultimately show ?case
    using spares_other [OF _ _ finish_job(1)] touches_finish [OF runner_ok_jobs [OF finish_job(4)] finish_job(3)]
    by (auto simp: tells_def split: option.splits)
next
  case (requeue s j k holds now)
  have "i \<noteq> j"
    using spent_not_owned [OF requeue(3,4)] requeue(1,2) by auto
  moreover have "row_is (r_db s) j running"
    using runner_ok_worker [OF requeue(3,1)] requeue(2) by (auto simp: worker_ok_def)
  ultimately show ?case
    using spares_other [OF touches_requeue _ requeue(1)] runner_ok_jobs [OF requeue(3)] by simp
next
  case (requeued s j k holds)
  then show ?case
    by (auto simp: after_requeue_def spares_def with_stage_workers)
next
  case (give_up s j k)
  then show ?case by (auto intro: spares_stage)
next
  case (retries s j k)
  then show ?case by (auto intro: spares_retry)
next
  case (leaves s j k)
  then show ?case by (simp add: spares_def leave_def)
next
  case (crash s)
  then show ?case by (simp add: spares_def fresh_runner_def)
qed (simp_all add: spares_def)

lemma spent_runs:
  "runner_runs digest registered s es s' \<Longrightarrow> runner_ok s \<Longrightarrow> spent s i \<Longrightarrow>
     spent s' i \<and> Runs i \<notin> set es \<and> (\<forall>a. ended (r_db s) i a \<longrightarrow> ended (r_db s') i a)"
proof (induction rule: runner_runs.induct)
  case (runs_step s es s' e s'')
  have ih: "spent s' i" "Runs i \<notin> set es" "\<forall>a. ended (r_db s) i a \<longrightarrow> ended (r_db s') i a"
    using runs_step by auto
  have ok: "runner_ok s'"
    using runner_runs_ok [OF runs_step(1,4)] .
  show ?case
    using spent_step [OF runs_step(2) ok ih(1)] ih spares_spent [of i s' s''] spares_ended [of i s' s'']
    by (auto simp: spent_def)
qed simp

text \<open>No step loses a row.\<close>

lemma known_step: "runner_step digest registered s e s' \<Longrightarrow> runner_ok s \<Longrightarrow> known (r_db s) r \<Longrightarrow> known (r_db s') r"
proof (induction rule: runner_step.induct)
  case (queue_job now q i s d' j)
  then show ?case using extends_enqueue runner_ok_jobs by (fastforce simp: extends_def)
next
  case (other_work d' s)
  then show ?case by (simp add: known_def)
next
  case (recover_progress s r' rs j now w v phase change result)
  then show ?case
    using extends_progress [OF runner_ok_jobs, of s now "j\<lparr>j_recovery := v, j_result := w\<rparr>" phase change result]
    by (cases "progress now (j\<lparr>j_recovery := v, j_result := w\<rparr>) phase change result (r_db s)") (simp add: extends_def)
next
  case (recover_one s r' rs now outcome)
  obtain f where f: "operations (recover_row now r' outcome (r_db s)) = map (\<lambda>q. if p_id q = p_id r' then f q else q) (operations (r_db s))"
    "\<And>q. identity_of (f q) = identity_of q" "\<And>q. p_status (f q) = interrupted"
    using recover_row_operations [of now r' outcome "r_db s"] by blast
  then have "touches (p_id r') (r_db s) (recover_row now r' outcome (r_db s))"
    by (intro touches_map [OF runner_ok_jobs [OF recover_one(2)] f(1)]) (auto simp: active_def)
  then show ?case using recover_one(3) by (simp add: touches_def)
next
  case (fill s rs)
  have "r_db (fold claim rs s') = r_db s'" for s'
    by (induction rs arbitrary: s') (simp_all add: claim_other_fields)
  then show ?case using fill by simp
next
  case (begin_job s i k now d' claimed g)
  then show ?case
    using touches_running(1) [OF runner_ok_jobs [OF begin_job(5)] begin_job(3)]
    by (simp add: touches_def with_stage_workers)
next
  case (job_progress s i k j now phase change result d' j')
  then show ?case
    using extends_progress [OF runner_ok_jobs [OF job_progress(4)] job_progress(3)] by (simp add: extends_def with_stage_workers)
next
  case (finish_job s i k j status result msg now d')
  moreover have "final status"
    using runner_ok_worker [OF finish_job(4,1)] finish_job(2) by (auto simp: worker_ok_def)
  ultimately show ?case
    using touches_finish [OF runner_ok_jobs [OF finish_job(4)] finish_job(3)] by (simp add: touches_def with_stage_workers)
next
  case (requeue s i k holds now)
  moreover have "row_is (r_db s) i running"
    using runner_ok_worker [OF requeue(3,1)] requeue(2) by (auto simp: worker_ok_def)
  ultimately show ?case
    using touches_requeue [OF runner_ok_jobs [OF requeue(3)]] by (simp add: touches_def with_stage_workers)
qed (auto simp: fresh_runner_def with_stage_def after_requeue_def retry_def leave_def split: option.splits)

lemma known_runs: "runner_runs digest registered s es s' \<Longrightarrow> runner_ok s \<Longrightarrow> known (r_db s) r \<Longrightarrow> known (r_db s') r"
  by (induction rule: runner_runs.induct) (auto intro: known_step runner_runs_ok)

lemma acting_row:
  assumes "runner_ok s" "r_workers s i = Some k" "owns (k_stage k)"
  shows "\<exists>r \<in> set (operations (r_db s)). p_id r = i \<and> active r \<and> p_server r = p_server (k_row k)"
proof -
  have w: "p_id (k_row k) = i" "known (r_db s) (k_row k)" "row_is (r_db s) i running"
    using runner_ok_worker [OF assms(1,2)] assms(3) by (auto simp: worker_ok_def)
  then obtain r where r: "r \<in> set (operations (r_db s))" "p_id r = i" "p_status r = running"
    by (auto simp: row_is_def)
  moreover obtain q where "q \<in> set (operations (r_db s))" "identity_of q = identity_of (k_row k)"
    using w(2) by (auto simp: known_def)
  moreover from this have "q = r"
    using jobs_ok_unique [OF runner_ok_jobs [OF assms(1)] _ r(1)] r(2) w(1) by (simp add: identity_of_eq)
  ultimately show ?thesis
    by (auto simp: active_def identity_of_eq)
qed

lemma find_Some_unique:
  assumes "x \<in> set xs" "p x" "\<And>y. y \<in> set xs \<Longrightarrow> p y \<Longrightarrow> y = x"
  shows "find p xs = Some x"
proof -
  obtain y where y: "find p xs = Some y"
    using assms(1,2) by (cases "find p xs") (auto simp: find_None_iff)
  then have "y \<in> set xs" "p y"
    by (auto simp: find_Some_iff)
  then show ?thesis using y assms(3) by simp
qed

text \<open>The row that a request was answered with.\<close>

lemma enqueued_row:
  assumes "enqueue_in digest i now q d = (d', Inr j)"
  shows "\<exists>r \<in> set (operations d'). p_id r = j_id j \<and> p_input r = write_map (q_input q) \<and>
    (q_key q \<noteq> [] \<longrightarrow> p_key r = request_key digest q)"
  using enqueue_in_Inr [OF assms]
proof
  assume "d' = d \<and> (\<exists>k r. request_key digest q = Some k \<and> r \<in> set (operations d) \<and> p_key r = Some k \<and>
      p_input r = write_map (q_input q) \<and> row_job r = Inr j)"
  then show ?thesis
    using row_job_id by auto
next
  let ?r = "queued_row digest i now q"
  assume "operations d' = operations d @ [?r] \<and>
    (\<forall>r \<in> set (operations d). p_id r \<noteq> i \<and> (p_server r = q_server q \<longrightarrow> \<not> active r) \<and>
       (request_key digest q \<noteq> None \<longrightarrow> p_key r \<noteq> request_key digest q)) \<and> row_job ?r = Inr j"
  then show ?thesis
    using row_job_id [of ?r j] by (intro bexI [of _ ?r]) (simp_all add: queued_row_def)
qed

end
