(* ===== verification/Operations.thy ===== *)
theory Operations
  imports RunnerProofs
begin

text \<open>
  The properties of operations and their runner, over every run from a stored database, and a
  sample run that shows their hypotheses can hold.
\<close>

section \<open>A sample run\<close>

definition sample_row :: "string \<Rightarrow> string \<Rightarrow> string \<Rightarrow> string \<Rightarrow> operation_row" where
  "sample_row i server kind status =
     \<lparr>p_id = i, p_server = server, p_actor = ''u1'', p_kind = kind, p_status = status, p_phase = status, p_input = ''{}'',
      p_recovery = ''{}'', p_binding = 1, p_key = None, p_created = 5, p_updated = 5, p_error = None, p_result = None\<rparr>"

definition sample_server :: "string \<Rightarrow> server_row" where
  "sample_server i =
     \<lparr>v_id = i, v_host = ''h1'', v_external = i, v_container = Some ''c1'', v_name = ''Server'', v_game = ''generic'',
      v_status = ''available'', v_revision = 1, v_fingerprint = ''f1'', v_pending = None, v_pending_game = None,
      v_review = 0, v_first = 1, v_seen = 1\<rparr>"

text \<open>An operation left running by a crash, one waiting on another server, and a third server.\<close>

definition sample_jobs :: database where
  "sample_jobs = empty_db\<lparr>
     users := [\<lparr>u_id = ''u1'', u_name = ''ann'', u_hash = ''h'', u_role = ''operator'', u_disabled = 0, u_created = 1, u_updated = 1\<rparr>],
     operations := [sample_row ''a'' ''s1'' ''backup'' running, sample_row ''b'' ''s2'' ''start'' queued],
     servers := [sample_server ''s1'', sample_server ''s2'', sample_server ''s3'']\<rparr>"

lemma sample_jobs_ok: "jobs_ok sample_jobs"
  by (simp add: jobs_ok_def sample_jobs_def sample_row_def active_def empty_db_def)

definition sample_started :: runner where
  "sample_started = fresh_runner sample_jobs\<lparr>r_enabled := True,
     r_loop := Recovering [sample_row ''a'' ''s1'' ''backup'' running]\<rparr>"

definition sample_recovered :: runner where
  "sample_recovered = sample_started\<lparr>
     r_db := recover_row 9 (sample_row ''a'' ''s1'' ''backup'' running) None sample_jobs, r_loop := Recovering []\<rparr>"

lemma sample_start: "runner_step digest registered (fresh_runner sample_jobs) Quiet sample_started"
  using runner_step.start [of "fresh_runner sample_jobs" digest registered]
  by (simp add: fresh_runner_def sample_started_def sample_jobs_def sample_row_def)

lemma sample_recovery: "runner_step digest registered sample_started Quiet sample_recovered"
  using runner_step.recover_one [of sample_started "sample_row ''a'' ''s1'' ''backup'' running" "[]" digest registered 9 None]
  by (simp add: sample_recovered_def sample_started_def fresh_runner_def)

lemma sample_runs: "runner_runs digest registered (fresh_runner sample_jobs) [Quiet, Quiet] sample_recovered"
  using runs_step [OF runs_step [OF runs_nil sample_start] sample_recovery] by simp

text \<open>The waiting operation is then claimed and handed to its handler.\<close>

definition sample_job :: job where
  "sample_job = \<lparr>j_id = ''b'', j_server = ''s2'', j_kind = ''start'', j_status = queued, j_phase = queued, j_created = 5,
     j_updated = 5, j_error = [], j_result = None, j_actor = ''u1'', j_input = [], j_recovery = no_recovery, j_binding = 1\<rparr>"

lemma sample_row_job: "row_job (sample_row ''b'' ''s2'' ''start'' queued) = Inr sample_job"
  by code_simp

lemma sample_recovered_rows:
  "operations (r_db sample_recovered) =
     [set_outcome 9 interrupted None (recovery_message False) (sample_row ''a'' ''s1'' ''backup'' running),
      sample_row ''b'' ''s2'' ''start'' queued]"
proof -
  let ?r = "sample_row ''a'' ''s1'' ''backup'' running"
  obtain d' where f: "finish 9 (bare_job ?r) interrupted None (recovery_message False) sample_jobs = (d', Inr ())"
    and o: "operations d' = map (\<lambda>q. if p_id q = j_id (bare_job ?r)
        then set_outcome 9 interrupted None (recovery_message False) q else q) (operations sample_jobs)"
    by (rule finish_eq)
  have "recover_row 9 ?r None sample_jobs = d'"
    by (simp add: recover_row_def f split: sum.split)
  moreover have "operations d' = [set_outcome 9 interrupted None (recovery_message False) ?r, sample_row ''b'' ''s2'' ''start'' queued]"
    unfolding o by (simp add: sample_jobs_def bare_job_def sample_row_def)
  ultimately show ?thesis
    by (simp add: sample_recovered_def)
qed

definition sample_idle :: runner where
  "sample_idle = sample_recovered\<lparr>r_loop := Idle\<rparr>"

definition sample_claimed :: runner where
  "sample_claimed = claim (sample_row ''b'' ''s2'' ''start'' queued) sample_idle"

lemma sample_queue: "queue (r_db sample_recovered) = [sample_row ''b'' ''s2'' ''start'' queued]"
  by (simp add: queue_def sample_recovered_rows set_outcome_def sample_row_def)

lemma sample_runs_claimed:
  "runner_runs digest registered (fresh_runner sample_jobs) [Quiet, Quiet, Quiet, Quiet, Quiet] sample_claimed"
proof -
  have r: "r_loop sample_recovered = Recovering []" "r_enabled sample_recovered" "r_yielded sample_recovered = {}"
    "r_load sample_recovered = (\<lambda>_. 0)"
    by (simp_all add: sample_recovered_def sample_started_def fresh_runner_def)
  have "runner_step digest registered sample_recovered Quiet sample_idle"
    unfolding sample_idle_def by (rule runner_step.recovered) (rule r(1))
  moreover have "runner_step digest registered sample_idle Quiet (sample_idle\<lparr>r_loop := Filling (queue (r_db sample_idle))\<rparr>)"
    by (rule runner_step.read_queue) (simp_all add: sample_idle_def r lanes_full_def lane_capacity_def)
  moreover have "runner_step digest registered (sample_idle\<lparr>r_loop := Filling (queue (r_db sample_idle))\<rparr>) Quiet sample_claimed"
    using runner_step.fill [of "sample_idle\<lparr>r_loop := Filling (queue (r_db sample_idle))\<rparr>" "queue (r_db sample_idle)" digest registered]
    by (simp add: sample_claimed_def sample_idle_def sample_queue)
  ultimately show ?thesis
    using runs_step [OF runs_step [OF runs_step [OF sample_runs]]] by fastforce
qed

lemma sample_runs_acting:
  assumes "registered ''start''"
  obtains s k where
    "runner_runs digest registered (fresh_runner sample_jobs) [Quiet, Quiet, Quiet, Quiet, Quiet, Runs ''b''] s"
    "r_workers s ''b'' = Some k" "k_stage k = Acting sample_job" "k_row k = sample_row ''b'' ''s2'' ''start'' queued"
proof -
  let ?b = "sample_row ''b'' ''s2'' ''start'' queued"
  let ?k = "\<lparr>k_row = ?b, k_lane = lane_for ?b, k_stage = Starting\<rparr>"
  have w: "r_workers sample_claimed ''b'' = Some ?k" and db: "r_db sample_claimed = r_db sample_recovered"
    by (simp_all add: sample_claimed_def claim_def claimable_def sample_idle_def sample_recovered_def sample_started_def
        fresh_runner_def lane_capacity_def sample_row_def split: lane.split)
  obtain d' where m: "mark_running 9 ''b'' (r_db sample_claimed) = (d', Inr True)"
    unfolding db by (simp add: mark_running_Inr sample_recovered_rows set_outcome_def sample_row_def)
  have g: "after_claim registered (k_row ?k) True = Acting sample_job"
    using assms by (simp add: after_claim_def sample_row_job) (simp add: sample_job_def)
  have "runner_step digest registered sample_claimed (begins ''b'' (Acting sample_job))
      (with_stage ''b'' (Acting sample_job) (sample_claimed\<lparr>r_db := d'\<rparr>))"
    by (rule runner_step.begin_job [OF w _ m g]) simp
  then show ?thesis
    using runs_step [OF sample_runs_claimed] w that [of "with_stage ''b'' (Acting sample_job) (sample_claimed\<lparr>r_db := d'\<rparr>)"]
    by (fastforce simp: begins_def with_stage_workers)
qed

section \<open>One active operation per server\<close>

text \<open>C15. In every interleaving of requests, workers, restarts and crashes: a server has at most one
  queued or running operation, two handlers that act at the same time act on different servers, and
  no lane has more workers than its capacity.\<close>

theorem active_operations_apart:
  assumes "jobs_ok d" "runner_runs digest registered (fresh_runner d) es s"
  shows "distinct (map p_server (filter active (operations (r_db s)))) \<and>
    (\<forall>i k i' k' j j'. i \<noteq> i' \<longrightarrow> r_workers s i = Some k \<longrightarrow> r_workers s i' = Some k' \<longrightarrow>
       k_stage k = Acting j \<longrightarrow> k_stage k' = Acting j' \<longrightarrow> p_server (k_row k) \<noteq> p_server (k_row k')) \<and>
    (\<forall>l. card {i. \<exists>k. r_workers s i = Some k \<and> lane_for (k_row k) = l} \<le> lane_capacity l)"
proof (intro conjI allI impI)
  have ok: "runner_ok s"
    using runner_runs_ok [OF assms(2) runner_ok_fresh [OF assms(1)]] .
  show "distinct (map p_server (filter active (operations (r_db s))))"
    using runner_ok_jobs [OF ok] by (simp add: jobs_ok_def)
  fix i k i' k' j j'
  assume ne: "i \<noteq> i'" and w: "r_workers s i = Some k" "r_workers s i' = Some k'"
    and a: "k_stage k = Acting j" "k_stage k' = Acting j'"
  obtain r r' where r: "r \<in> set (operations (r_db s))" "p_id r = i" "active r" "p_server r = p_server (k_row k)"
    and r': "r' \<in> set (operations (r_db s))" "p_id r' = i'" "active r'" "p_server r' = p_server (k_row k')"
    using acting_row [OF ok w(1)] acting_row [OF ok w(2)] a by fastforce
  show "p_server (k_row k) \<noteq> p_server (k_row k')"
    using jobs_ok_server [OF runner_ok_jobs [OF ok] r(1) r'(1) r(3) r'(3)] r r' ne by auto
next
  fix l
  have ok: "runner_ok s"
    using runner_runs_ok [OF assms(2) runner_ok_fresh [OF assms(1)]] .
  then have "{i. \<exists>k. r_workers s i = Some k \<and> lane_for (k_row k) = l} = in_lane (r_workers s) l"
    by (auto simp: in_lane_def runner_ok_def worker_ok_def)
  then show "card {i. \<exists>k. r_workers s i = Some k \<and> lane_for (k_row k) = l} \<le> lane_capacity l"
    using ok by (simp add: runner_ok_def)
qed

lemma active_operations_apart_witness:
  "\<exists>s k. runner_runs (\<lambda>x. x) (\<lambda>_. True) (fresh_runner sample_jobs) [Quiet, Quiet, Quiet, Quiet, Quiet, Runs ''b''] s \<and>
     r_workers s ''b'' = Some k \<and> k_stage k = Acting sample_job \<and>
     distinct (map p_server (filter active (operations (r_db s))))"
proof (rule sample_runs_acting [of "\<lambda>_. True" "\<lambda>x. x"])
  fix s k
  assume r: "runner_runs (\<lambda>x. x) (\<lambda>_. True) (fresh_runner sample_jobs) [Quiet, Quiet, Quiet, Quiet, Quiet, Runs ''b''] s"
    and k: "r_workers s ''b'' = Some k" "k_stage k = Acting sample_job"
  show ?thesis
    using active_operations_apart [OF sample_jobs_ok r] r k by blast
qed simp

section \<open>No operation runs twice\<close>

text \<open>C17. An operation that was left running by a crash, or that has ended, is never handed to its
  handler's \<open>Run\<close> again, whatever happens next; and a recorded outcome never changes.\<close>

theorem never_run_again:
  assumes "jobs_ok d" "runner_runs digest registered (fresh_runner d) es s"
    and "r \<in> set (operations (r_db s))"
    and "final (p_status r) \<or> p_status r = running \<and> r_workers s (p_id r) = None"
    and "runner_runs digest registered s es' s'"
  shows "Runs (p_id r) \<notin> set es' \<and>
    (final (p_status r) \<longrightarrow> (\<exists>r' \<in> set (operations (r_db s')). p_id r' = p_id r \<and> p_status r' = p_status r))"
proof -
  have ok: "runner_ok s"
    using runner_runs_ok [OF assms(2) runner_ok_fresh [OF assms(1)]] .
  have e: "final (p_status r) \<Longrightarrow> ended (r_db s) (p_id r) (p_status r)"
    using assms(3) by (auto simp: ended_def row_is_def)
  have "spent s (p_id r)"
    using assms(3,4) e by (auto simp: spent_def abandoned_def row_is_def)
  then show ?thesis
    using spent_runs [OF assms(5) ok] e by (fastforce simp: ended_def row_is_def)
qed

lemma never_run_again_witness:
  "Runs ''a'' \<notin> set [Quiet, Quiet, Quiet, Quiet, Quiet, Runs ''b''] \<and>
   row_is (r_db (fresh_runner sample_jobs)) ''a'' running"
proof (rule sample_runs_acting [of "\<lambda>_. True" "\<lambda>x. x"])
  fix s k
  assume r: "runner_runs (\<lambda>x. x) (\<lambda>_. True) (fresh_runner sample_jobs) [Quiet, Quiet, Quiet, Quiet, Quiet, Runs ''b''] s"
  have a: "sample_row ''a'' ''s1'' ''backup'' running \<in> set (operations (r_db (fresh_runner sample_jobs)))"
    by (simp add: fresh_runner_def sample_jobs_def)
  have "row_is (r_db (fresh_runner sample_jobs)) ''a'' running"
    by (simp add: row_is_def fresh_runner_def sample_jobs_def sample_row_def)
  moreover have "Runs ''a'' \<notin> set [Quiet, Quiet, Quiet, Quiet, Quiet, Runs ''b'']"
    using never_run_again [OF sample_jobs_ok runs_nil a _ r] by (simp add: sample_row_def fresh_runner_def)
  ultimately show ?thesis by blast
qed simp

section \<open>Request keys\<close>

text \<open>C18. A request with a key is done once: after it queued an operation, the same request, at any
  later time, changes nothing and is answered with that operation as it stands; the key with other
  settings is refused.\<close>

theorem request_done_once:
  assumes "jobs_ok d" "runner_runs digest registered (fresh_runner d) es s"
    and "enqueue_in digest i now q (r_db s) = (d', Inr j)" "q_key q \<noteq> []"
    and "runner_runs digest registered (s\<lparr>r_db := d'\<rparr>) es' s'"
    and "request_text q' = request_text q" "q_key q' \<noteq> []"
  shows "\<exists>r \<in> set (operations (r_db s')). p_id r = j_id j \<and>
    enqueue_in digest i' now' q' (r_db s') =
      (r_db s', if write_map (q_input q') = write_map (q_input q) then row_job r
                else Inl (PublicError ''IDEMPOTENCY_CONFLICT'' 409))"
proof -
  have ok: "runner_ok s"
    using runner_runs_ok [OF assms(2) runner_ok_fresh [OF assms(1)]] .
  then have ok1: "runner_ok (s\<lparr>r_db := d'\<rparr>)"
    using assms(3) runner_ok_jobs by (intro runner_ok_extends extends_enqueue)
  then have ok': "runner_ok s'"
    using runner_runs_ok [OF assms(5)] by blast
  let ?key = "digest (request_text q)"
  have "\<exists>r \<in> set (operations d'). p_id r = j_id j \<and> p_key r = Some ?key \<and> p_input r = write_map (q_input q)"
    using enqueued_row [OF assms(3)] assms(4) by (auto simp: request_key_def)
  then obtain r0 where r0: "known (r_db (s\<lparr>r_db := d'\<rparr>)) r0" "p_id r0 = j_id j" "p_key r0 = Some ?key" "p_input r0 = write_map (q_input q)"
    by (auto simp: known_def)
  then obtain r where r: "r \<in> set (operations (r_db s'))" "identity_of r = identity_of r0"
    using known_runs [OF assms(5) ok1] by (auto simp: known_def)
  then have k: "p_key r = Some ?key" "p_id r = j_id j" "p_input r = write_map (q_input q)"
    using r0 by (simp_all add: identity_of_eq)
  have "find (\<lambda>p. p_key p = Some ?key) (operations (r_db s')) = Some r"
    by (rule find_Some_unique, rule r(1), rule k(1)) (rule jobs_ok_key [OF runner_ok_jobs [OF ok'] _ r(1) _ k(1)])
  then have "prior_operation (request_key digest q') (r_db s') = Some r"
    using assms(6,7) by (simp add: prior_operation_def request_key_def)
  then show ?thesis
    using r(1) k by (intro bexI [of _ r]) (auto simp: enqueue_in_def and_then_def results_def)
qed

definition sample_request :: enqueue_options where
  "sample_request = \<lparr>q_server = ''s3'', q_actor = ''u1'', q_kind = ''backup'', q_binding = 1,
     q_input = [(''backupId'', JStr ''k1'')], q_key = ''click''\<rparr>"

lemma sample_request_queued:
  obtains d' j where "enqueue_in (\<lambda>x. x) ''c'' 7 sample_request (r_db (fresh_runner sample_jobs)) = (d', Inr j)" "j_id j = ''c''"
proof -
  have "(case snd (enqueue_in (\<lambda>x. x) ''c'' 7 sample_request (r_db (fresh_runner sample_jobs))) of Inl e \<Rightarrow> False | Inr j \<Rightarrow> j_id j = ''c'')"
    by code_simp
  then show ?thesis
    using that by (cases "enqueue_in (\<lambda>x. x) ''c'' 7 sample_request (r_db (fresh_runner sample_jobs))") (auto split: sum.splits)
qed

lemma request_done_once_witness:
  "\<exists>d' j r. enqueue_in (\<lambda>x. x) ''c'' 7 sample_request sample_jobs = (d', Inr j) \<and> r \<in> set (operations d') \<and> p_id r = ''c'' \<and>
     enqueue_in (\<lambda>x. x) ''e'' 8 sample_request d' = (d', row_job r)"
proof (rule sample_request_queued)
  fix d' j
  assume q: "enqueue_in (\<lambda>x. x) ''c'' 7 sample_request (r_db (fresh_runner sample_jobs)) = (d', Inr j)" "j_id j = ''c''"
  have "q_key sample_request \<noteq> []"
    by (simp add: sample_request_def)
  then obtain r where "r \<in> set (operations d')" "p_id r = ''c''" "enqueue_in (\<lambda>x. x) ''e'' 8 sample_request d' = (d', row_job r)"
    using request_done_once [where i' = "''e''" and now' = 8 and registered = "\<lambda>_. True",
        OF sample_jobs_ok runs_nil q(1) _ runs_nil refl] q(2) by auto
  then show ?thesis
    using q(1) by (auto simp: fresh_runner_def)
qed

section \<open>Recovery state\<close>

text \<open>What an operation saves before a step on Docker is what a restart reads: after \<open>Progress\<close> the
  row yields the job with exactly the phase, recovery state and result that the job in memory has.\<close>

theorem progress_survives_restart:
  assumes "jobs_ok d" "r \<in> set (operations d)" "p_id r = j_id j" "row_job r = Inr j0"
    and "progress now j phase change result d = (d', Inr j')"
    and "storable (j_recovery j')"
    and "pred_option (\<lambda>m. canonical max_depth (JObj m) \<and> ordered (JObj m)) (j_result j')"
  shows "get_job (j_id j) d' =
    Inr (Some (j0\<lparr>j_recovery := j_recovery j', j_result := j_result j', j_phase := j_phase j', j_updated := now\<rparr>))"
proof -
  let ?f = "\<lambda>q. q\<lparr>p_phase := phase, p_recovery := write_recovery (j_recovery j'), p_result := map_option write_map (j_result j'),
    p_updated := now\<rparr>"
  have o: "operations d' = map (\<lambda>q. if p_id q = j_id j then ?f q else q) (operations d)" and ph: "j_phase j' = phase"
    using assms(5) by (auto simp: progress_def Let_def and_then_def update_operations_def)
  have "find_operation (j_id j) d' = Some (?f r)"
    unfolding find_operation_def
  proof (rule find_Some_unique)
    show "?f r \<in> set (operations d')"
      unfolding o using assms(2,3) by force
    fix y assume "y \<in> set (operations d')" "p_id y = j_id j"
    then show "y = ?f r"
      unfolding o using jobs_ok_unique [OF assms(1) _ assms(2)] assms(3) by (auto split: if_splits)
  qed (simp add: assms(3))
  moreover have "parse_result (map_option write_map (j_result j')) = Inr (j_result j')"
    using assms(7) by (cases "j_result j'") (simp_all add: parse_result_def parse_object_def parse_write_map)
  then have "row_job (?f r) = Inr (j0\<lparr>j_recovery := j_recovery j', j_result := j_result j', j_phase := j_phase j', j_updated := now\<rparr>)"
    using assms(4) read_write_recovery [OF assms(6)] ph by (auto simp: row_job_def go_error split: option.splits)
  ultimately show ?thesis
    by (simp add: get_job_def)
qed

definition sample_change :: "recovery \<Rightarrow> recovery" where
  "sample_change r = r\<lparr>rc_container := ''c1'', rc_locks := [''server:s2''], rc_initial_running := Some True, rc_stop_deadline := 170\<rparr>"

lemma progress_survives_restart_witness:
  "\<exists>d' j'. progress 9 sample_job ''stopping'' (Some sample_change) None sample_jobs = (d', Inr j') \<and>
     get_job ''b'' d' = Inr (Some (sample_job\<lparr>j_recovery := sample_change no_recovery, j_phase := ''stopping'', j_updated := 9\<rparr>))"
proof -
  let ?b = "sample_row ''b'' ''s2'' ''start'' queued"
  obtain d' where p: "progress 9 sample_job ''stopping'' (Some sample_change) None sample_jobs =
      (d', Inr (sample_job\<lparr>j_recovery := sample_change no_recovery, j_phase := ''stopping''\<rparr>))"
    by (simp add: progress_def and_then_def update_operations_def sample_job_def Let_def)
  have "storable (sample_change no_recovery)"
    by (simp add: storable_def int64s_def int64_def sample_change_def no_recovery_def plain_valid_utf8
        plain_def plain_char_def byte_def quote_def backslash_def)
  then have "get_job (j_id sample_job) d' = Inr (Some (sample_job\<lparr>j_recovery := sample_change no_recovery, j_phase := ''stopping'', j_updated := 9\<rparr>))"
    using progress_survives_restart [OF sample_jobs_ok _ _ sample_row_job p]
    by (simp add: sample_jobs_def sample_row_def sample_job_def)
  then show ?thesis
    using p by (simp add: sample_job_def)
qed

end
