(* ===== verification/ScheduleInput.thy ===== *)
theory ScheduleInput
  imports SchedTime Recovery Authz
begin

text \<open>
  A schedule's settings, \<open>src/internal/schedules/input.go\<close>: validation, the stored JSON form, the
  capabilities a run needs. A nil slice or pointer is \<open>None\<close>; the time zone database is a parameter.
\<close>

section \<open>Settings\<close>

text \<open>\<open>si_announce\<close>: no announcements, announcements with the default times, or with these times.\<close>

record schedule_input =
  si_kind :: string
  si_action :: string
  si_announce :: "int list option option"
  si_backup :: bool
  si_enabled :: bool
  si_time :: string
  si_zone :: string
  si_days :: "int list option"
  si_date :: string

definition no_input :: schedule_input where
  "no_input = \<lparr>si_kind = [], si_action = [], si_announce = None, si_backup = False, si_enabled = False, si_time = [],
     si_zone = [], si_days = None, si_date = []\<rparr>"

definition slice :: "'a list option \<Rightarrow> 'a list" where
  "slice v = (case v of None \<Rightarrow> [] | Some xs \<Rightarrow> xs)"

definition clock_of :: "schedule_input \<Rightarrow> sched_input" where
  "clock_of i = \<lparr>kind = si_kind i, enabled = si_enabled i, at_time = si_time i, timezone = si_zone i,
     days = slice (si_days i), at_date = si_date i\<rparr>"

definition schedule_actions :: "string list" where
  "schedule_actions = [''start'', ''stop'', ''restart'', ''backup'']"

definition default_leads :: "int list" where
  "default_leads = [10, 5, 1]"

definition invalid_request :: db_error where
  "invalid_request = PublicError ''INVALID_REQUEST'' 400"

text \<open>The pattern of a date restricts month and day besides its shape.\<close>

definition strict_date :: "string \<Rightarrow> bool" where
  "strict_date s \<longleftrightarrow> date_shape s \<and>
     (let m = parse_nat 10 (take 2 (drop 5 s)); d = parse_nat 10 (drop 8 s) in 1 \<le> m \<and> m \<le> 12 \<and> 1 \<le> d \<and> d \<le> 31)"

definition valid_date :: "string \<Rightarrow> bool" where
  "valid_date s \<longleftrightarrow> strict_date s \<and> (case parse_date s of None \<Rightarrow> False | Some day \<Rightarrow> format_date day = s)"

definition valid_kind :: "schedule_input \<Rightarrow> bool" where
  "valid_kind i \<longleftrightarrow>
     (if si_kind i = ''recurring'' then
        si_date i = [] \<and> 1 \<le> length (slice (si_days i)) \<and> length (slice (si_days i)) \<le> 7 \<and>
        (\<forall>d \<in> set (slice (si_days i)). 0 \<le> d \<and> d \<le> 6)
      else if si_kind i = ''once'' then si_days i = None \<and> valid_date (si_date i)
      else False)"

definition valid_leads :: "int list \<Rightarrow> bool" where
  "valid_leads ls \<longleftrightarrow> 1 \<le> length ls \<and> length ls \<le> 10 \<and> (\<forall>l \<in> set ls. 1 \<le> l \<and> l \<le> 60) \<and> distinct ls"

text \<open>\<open>Validate\<close> fills in the default times; every failure is an invalid request.\<close>

definition validate :: "tzdb \<Rightarrow> schedule_input \<Rightarrow> db_error + schedule_input" where
  "validate tz i =
     res_bind (require (si_action i \<in> set schedule_actions) invalid_request) (\<lambda>_.
     res_bind (require (time_pattern (si_time i)) invalid_request) (\<lambda>_.
     res_bind (require (si_zone i \<noteq> [] \<and> length (si_zone i) \<le> 100) invalid_request) (\<lambda>_.
     res_bind (require (load_location tz (si_zone i) \<noteq> None) invalid_request) (\<lambda>_.
     res_bind (require (valid_kind i) invalid_request) (\<lambda>_.
     res_bind (require (\<not> (si_backup i \<and> si_action i \<noteq> ''restart'')) invalid_request) (\<lambda>_.
     (case si_announce i of
        None \<Rightarrow> Inr i
      | Some leads \<Rightarrow>
          res_bind (require (si_action i = ''restart'') invalid_request) (\<lambda>_.
          (let ls = (case leads of None \<Rightarrow> default_leads | Some ls \<Rightarrow> ls)
           in res_bind (require (valid_leads ls) invalid_request) (\<lambda>_. Inr (i\<lparr>si_announce := Some (Some ls)\<rparr>)))))))))))"

section \<open>The stored form\<close>

definition write_ints :: "int list \<Rightarrow> json" where
  "write_ints xs = JArr (map json_int xs)"

definition announce_json :: "int list option \<Rightarrow> json" where
  "announce_json leads = JObj [(''leadMinutes'', case leads of None \<Rightarrow> JNull | Some ls \<Rightarrow> write_ints ls)]"

definition input_members :: "schedule_input \<Rightarrow> members" where
  "input_members i =
     [(''kind'', JStr (si_kind i)), (''action'', JStr (si_action i))] @ opt_member ''announcements'' announce_json (si_announce i) @
     [(''createBackup'', JBool (si_backup i)), (''enabled'', JBool (si_enabled i)), (''time'', JStr (si_time i)),
      (''timezone'', JStr (si_zone i))] @
     (if slice (si_days i) = [] then [] else [(''days'', write_ints (slice (si_days i)))]) @ text_member ''date'' (si_date i)"

definition write_input :: "schedule_input \<Rightarrow> string" where
  "write_input i = write_json (JObj (input_members i))"

text \<open>Decoding: a field's new value from the old one and what the document has.\<close>

definition read_text :: "string \<Rightarrow> json \<Rightarrow> string option" where
  "read_text old j = (case j of JStr s \<Rightarrow> Some s | JNull \<Rightarrow> Some old | _ \<Rightarrow> None)"

definition read_flag :: "bool \<Rightarrow> json \<Rightarrow> bool option" where
  "read_flag old j = (case j of JBool b \<Rightarrow> Some b | JNull \<Rightarrow> Some old | _ \<Rightarrow> None)"

fun json_ints :: "json list \<Rightarrow> int list option" where
  "json_ints [] = Some []"
| "json_ints (JNum n # xs) = (case parse_int64 n of None \<Rightarrow> None | Some i \<Rightarrow> map_option ((#) i) (json_ints xs))"
| "json_ints (JNull # xs) = map_option ((#) 0) (json_ints xs)"
| "json_ints (_ # xs) = None"

definition read_ints :: "json \<Rightarrow> int list option option" where
  "read_ints j = (case j of JArr xs \<Rightarrow> map_option Some (json_ints xs) | JNull \<Rightarrow> Some None | _ \<Rightarrow> None)"

fun read_leads :: "members \<Rightarrow> int list option \<Rightarrow> int list option option" where
  "read_leads [] old = Some old"
| "read_leads ((k, j) # ms) old =
     (if fold_name k \<noteq> fold_name ''leadMinutes'' then None
      else (case read_ints j of None \<Rightarrow> None | Some v \<Rightarrow> read_leads ms v))"

definition read_announce :: "int list option option \<Rightarrow> json \<Rightarrow> int list option option option" where
  "read_announce old j =
     (case j of
        JObj ms \<Rightarrow> map_option Some (read_leads ms (case old of None \<Rightarrow> None | Some ls \<Rightarrow> ls))
      | JNull \<Rightarrow> Some None
      | _ \<Rightarrow> None)"

text \<open>Unknown fields are refused; names are equal up to case.\<close>

definition read_member :: "string \<times> json \<Rightarrow> schedule_input \<Rightarrow> schedule_input option" where
  "read_member m i =
     (let k = fold_name (fst m); j = snd m
      in if k = ''kind'' then map_option (\<lambda>v. i\<lparr>si_kind := v\<rparr>) (read_text (si_kind i) j)
         else if k = ''action'' then map_option (\<lambda>v. i\<lparr>si_action := v\<rparr>) (read_text (si_action i) j)
         else if k = ''announcements'' then map_option (\<lambda>v. i\<lparr>si_announce := v\<rparr>) (read_announce (si_announce i) j)
         else if k = fold_name ''createBackup'' then map_option (\<lambda>v. i\<lparr>si_backup := v\<rparr>) (read_flag (si_backup i) j)
         else if k = ''enabled'' then map_option (\<lambda>v. i\<lparr>si_enabled := v\<rparr>) (read_flag (si_enabled i) j)
         else if k = ''time'' then map_option (\<lambda>v. i\<lparr>si_time := v\<rparr>) (read_text (si_time i) j)
         else if k = ''timezone'' then map_option (\<lambda>v. i\<lparr>si_zone := v\<rparr>) (read_text (si_zone i) j)
         else if k = ''days'' then map_option (\<lambda>v. i\<lparr>si_days := v\<rparr>) (read_ints j)
         else if k = ''date'' then map_option (\<lambda>v. i\<lparr>si_date := v\<rparr>) (read_text (si_date i) j)
         else None)"

fun read_input_members :: "members \<Rightarrow> schedule_input \<Rightarrow> schedule_input option" where
  "read_input_members [] i = Some i"
| "read_input_members (m # ms) i = (case read_member m i of None \<Rightarrow> None | Some i' \<Rightarrow> read_input_members ms i')"

text \<open>A decoder reads the first value of the text and leaves the rest.\<close>

definition first_json :: "string \<Rightarrow> json option" where
  "first_json s = map_option fst (parse_value (2 * length (fix_utf8 s) + 2) max_depth (fix_utf8 s))"

definition decode_input :: "string \<Rightarrow> schedule_input option" where
  "decode_input s =
     (case first_json s of
        Some (JObj ms) \<Rightarrow> read_input_members ms (no_input\<lparr>si_enabled := True\<rparr>)
      | Some JNull \<Rightarrow> Some (no_input\<lparr>si_enabled := True\<rparr>)
      | _ \<Rightarrow> None)"

definition invalid_saved :: db_error where
  "invalid_saved = InvalidSaved"

definition parse_saved :: "tzdb \<Rightarrow> string \<Rightarrow> db_error + schedule_input" where
  "parse_saved tz s = (case decode_input s of None \<Rightarrow> Inl invalid_saved | Some i \<Rightarrow> validate tz i)"

section \<open>Capabilities\<close>

definition input_capabilities :: "schedule_input \<Rightarrow> capability list" where
  "input_capabilities i =
     [if si_action i = ''backup'' then ''backups.create'' else ''server.'' @ si_action i] @
     (if si_backup i then [''backups.create''] else [])"

definition edit_capabilities :: "schedule_input \<Rightarrow> capability list" where
  "edit_capabilities i = input_capabilities i @ (if si_announce i = None then [] else [''console.execute''])"

text \<open>\<open>key\<close>: settings compared with the days as a set; the order and the text of the key do not matter.\<close>

definition input_key :: "schedule_input \<Rightarrow> string \<times> string \<times> bool \<times> int list option option \<times> bool \<times> string \<times> string \<times> int list option \<times> string" where
  "input_key i = (si_kind i, si_action i, si_backup i, si_announce i, si_enabled i, si_time i, si_zone i,
     map_option (\<lambda>ds. sorted_list_of_set (set ds)) (si_days i), si_date i)"

section \<open>What is stored is what is read\<close>

lemma input_names:
  "fold_name ''kind'' = ''kind''" "fold_name ''action'' = ''action''" "fold_name ''announcements'' = ''announcements''"
  "fold_name ''createBackup'' = ''createbackup''" "fold_name ''enabled'' = ''enabled''" "fold_name ''time'' = ''time''"
  "fold_name ''timezone'' = ''timezone''" "fold_name ''days'' = ''days''" "fold_name ''date'' = ''date''"
  by code_simp+

lemma read_write_ints: "list_all int64 xs \<Longrightarrow> read_ints (write_ints xs) = Some (Some xs)"
proof -
  assume "list_all int64 xs"
  then have "json_ints (map json_int xs) = Some xs"
    by (induction xs) (simp_all add: json_int_def parse_format_int)
  then show ?thesis
    by (simp add: read_ints_def write_ints_def)
qed

text \<open>Text is valid UTF-8, integers have 64 bits, and an empty list of days is a nil one.\<close>

definition storable_input :: "schedule_input \<Rightarrow> bool" where
  "storable_input i \<longleftrightarrow>
     list_all valid_utf8 [si_kind i, si_action i, si_time i, si_zone i, si_date i] \<and>
     si_days i \<noteq> Some [] \<and> list_all int64 (slice (si_days i)) \<and>
     (case si_announce i of Some (Some ls) \<Rightarrow> list_all int64 ls | _ \<Rightarrow> True)"

lemma read_announce_member:
  "(case v of Some (Some ls) \<Rightarrow> list_all int64 ls | _ \<Rightarrow> True) \<Longrightarrow> si_announce i = None \<Longrightarrow>
     read_input_members (opt_member ''announcements'' announce_json v) i = Some (i\<lparr>si_announce := v\<rparr>)"
proof -
  assume v: "case v of Some (Some ls) \<Rightarrow> list_all int64 ls | _ \<Rightarrow> True" and i: "si_announce i = None"
  consider "v = None" | "v = Some None" | ls where "v = Some (Some ls)"
    by (metis option.exhaust)
  then show ?thesis
  proof cases
    case 3
    then show ?thesis
      using v i by (simp add: opt_member_def read_member_def input_names read_announce_def announce_json_def read_write_ints)
  qed (use i in \<open>simp_all add: opt_member_def read_member_def input_names read_announce_def announce_json_def read_ints_def\<close>)
qed

lemma read_input_append:
  "read_input_members (xs @ ys) i = (case read_input_members xs i of None \<Rightarrow> None | Some i' \<Rightarrow> read_input_members ys i')"
  by (induction xs arbitrary: i) (auto split: option.splits)

lemma read_days_member:
  "ds \<noteq> Some [] \<Longrightarrow> list_all int64 (slice ds) \<Longrightarrow> si_days i = None \<Longrightarrow>
     read_input_members (if slice ds = [] then [] else [(''days'', write_ints (slice ds))]) i = Some (i\<lparr>si_days := ds\<rparr>)"
  by (cases ds) (auto simp: slice_def read_member_def input_names read_write_ints)

lemma read_date_member:
  "si_date i = [] \<Longrightarrow> read_input_members (text_member ''date'' v) i = Some (i\<lparr>si_date := v\<rparr>)"
  by (simp add: text_member_def read_member_def input_names read_text_def)

lemma read_input_members_write:
  assumes "storable_input i"
  shows "read_input_members (input_members i) (no_input\<lparr>si_enabled := True\<rparr>) = Some i"
proof -
  note m = read_member_def input_names read_text_def read_flag_def no_input_def
  let ?a = "no_input\<lparr>si_enabled := True, si_kind := si_kind i, si_action := si_action i\<rparr>"
  let ?b = "?a\<lparr>si_announce := si_announce i\<rparr>"
  let ?c = "?b\<lparr>si_backup := si_backup i, si_enabled := si_enabled i, si_time := si_time i, si_zone := si_zone i\<rparr>"
  have "read_input_members [(''kind'', JStr (si_kind i)), (''action'', JStr (si_action i))] (no_input\<lparr>si_enabled := True\<rparr>) = Some ?a"
    by (simp add: m)
  moreover have "read_input_members (opt_member ''announcements'' announce_json (si_announce i)) ?a = Some ?b"
    using assms by (intro read_announce_member) (simp_all add: storable_input_def no_input_def)
  moreover have "read_input_members [(''createBackup'', JBool (si_backup i)), (''enabled'', JBool (si_enabled i)),
      (''time'', JStr (si_time i)), (''timezone'', JStr (si_zone i))] ?b = Some ?c"
    by (simp add: m)
  moreover have "read_input_members (if slice (si_days i) = [] then [] else [(''days'', write_ints (slice (si_days i)))]) ?c =
      Some (?c\<lparr>si_days := si_days i\<rparr>)"
    using assms by (intro read_days_member) (simp_all add: storable_input_def no_input_def)
  moreover have "read_input_members (text_member ''date'' (si_date i)) (?c\<lparr>si_days := si_days i\<rparr>) =
      Some (?c\<lparr>si_days := si_days i, si_date := si_date i\<rparr>)"
    by (intro read_date_member) (simp add: no_input_def)
  ultimately have "read_input_members (input_members i) (no_input\<lparr>si_enabled := True\<rparr>) =
      Some (?c\<lparr>si_days := si_days i, si_date := si_date i\<rparr>)"
    unfolding input_members_def by (simp only: read_input_append option.case)
  then show ?thesis by (simp add: no_input_def)
qed

lemma canonical_ints: "list_all int64 xs \<Longrightarrow> canonical (Suc n) (write_ints xs)"
  by (induction xs) (simp_all add: write_ints_def)

lemma input_members_canonical: "storable_input i \<Longrightarrow> canonical max_depth (JObj (input_members i))"
proof -
  assume i: "storable_input i"
  have n: "valid_utf8 ''kind''" "valid_utf8 ''action''" "valid_utf8 ''announcements''" "valid_utf8 ''createBackup''"
    "valid_utf8 ''enabled''" "valid_utf8 ''time''" "valid_utf8 ''timezone''" "valid_utf8 ''days''" "valid_utf8 ''date''"
    "valid_utf8 ''leadMinutes''"
    by (rule plain_valid_utf8, simp add: plain_def plain_char_def byte_def quote_def backslash_def)+
  have d: "9999 = Suc (Suc (9997::nat))" "max_depth - 1 = (9999::nat)"
    by (simp_all add: max_depth_def)
  have a: "canonical 9999 (announce_json v)" if "case v of Some ls \<Rightarrow> list_all int64 ls | None \<Rightarrow> True" for v
  proof -
    have "canonical (Suc (Suc k)) (announce_json v)" for k
      using that n by (cases v) (simp_all add: announce_json_def canonical_ints)
    then show ?thesis unfolding d(1) .
  qed
  have w: "list_all int64 xs \<Longrightarrow> canonical 9999 (write_ints xs)" for xs
    unfolding d(1) by (rule canonical_ints)
  have t: "canonical 9999 (JStr x) = valid_utf8 x" "canonical 9999 (JBool b)" for x b
    unfolding d(1) by simp_all
  have "list_all member_ok (input_members i)"
    unfolding input_members_def list_all_append member_ok_def d(2)
    using i n a w t
    by (auto simp: storable_input_def opt_member_def text_member_def split: option.splits)
  then show ?thesis
    by (auto simp: list_all_iff member_ok_def max_depth_def)
qed

lemma decode_write_input: "storable_input i \<Longrightarrow> decode_input (write_input i) = Some i"
proof -
  assume i: "storable_input i"
  let ?x = "JObj (input_members i)"
  have c: "canonical max_depth ?x"
    using input_members_canonical [OF i] .
  have "parse_value (2 * length (write_json ?x) + 2) max_depth (write_json ?x) = Some (?x, [])"
    using canonical_reads_back [OF c, unfolded reads_back_def, rule_format, of "2 * length (write_json ?x) + 2" "[]"] by simp
  then have "first_json (write_json ?x) = Some ?x"
    unfolding first_json_def fix_utf8_valid [OF canonical_valid [OF c]] by simp
  then show ?thesis
    using read_input_members_write [OF i] by (simp add: decode_input_def write_input_def del: write_json.simps)
qed

end
