(* ===== verification/Schedules.thy ===== *)
theory Schedules
  imports ScheduleInput Jobs
begin

text \<open>
  Stored schedules and their runs, \<open>src/internal/schedules/schedules.go\<close>. What other requests do
  is a parameter: \<open>y_between\<close> runs after the authority state is read and before access is checked,
  \<open>y_others\<close> after the check and before the transaction that acts on it. So are the clock, new identifiers, the digest of request keys and the time zone database. Sending a warning to a
  console is left to the caller.
\<close>

record schedule_env =
  y_tz :: tzdb
  y_now :: int
  y_id :: string
  y_job :: string
  y_digest :: "string \<Rightarrow> string"
  y_between :: "unit db_op"
  y_others :: "unit db_op"

section \<open>Reasons\<close>

abbreviation owner_missing :: string where "owner_missing \<equiv> ''owner_missing''"
abbreviation owner_disabled :: string where "owner_disabled \<equiv> ''owner_disabled''"
abbreviation owner_access_removed :: string where "owner_access_removed \<equiv> ''owner_access_removed''"
abbreviation action_access_removed :: string where "action_access_removed \<equiv> ''action_access_removed''"
abbreviation binding_changed :: string where "binding_changed \<equiv> ''binding_changed''"
abbreviation binding_unavailable :: string where "binding_unavailable \<equiv> ''binding_unavailable''"
abbreviation unavailable :: string where "unavailable \<equiv> ''unavailable''"

abbreviation schedules_manage :: capability where "schedules_manage \<equiv> ''schedules.manage''"
abbreviation console_execute :: capability where "console_execute \<equiv> ''console.execute''"

definition unavailable_message :: "string \<Rightarrow> string" where
  "unavailable_message reason =
     (if reason = owner_missing then ''Suspended: the schedule owner no longer exists''
      else if reason = owner_disabled then ''Suspended: the schedule owner's account is disabled''
      else if reason = owner_access_removed then ''Suspended: required access to manage schedules has been removed''
      else if reason = action_access_removed then ''Suspended: required access for this scheduled action has been removed''
      else if reason = binding_changed
        then ''Suspended: server configuration changed; recreate this schedule after reviewing the server''
      else if reason = binding_unavailable
        then ''Suspended: the server binding is unavailable or requires administrator review''
      else ''Suspended: this schedule cannot currently run; review the server and schedule'')"

definition missed_message :: "bool \<Rightarrow> string" where
  "missed_message nonexistent =
     (if nonexistent then ''Missed: the scheduled local time doesn't exist in its time zone''
      else ''Missed: Ludock was not running at the scheduled time'')"

text \<open>The errors that may cross the HTTP boundary.\<close>

definition public_error :: "db_error \<Rightarrow> bool" where
  "public_error e =
     (case e of PublicError _ _ \<Rightarrow> True | TooMany _ \<Rightarrow> True | Suspended _ \<Rightarrow> True | ScheduleMissed _ \<Rightarrow> True | _ \<Rightarrow> False)"

section \<open>Authority\<close>

definition original_fingerprint :: "string \<Rightarrow> int \<Rightarrow> database \<Rightarrow> string" where
  "original_fingerprint server revision d =
     (case filter (\<lambda>b. b_server b = server \<and> b_revision b = revision \<and> b_accepted b = 1) (bindings d) of
        [] \<Rightarrow> []
      | bs \<Rightarrow> b_fingerprint (last (sort_key b_id bs)))"

definition missing_reason :: "capability \<Rightarrow> db_error" where
  "missing_reason c = Suspended (if c = schedules_manage then owner_access_removed else action_access_removed)"

fun has_all :: "session_user \<Rightarrow> string \<Rightarrow> capability list \<Rightarrow> unit db_op" where
  "has_all actor server [] = done_with ()"
| "has_all actor server (c # cs) =
     and_then (has (Some actor) server c) (\<lambda>ok.
     and_then (check_that ok (missing_reason c)) (\<lambda>_. has_all actor server cs))"

text \<open>The owner's grant, looked at before the binding so that a suspended binding is not reported as a removed grant.\<close>

definition grant_covers :: "user_row \<Rightarrow> string \<Rightarrow> schedule_input \<Rightarrow> unit db_op" where
  "grant_covers u server i =
     (if u_role u = ''admin'' then done_with ()
      else and_then (reads (user_grant (u_id u) server)) (\<lambda>g.
        and_then (check_that (u_role u = ''operator'' \<and>
            (case g of None \<Rightarrow> False | Some g \<Rightarrow> server_view \<in> set (gr_caps g) \<and> schedules_manage \<in> set (gr_caps g)))
          (Suspended owner_access_removed)) (\<lambda>_.
        check_that (case g of None \<Rightarrow> False | Some g \<Rightarrow> set (input_capabilities i) \<subseteq> set (gr_caps g))
          (Suspended action_access_removed))))"

definition authority :: "schedule_row \<Rightarrow> schedule_input \<Rightarrow> (session_user \<times> server) db_op" where
  "authority r i =
     and_then (reads (find_user_by_id (c_owner r))) (\<lambda>user.
     (case user of
        None \<Rightarrow> fail_with (Suspended owner_missing)
      | Some u \<Rightarrow>
          and_then (check_that (\<not> user_disabled u) (Suspended owner_disabled)) (\<lambda>_.
          and_then (grant_covers u (c_server r) i) (\<lambda>_.
          and_then (get_server (c_server r)) (\<lambda>logical.
          (case logical of
             None \<Rightarrow> fail_with (Suspended binding_unavailable)
           | Some s \<Rightarrow>
               and_then (reads (original_fingerprint (c_server r) (c_binding r))) (\<lambda>original.
               and_then (check_that (original \<noteq> [] \<and> original = sv_fingerprint s) (Suspended binding_changed)) (\<lambda>_.
               and_then (map_failure (\<lambda>e. if public_error e then Suspended binding_unavailable else e)
                 (resolve_binding (c_server r) (-1))) (\<lambda>binding.
               (let actor = \<lparr>su_id = u_id u, su_name = u_name u, su_role = u_role u\<rparr>
                in and_then (has_all actor (c_server r) (schedules_manage # input_capabilities i)) (\<lambda>_.
                   done_with (actor, binding))))))))))))"

section \<open>The authority state\<close>

text \<open>
  Every row the checks depend on: role, status and grant of each user, and the server's binding. The
  source compares these as JSON text.
\<close>

type_synonym authority_token =
  "(string \<times> int \<times> string option) option list \<times> (string \<times> int \<times> int \<times> string option \<times> string option)"

definition user_state :: "string \<Rightarrow> database \<Rightarrow> string \<Rightarrow> (string \<times> int \<times> string option) option" where
  "user_state server d i =
     map_option (\<lambda>u. (u_role u, u_disabled u, map_option g_caps (find_grant (u_id u) server d))) (find_user_by_id i d)"

definition server_state :: "string \<Rightarrow> database \<Rightarrow> string \<times> int \<times> int \<times> string option \<times> string option" where
  "server_state server d =
     (case find (\<lambda>r. v_id r = server) (servers d) of
        None \<Rightarrow> ([], 0, 0, None, None)
      | Some v \<Rightarrow> (v_status v, v_review v, v_revision v, Some (v_fingerprint v), v_container v))"

definition authority_state :: "string \<Rightarrow> string list \<Rightarrow> database \<Rightarrow> authority_token" where
  "authority_state server us d = (map (user_state server d) us, server_state server d)"

definition access_changed :: db_error where
  "access_changed = PublicError ''SCHEDULE_ACCESS_CHANGED'' 409"

definition assert_unchanged :: "authority_token \<Rightarrow> string \<Rightarrow> string list \<Rightarrow> unit db_op" where
  "assert_unchanged before server us =
     and_then (reads (authority_state server us)) (\<lambda>after. check_that (after = before) access_changed)"

section \<open>Views\<close>

record schedule_view =
  w_input :: schedule_input
  w_id :: string
  w_server :: string
  w_owner :: string
  w_result :: string
  w_operation :: "job option"
  w_run_at :: int
  w_slot_done :: string
  w_revision :: int
  w_next_run :: int
  w_reason :: string
  w_completed :: int

definition completed :: "schedule_row \<Rightarrow> schedule_input \<Rightarrow> bool" where
  "completed r i \<longleftrightarrow> si_kind i = ''once'' \<and> null_string (c_slot r) = one_time_slot (clock_of i)"

definition assert_run_ahead :: "tzdb \<Rightarrow> schedule_input \<Rightarrow> int \<Rightarrow> unit db_op" where
  "assert_run_ahead tz i now =
     (if si_kind i \<noteq> ''once'' then done_with ()
      else
        (case one_time_run tz (clock_of i) of
           None \<Rightarrow> fail_with (PublicError ''SCHEDULE_TIME_INVALID'' 400)
         | Some at \<Rightarrow> check_that (\<not> at < now div minute * minute) (PublicError ''SCHEDULE_TIME_PAST'' 400)))"

definition latest_operation :: "schedule_row \<Rightarrow> database \<Rightarrow> job option" where
  "latest_operation r d =
     (case c_operation r of
        None \<Rightarrow> None
      | Some i \<Rightarrow>
          (case get_job i d of
             Inr (Some j) \<Rightarrow>
               if j_server j = c_server r \<and> j_actor j = c_owner r \<and> member ''scheduleId'' (j_input j) = Some (JStr (c_id r))
               then Some j else None
           | _ \<Rightarrow> None))"

definition run_or_zero :: "schedule_row \<Rightarrow> int" where
  "run_or_zero r = (case c_run_at r of None \<Rightarrow> 0 | Some t \<Rightarrow> t)"

text \<open>The outcome of the authority check, and what it says about the next run.\<close>

definition next_of :: "schedule_env \<Rightarrow> schedule_row \<Rightarrow> schedule_input \<Rightarrow> db_error option \<Rightarrow> int \<times> string" where
  "next_of env r i outcome =
     (case outcome of
        Some (Suspended reason) \<Rightarrow> (0, reason)
      | Some _ \<Rightarrow> (0, unavailable)
      | None \<Rightarrow>
          (case next_run (y_tz env) (clock_of i) (y_now env) (null_string (c_slot r)) of
             Some t \<Rightarrow> (t, [])
           | None \<Rightarrow> (0, unavailable)))"

definition check_authority :: "schedule_row \<Rightarrow> schedule_input \<Rightarrow> database \<Rightarrow> db_error option" where
  "check_authority r i d = (case authority r i d of (_, Inl e) \<Rightarrow> Some e | (_, Inr _) \<Rightarrow> None)"

definition view_of :: "schedule_env \<Rightarrow> schedule_row \<Rightarrow> schedule_input \<Rightarrow> database \<Rightarrow> schedule_view" where
  "view_of env r i d =
     (let ended = completed r i;
          (run, reason) = (if si_enabled i \<and> \<not> ended then next_of env r i (check_authority r i d) else (0, []))
      in \<lparr>w_input = i, w_id = c_id r, w_server = c_server r, w_owner = c_owner r, w_result = null_string (c_result r),
          w_operation = latest_operation r d, w_run_at = run_or_zero r, w_slot_done = null_string (c_slot r),
          w_revision = c_revision r, w_next_run = run, w_reason = reason,
          w_completed = (if ended then run_or_zero r else 0)\<rparr>)"

definition public_view :: "schedule_env \<Rightarrow> schedule_row \<Rightarrow> schedule_view db_op" where
  "public_view env r =
     and_then (results (parse_saved (y_tz env) (c_input r))) (\<lambda>i. reads (view_of env r i))"

section \<open>Management\<close>

definition max_payload :: nat where "max_payload = 4096"
definition max_per_server :: nat where "max_per_server = 100"
definition max_total :: nat where "max_total = 1000"

definition manager :: "int \<Rightarrow> session_user option \<Rightarrow> string \<Rightarrow> bool \<Rightarrow> session_user db_op" where
  "manager now actor server allow =
     and_then (current_actor actor) (\<lambda>current.
     and_then (assert_capability now actor server
         (if allow \<and> (case current of None \<Rightarrow> False | Some a \<Rightarrow> su_role a = ''admin'') then server_view else schedules_manage)) (\<lambda>_.
     (case current of None \<Rightarrow> fail_with server_not_found | Some a \<Rightarrow> done_with a)))"

text \<open>Rows of a listing: a damaged row is listed so that it can be removed.\<close>

definition damaged_view :: "schedule_row \<Rightarrow> schedule_view" where
  "damaged_view r =
     \<lparr>w_input = no_input, w_id = c_id r, w_server = c_server r, w_owner = c_owner r, w_result = null_string (c_result r),
      w_operation = None, w_run_at = 0, w_slot_done = [], w_revision = c_revision r, w_next_run = 0, w_reason = unavailable,
      w_completed = 0\<rparr>"

definition list_schedules :: "schedule_env \<Rightarrow> session_user option \<Rightarrow> string \<Rightarrow> schedule_view list db_op" where
  "list_schedules env actor server =
     and_then (manager (y_now env) actor server True) (\<lambda>current.
     reads (\<lambda>d. map (\<lambda>r. case parse_saved (y_tz env) (c_input r) of Inl _ \<Rightarrow> damaged_view r | Inr i \<Rightarrow> view_of env r i d)
       (take max_per_server (sort_key (\<lambda>r. (c_created r, c_id r))
         (filter (\<lambda>r. c_server r = server \<and> (su_role current = ''admin'' \<or> c_owner r = su_id current)) (schedules d))))))"

definition find_schedule :: "string \<Rightarrow> string \<Rightarrow> database \<Rightarrow> schedule_row option" where
  "find_schedule i server d = find (\<lambda>r. c_id r = i \<and> c_server r = server) (schedules d)"

definition payload_size :: "schedule_input \<Rightarrow> unit db_op" where
  "payload_size i = check_that (length (write_input i) \<le> max_payload) (PublicError ''SCHEDULE_PAYLOAD_TOO_LARGE'' 413)"

text \<open>Each of the capabilities, in order; the first that is missing is audited.\<close>

fun assert_all :: "int \<Rightarrow> session_user option \<Rightarrow> string \<Rightarrow> capability list \<Rightarrow> unit db_op" where
  "assert_all now actor server [] = done_with ()"
| "assert_all now actor server (c # cs) =
     and_then (assert_capability now actor server c) (\<lambda>_. assert_all now actor server cs)"

definition limit_reached :: db_error where
  "limit_reached = PublicError ''SCHEDULE_LIMIT_REACHED'' 409"

definition not_found :: db_error where
  "not_found = PublicError ''NOT_FOUND'' 404"

text \<open>INSERT INTO schedules: the primary key and both references.\<close>

definition insert_schedule :: "schedule_row \<Rightarrow> unit db_op" where
  "insert_schedule r d =
     (if \<exists>q \<in> set (schedules d). c_id q = c_id r then (d, Inl UniqueViolation)
      else if \<not> user_exists d (c_owner r) \<or> \<not> (\<exists>s \<in> set (servers d). v_id s = c_server r) then (d, Inl ConstraintViolation)
      else (d\<lparr>schedules := schedules d @ [r]\<rparr>, Inr ()))"

definition schedule_audit :: "string \<Rightarrow> string \<Rightarrow> string \<Rightarrow> members \<Rightarrow> audit_entry" where
  "schedule_audit user action server details =
     \<lparr>e_user = user, e_action = action, e_type = ''server'', e_target = server, e_details = Some (JObj details), e_ip = []\<rparr>"

definition new_schedule :: "schedule_env \<Rightarrow> string \<Rightarrow> string \<Rightarrow> schedule_input \<Rightarrow> int \<Rightarrow> schedule_row" where
  "new_schedule env owner server i revision =
     \<lparr>c_id = y_id env, c_server = server, c_owner = owner, c_input = write_input i, c_binding = revision, c_slot = None,
      c_result = None, c_created = y_now env, c_revision = 1, c_operation = None, c_run_at = None\<rparr>"

definition plant_schedule :: "schedule_env \<Rightarrow> authority_token \<Rightarrow> session_user \<Rightarrow> string \<Rightarrow> schedule_input \<Rightarrow> int \<Rightarrow> unit db_op" where
  "plant_schedule env state actor server i revision =
     tx (and_then (assert_unchanged state server [su_id actor]) (\<lambda>_.
         and_then (reads (\<lambda>d. max_total \<le> length (schedules d))) (\<lambda>full.
         and_then (check_that (\<not> full) limit_reached) (\<lambda>_.
         and_then (reads (\<lambda>d. length (filter (\<lambda>r. c_server r = server) (schedules d)))) (\<lambda>n.
         and_then (check_that (n < max_per_server) limit_reached) (\<lambda>_.
         and_then (insert_schedule (new_schedule env (su_id actor) server i revision)) (\<lambda>_.
         write_audit (y_now env) True (schedule_audit (su_id actor) ''schedule.created'' server
           [(''action'', JStr (si_action i)), (''scheduleId'', JStr (y_id env))]))))))))"

definition create_schedule :: "schedule_env \<Rightarrow> session_user \<Rightarrow> string \<Rightarrow> schedule_input \<Rightarrow> schedule_view db_op" where
  "create_schedule env actor server given =
     and_then (payload_size given) (\<lambda>_.
     and_then (results (validate (y_tz env) given)) (\<lambda>i.
     and_then (reads (authority_state server [su_id actor])) (\<lambda>state.
     and_then (y_between env) (\<lambda>_.
     and_then (assert_all (y_now env) (Some actor) server (schedules_manage # edit_capabilities i)) (\<lambda>_.
     and_then (assert_run_ahead (y_tz env) i (y_now env)) (\<lambda>_.
     and_then (resolve_binding server (-1)) (\<lambda>binding.
     and_then (authority (new_schedule env (su_id actor) server i (sv_revision binding)) i) (\<lambda>_.
     and_then (y_others env) (\<lambda>_.
     and_then (plant_schedule env state actor server i (sv_revision binding)) (\<lambda>_.
     and_then prune_audit_if_needed (\<lambda>_.
     and_then (reads (find_schedule (y_id env) server)) (\<lambda>row.
     (case row of None \<Rightarrow> fail_with not_found | Some r \<Rightarrow> public_view env r)))))))))))))"

text \<open>DELETE FROM schedules: the claimed warnings cascade.\<close>

definition remove_schedule :: "string \<Rightarrow> unit db_op" where
  "remove_schedule i = writes (\<lambda>d. d\<lparr>schedules := filter (\<lambda>r. c_id r \<noteq> i) (schedules d),
     announcements := filter (\<lambda>w. w_schedule w \<noteq> i) (announcements d)\<rparr>)"

definition delete_schedule :: "schedule_env \<Rightarrow> session_user \<Rightarrow> string \<Rightarrow> string \<Rightarrow> unit db_op" where
  "delete_schedule env actor server i =
     and_then (reads (authority_state server [su_id actor])) (\<lambda>state.
     and_then (y_between env) (\<lambda>_.
     and_then (manager (y_now env) (Some actor) server True) (\<lambda>current.
     and_then (y_others env) (\<lambda>_.
     tx (and_then (assert_unchanged state server [su_id actor]) (\<lambda>_.
         and_then (reads (find_schedule i server)) (\<lambda>row.
         and_then (check_that (case row of None \<Rightarrow> False | Some r \<Rightarrow> su_role current = ''admin'' \<or> c_owner r = su_id current)
           not_found) (\<lambda>_.
         and_then (remove_schedule i) (\<lambda>_.
         write_audit (y_now env) True
           (schedule_audit (su_id actor) ''schedule.deleted'' server [(''scheduleId'', JStr i)]))))))))))"

section \<open>Changing a schedule\<close>

datatype change = Settings schedule_input | Enable bool

definition next_input :: "tzdb \<Rightarrow> change \<Rightarrow> schedule_row \<Rightarrow> db_error + schedule_input \<times> schedule_input" where
  "next_input tz ch r =
     (case (parse_saved tz (c_input r), ch) of
        (Inr previous, Enable b) \<Rightarrow> Inr (previous, previous\<lparr>si_enabled := b\<rparr>)
      | (Inl _, Enable _) \<Rightarrow> Inl (PublicError ''INVALID_SCHEDULE'' 409)
      | (Inr previous, Settings i) \<Rightarrow> Inr (previous, i)
      | (Inl _, Settings i) \<Rightarrow> Inr (no_input, i))"

definition check_row :: "session_user \<Rightarrow> int \<Rightarrow> schedule_row option \<Rightarrow> schedule_row db_op" where
  "check_row current expected row =
     (case row of
        None \<Rightarrow> fail_with not_found
      | Some r \<Rightarrow>
          if su_role current \<noteq> ''admin'' \<and> c_owner r \<noteq> su_id current then fail_with not_found
          else if c_revision r \<noteq> expected then fail_with (PublicError ''SCHEDULE_CHANGED'' 409)
          else done_with r)"

definition update_schedules :: "(schedule_row \<Rightarrow> bool) \<Rightarrow> (schedule_row \<Rightarrow> schedule_row) \<Rightarrow> nat db_op" where
  "update_schedules p f d =
     (d\<lparr>schedules := map (\<lambda>r. if p r then f r else r) (schedules d)\<rparr>, Inr (length (filter p (schedules d))))"

definition change_action :: "change \<Rightarrow> string" where
  "change_action ch = (case ch of Settings _ \<Rightarrow> ''schedule.updated'' | Enable b \<Rightarrow> if b then ''schedule.resumed'' else ''schedule.paused'')"

text \<open>The transaction of \<open>mutate\<close>: the row as it is now, and whether it changed.\<close>

definition store_change ::
    "schedule_env \<Rightarrow> authority_token \<Rightarrow> string list \<Rightarrow> session_user \<Rightarrow> string \<Rightarrow> string \<Rightarrow> int \<Rightarrow> change \<Rightarrow> (schedule_row \<times> bool) db_op" where
  "store_change env state us current server i expected ch =
     tx (and_then (reads (find_schedule i server)) (\<lambda>row.
         and_then (check_row current expected row) (\<lambda>r.
         and_then (assert_unchanged state server us) (\<lambda>_.
         and_then (results (next_input (y_tz env) ch r)) (\<lambda>(previous, i').
         and_then (if ch = Enable False then done_with () else assert_run_ahead (y_tz env) i' (y_now env)) (\<lambda>_.
         if input_key previous = input_key i' then done_with (r, False)
         else
           (let r' = r\<lparr>c_input := write_input i', c_revision := c_revision r + 1\<rparr>
            in and_then (update_schedules (\<lambda>q. c_id q = i) (\<lambda>q. q\<lparr>c_input := write_input i', c_revision := c_revision q + 1\<rparr>)) (\<lambda>_.
               and_then (write_audit (y_now env) True (schedule_audit (su_id current) (change_action ch) server
                 [(''action'', JStr (si_action i')), (''revision'', json_int (c_revision r')), (''scheduleId'', JStr i)])) (\<lambda>_.
               done_with (r', True))))))))))"

definition mutate_schedule :: "schedule_env \<Rightarrow> session_user \<Rightarrow> string \<Rightarrow> string \<Rightarrow> int \<Rightarrow> change \<Rightarrow> schedule_view db_op" where
  "mutate_schedule env actor server i expected ch =
     and_then (reads (find_schedule i server)) (\<lambda>first.
     (let us = su_id actor # (case first of None \<Rightarrow> [] | Some r \<Rightarrow> [c_owner r]); pausing = (ch = Enable False)
      in and_then (reads (authority_state server us)) (\<lambda>state.
         and_then (y_between env) (\<lambda>_.
         and_then (manager (y_now env) (Some actor) server pausing) (\<lambda>current.
         and_then (check_row current expected first) (\<lambda>r.
         and_then (if pausing then done_with ()
                   else and_then (results (next_input (y_tz env) ch r)) (\<lambda>(_, i').
                        and_then (assert_all (y_now env) (Some actor) server (edit_capabilities i')) (\<lambda>_.
                        and_then (authority r i') (\<lambda>_. done_with ())))) (\<lambda>_.
         and_then (y_others env) (\<lambda>_.
         and_then (store_change env state us current server i expected ch) (\<lambda>(r', changed).
         and_then (if changed then prune_audit_if_needed else done_with ()) (\<lambda>_.
         public_view env r'))))))))))"

definition update_schedule :: "schedule_env \<Rightarrow> session_user \<Rightarrow> string \<Rightarrow> string \<Rightarrow> int \<Rightarrow> schedule_input \<Rightarrow> schedule_view db_op" where
  "update_schedule env actor server i revision given =
     and_then (payload_size given) (\<lambda>_.
     and_then (results (validate (y_tz env) given)) (\<lambda>v. mutate_schedule env actor server i revision (Settings v)))"

definition set_schedule_enabled :: "schedule_env \<Rightarrow> session_user \<Rightarrow> string \<Rightarrow> string \<Rightarrow> int \<Rightarrow> bool \<Rightarrow> schedule_view db_op" where
  "set_schedule_enabled env actor server i revision b = mutate_schedule env actor server i revision (Enable b)"

section \<open>Runs\<close>

text \<open>What a schedule calls for at a time, before its authority is looked at.\<close>

datatype plan =
    Nothing
  | Refused string bool db_error
  | Attempt string schedule_input

definition plan_of :: "tzdb \<Rightarrow> schedule_row \<Rightarrow> int \<Rightarrow> plan" where
  "plan_of tz r now =
     (case parse_saved tz (c_input r) of
        Inl e \<Rightarrow> Refused [] False e
      | Inr i \<Rightarrow>
          if \<not> si_enabled i \<or> completed r i then Nothing
          else
            (let c = clock_of i; s = slot tz c now
             in if si_kind i = ''once'' \<and> s = [] then
                  (case one_time_run tz c of
                     Some at \<Rightarrow>
                       if now < at + one_time_grace then Nothing else Refused (one_time_slot c) True (ScheduleMissed False)
                   | None \<Rightarrow> Refused (one_time_slot c) True (ScheduleMissed True))
                else if s = [] \<or> s = null_string (c_slot r) then Nothing
                else Attempt s i))"

definition run_request :: "schedule_row \<Rightarrow> schedule_input \<Rightarrow> string \<Rightarrow> session_user \<Rightarrow> server \<Rightarrow> enqueue_options" where
  "run_request r i s user binding =
     \<lparr>q_server = c_server r, q_actor = su_id user, q_kind = si_action i, q_binding = sv_revision binding,
      q_input = (if si_backup i then [(''createBackup'', JBool True)] else []) @
        [(''scheduleId'', JStr (c_id r)), (''scheduleRevision'', json_int (c_revision r))],
      q_key = ''schedule:'' @ c_id r @ '':'' @ s\<rparr>"

text \<open>Queue the operation and tie it to the schedule, together or not at all.\<close>

definition queue_run ::
    "schedule_env \<Rightarrow> authority_token \<Rightarrow> schedule_row \<Rightarrow> schedule_input \<Rightarrow> string \<Rightarrow> int \<Rightarrow> session_user \<Rightarrow> server \<Rightarrow> job db_op" where
  "queue_run env state r i s now user binding =
     tx (and_then (assert_unchanged state (c_server r) [c_owner r]) (\<lambda>_.
         and_then (enqueue_in (y_digest env) (y_job env) (y_now env) (run_request r i s user binding)) (\<lambda>j.
         and_then (update_schedules (\<lambda>q. c_id q = c_id r \<and> c_revision q = c_revision r)
           (\<lambda>q. q\<lparr>c_slot := Some s, c_run_at := Some now, c_operation := Some (j_id j),
                  c_result := Some (''Queued operation '' @ j_id j)\<rparr>)) (\<lambda>n.
         and_then (check_that (n \<noteq> 0) ScheduleChanged) (\<lambda>_. done_with j)))))"

definition attempt_run :: "schedule_env \<Rightarrow> schedule_row \<Rightarrow> schedule_input \<Rightarrow> string \<Rightarrow> int \<Rightarrow> job db_op" where
  "attempt_run env r i s now =
     and_then (reads (authority_state (c_server r) [c_owner r])) (\<lambda>state.
     and_then (y_between env) (\<lambda>_.
     and_then (authority r i) (\<lambda>(user, binding).
     and_then (y_others env) (\<lambda>_.
     and_then (queue_run env state r i s now user binding) (\<lambda>j.
     and_then prune_audit_if_needed (\<lambda>_. done_with j))))))"

text \<open>The databases the authority check reads and the transaction begins on.\<close>

definition at_check :: "schedule_env \<Rightarrow> database \<Rightarrow> database" where
  "at_check env d = fst (y_between env d)"

definition at_commit :: "schedule_env \<Rightarrow> database \<Rightarrow> database" where
  "at_commit env d = fst (y_others env (at_check env d))"

text \<open>Why a run is recorded as skipped, or \<open>None\<close> where the next check decides again.\<close>

definition refusal_reason :: "bool \<Rightarrow> db_error \<Rightarrow> string option" where
  "refusal_reason valid e =
     (if e = ScheduleChanged \<or> e = access_changed then None
      else if \<not> valid then Some ''Suspended: saved schedule configuration is invalid; recreate this schedule''
      else
        (case e of
           Suspended reason \<Rightarrow> Some (unavailable_message reason)
         | ScheduleMissed nonexistent \<Rightarrow> Some (missed_message nonexistent)
         | _ \<Rightarrow> if public_error e then Some ''Skipped: server state or a conflicting operation prevented this run'' else None))"

text \<open>The key of the notification, if the refusal was recorded.\<close>

definition record_refusal :: "schedule_row \<Rightarrow> string \<Rightarrow> bool \<Rightarrow> int \<Rightarrow> db_error \<Rightarrow> string option db_op" where
  "record_refusal r s valid now e =
     (case refusal_reason valid e of
        None \<Rightarrow> done_with None
      | Some reason \<Rightarrow>
          and_then (update_schedules (\<lambda>q. c_id q = c_id r \<and> c_revision q = c_revision r)
            (\<lambda>q. if s = [] then q\<lparr>c_result := Some reason\<rparr>
                 else q\<lparr>c_slot := Some s, c_run_at := Some now, c_operation := None, c_result := Some reason\<rparr>)) (\<lambda>n.
          done_with (if n = 0 then None else Some (''schedule:'' @ c_id r @ '':'' @ (if s = [] then ''invalid'' else s)))))"

definition run_one :: "schedule_env \<Rightarrow> schedule_row \<Rightarrow> int \<Rightarrow> string option db_op" where
  "run_one env r now d =
     (case plan_of (y_tz env) r now of
        Nothing \<Rightarrow> (d, Inr None)
      | Refused s valid e \<Rightarrow> record_refusal r s valid now e d
      | Attempt s i \<Rightarrow>
          (case attempt_run env r i s now d of
             (d', Inr _) \<Rightarrow> (d', Inr None)
           | (d', Inl e) \<Rightarrow> record_refusal r s True now e d'))"

text \<open>\<open>Run\<close>: every schedule as it was read, up to the limit; the keys of the notifications.\<close>

fun run_each :: "(schedule_row \<Rightarrow> string option db_op) \<Rightarrow> schedule_row list \<Rightarrow> database \<Rightarrow> database \<times> string list" where
  "run_each f [] d = (d, [])"
| "run_each f (r # rs) d =
     (case f r d of
        (d', Inr (Some k)) \<Rightarrow> (case run_each f rs d' of (d'', ks) \<Rightarrow> (d'', k # ks))
      | (d', _) \<Rightarrow> run_each f rs d')"

definition run_schedules :: "schedule_env \<Rightarrow> int \<Rightarrow> database \<Rightarrow> database \<times> string list" where
  "run_schedules env now d = run_each (\<lambda>r. run_one env r now) (take max_total (schedules d)) d"

section \<open>Warnings\<close>

text \<open>INSERT OR IGNORE ... SELECT, then the claims of slots that have passed are removed.\<close>

definition claim_announcement :: "schedule_row \<Rightarrow> string \<Rightarrow> int \<Rightarrow> int \<Rightarrow> bool db_op" where
  "claim_announcement r s lead now d =
     (let w = \<lparr>w_schedule = c_id r, w_slot = s, w_lead = lead\<rparr>;
          spent = format_date ((now - 2 * day_ms) div day_ms)
      in if w \<in> set (announcements d) \<or> \<not> (\<exists>q \<in> set (schedules d). c_id q = c_id r \<and> c_revision q = c_revision r)
         then (d, Inr False)
         else (d\<lparr>announcements := filter (\<lambda>v. \<not> (w_schedule v = c_id r \<and> take 10 (w_slot v) < spent))
                  (announcements d @ [w])\<rparr>, Inr True))"

definition announce_cutoff :: int where "announce_cutoff = 15000"
definition announce_minimum :: int where "announce_minimum = 15000"

definition due_lead :: "int \<Rightarrow> int \<Rightarrow> int list \<Rightarrow> int" where
  "due_lead run_at now leads =
     (case find (\<lambda>m. now \<ge> run_at - m * minute \<and> now < run_at - (m - 1) * minute) leads of None \<Rightarrow> 0 | Some m \<Rightarrow> m)"

text \<open>The warning of a schedule that is due: its slot, its lead time and the run it announces.\<close>

definition due_warning :: "tzdb \<Rightarrow> schedule_row \<Rightarrow> int \<Rightarrow> (string \<times> int \<times> int) option" where
  "due_warning tz r now =
     (case parse_saved tz (c_input r) of
        Inl _ \<Rightarrow> None
      | Inr i \<Rightarrow>
          (case si_announce i of
             None \<Rightarrow> None
           | Some leads \<Rightarrow>
               if \<not> si_enabled i \<or> completed r i then None
               else
                 (case next_run tz (clock_of i) now (null_string (c_slot r)) of
                    None \<Rightarrow> None
                  | Some run_at \<Rightarrow>
                      (let lead = due_lead run_at now (slice leads); s = slot tz (clock_of i) run_at
                       in if lead = 0 \<or> s = [] \<or> run_at - now < announce_cutoff + announce_minimum then None
                          else Some (s, lead, run_at)))))"

definition announcement_text :: "int \<Rightarrow> string" where
  "announcement_text lead =
     ''Server restart in '' @ format_int lead @ '' minute'' @ (if lead = 1 then [] else ''s'') @ ''.''"

text \<open>\<open>Announce\<close>: the servers with a warning under way, and the warnings that are sent.\<close>

record warning =
  n_schedule :: schedule_row
  n_lead :: int
  n_run_at :: int

fun announce_each ::
    "tzdb \<Rightarrow> int \<Rightarrow> schedule_row list \<Rightarrow> string set \<Rightarrow> database \<Rightarrow> database \<times> string set \<times> warning list" where
  "announce_each tz now [] busy d = (d, busy, [])"
| "announce_each tz now (r # rs) busy d =
     (if c_server r \<in> busy then announce_each tz now rs busy d
      else
        (case due_warning tz r now of
           None \<Rightarrow> announce_each tz now rs busy d
         | Some (s, lead, run_at) \<Rightarrow>
             (case claim_announcement r s lead now d of
                (d', Inr True) \<Rightarrow>
                  (case announce_each tz now rs (insert (c_server r) busy) d' of
                     (d'', busy', ws) \<Rightarrow> (d'', busy', \<lparr>n_schedule = r, n_lead = lead, n_run_at = run_at\<rparr> # ws))
              | (d', _) \<Rightarrow> announce_each tz now rs busy d')))"

definition announce_schedules :: "tzdb \<Rightarrow> int \<Rightarrow> string set \<Rightarrow> database \<Rightarrow> database \<times> string set \<times> warning list" where
  "announce_schedules tz now busy d = announce_each tz now (take max_total (schedules d)) busy d"

text \<open>A warning is still current: the schedule's revision, the deadline, and the owner's access, now.\<close>

definition warning_current :: "int \<Rightarrow> warning \<Rightarrow> schedule_input \<Rightarrow> (session_user \<times> server) db_op" where
  "warning_current now w i =
     (let r = n_schedule w
      in and_then (reads (find_schedule (c_id r) (c_server r))) (\<lambda>latest.
         (case latest of
            None \<Rightarrow> fail_with ScheduleChanged
          | Some q \<Rightarrow>
              and_then (check_that (c_revision q = c_revision r \<and> now \<le> n_run_at w - announce_cutoff) ScheduleChanged) (\<lambda>_.
              and_then (authority q i) (\<lambda>(user, binding).
              and_then (assert_capability now (Some user) (c_server r) console_execute) (\<lambda>_. done_with (user, binding)))))))"

end
