(* ===== verification/BindingLog.thy ===== *)
theory BindingLog
  imports Bindings
begin

text \<open>
  The history of bindings, \<open>server_bindings\<close>: only \<open>recordBinding\<close> writes it, with a revision
  above the server's, in the transaction that raises the server's revision to it. So while a
  server's revision stands, so does what the history says of the server.
\<close>

section \<open>A database that follows another\<close>

definition new_binding :: "database \<Rightarrow> database \<Rightarrow> binding_row \<Rightarrow> bool" where
  "new_binding d d' b \<longleftrightarrow>
     (\<forall>v \<in> set (servers d). v_id v = b_server b \<longrightarrow> v_revision v < b_revision b) \<and>
     (\<exists>w \<in> set (servers d'). v_id w = b_server b \<and> b_revision b \<le> v_revision w)"

definition follows :: "database \<Rightarrow> database \<Rightarrow> bool" where
  "follows d d' \<longleftrightarrow>
     (\<forall>x \<in> set (servers d). \<exists>y \<in> set (servers d'). v_id y = v_id x \<and> v_revision x \<le> v_revision y) \<and>
     (\<exists>new. bindings d' = bindings d @ new \<and> (\<forall>b \<in> set new. new_binding d d' b))"

lemma follows_same: "servers d' = servers d \<Longrightarrow> bindings d' = bindings d \<Longrightarrow> follows d d'"
  by (auto simp: follows_def)

lemma follows_trans:
  assumes "follows d d1" "follows d1 d2"
  shows "follows d d2"
proof -
  have rows1: "\<exists>y \<in> set (servers d1). v_id y = v_id x \<and> v_revision x \<le> v_revision y" if "x \<in> set (servers d)" for x
    using assms(1) that by (auto simp: follows_def)
  have rows2: "\<exists>y \<in> set (servers d2). v_id y = v_id x \<and> v_revision x \<le> v_revision y" if "x \<in> set (servers d1)" for x
    using assms(2) that by (auto simp: follows_def)
  obtain a b where a: "bindings d1 = bindings d @ a" "\<forall>x \<in> set a. new_binding d d1 x"
      and b: "bindings d2 = bindings d1 @ b" "\<forall>x \<in> set b. new_binding d1 d2 x"
    using assms by (auto simp: follows_def)
  have "new_binding d d2 x" if "x \<in> set a" for x
  proof -
    have "new_binding d d1 x" using a(2) that by blast
    then obtain w where w: "w \<in> set (servers d1)" "v_id w = b_server x" "b_revision x \<le> v_revision w"
      and low: "\<forall>v \<in> set (servers d). v_id v = b_server x \<longrightarrow> v_revision v < b_revision x"
      unfolding new_binding_def by (elim conjE bexE)
    obtain y where "y \<in> set (servers d2)" "v_id y = b_server x" "b_revision x \<le> v_revision y"
      using rows2 [OF w(1)] w(2,3) by force
    then show ?thesis using low unfolding new_binding_def by blast
  qed
  moreover have "new_binding d d2 x" if "x \<in> set b" for x
  proof -
    have "new_binding d1 d2 x" using b(2) that by blast
    then have low: "\<forall>v \<in> set (servers d1). v_id v = b_server x \<longrightarrow> v_revision v < b_revision x"
      and w: "\<exists>w \<in> set (servers d2). v_id w = b_server x \<and> b_revision x \<le> v_revision w"
      by (simp_all add: new_binding_def)
    have "v_revision v < b_revision x" if v: "v \<in> set (servers d)" "v_id v = b_server x" for v
    proof -
      obtain y where "y \<in> set (servers d1)" "v_id y = v_id v" "v_revision v \<le> v_revision y"
        using rows1 [OF v(1)] by blast
      then show ?thesis using low v(2) by force
    qed
    then show ?thesis using w unfolding new_binding_def by blast
  qed
  ultimately have new: "\<forall>x \<in> set (a @ b). new_binding d d2 x"
    by auto
  have "\<exists>y \<in> set (servers d2). v_id y = v_id x \<and> v_revision x \<le> v_revision y" if "x \<in> set (servers d)" for x
    using rows1 [OF that] rows2 by (metis order_trans)
  then show ?thesis
    unfolding follows_def using a(1) b(1) new by (intro conjI exI [of _ "a @ b"]) simp_all
qed

text \<open>While the revision of a server stands, no binding of it is added.\<close>

lemma follows_bindings:
  assumes "follows d d'" "distinct (map v_id (servers d'))"
    and "find (\<lambda>r. v_id r = i) (servers d) = Some v" "find (\<lambda>r. v_id r = i) (servers d') = Some w"
    and "v_revision v = v_revision w"
  shows "filter (\<lambda>b. b_server b = i \<and> P b) (bindings d') = filter (\<lambda>b. b_server b = i \<and> P b) (bindings d)"
proof -
  have v: "v \<in> set (servers d)" "v_id v = i" and w: "w \<in> set (servers d')" "v_id w = i"
    using assms(3,4) by (auto simp: find_Some_iff)
  obtain new where new: "bindings d' = bindings d @ new" "\<forall>b \<in> set new. new_binding d d' b"
    using assms(1) by (auto simp: follows_def)
  have "b_server b \<noteq> i" if "b \<in> set new" for b
  proof
    assume i: "b_server b = i"
    have n: "new_binding d d' b" using new(2) that by blast
    then obtain x where x: "x \<in> set (servers d')" "v_id x = i" "b_revision b \<le> v_revision x"
      unfolding new_binding_def i by blast
    have low: "v_revision v < b_revision b"
      using n v unfolding new_binding_def i by blast
    have "x = w"
      using assms(2) x(1,2) w unfolding distinct_map inj_on_def by blast
    then show False using x(3) low assms(5) by simp
  qed
  then have "filter (\<lambda>b. b_server b = i \<and> P b) new = []"
    by (simp add: filter_empty_conv)
  then show ?thesis
    using new(1) by simp
qed

section \<open>The writers of the history\<close>

lemma update_server_bindings: "update_server i f d = (d', r) \<Longrightarrow> bindings d' = bindings d"
  by (auto simp: update_server_def)

lemma image_row:
  assumes "z \<in> set (servers d)" "\<And>x. v_id (f x) = v_id x"
    and "\<And>x. x \<in> set (servers d) \<Longrightarrow> v_id x = i \<Longrightarrow> v_revision x \<le> v_revision (f x)"
  shows "\<exists>y \<in> set (map (\<lambda>r. if v_id r = i then f r else r) (servers d)). v_id y = v_id z \<and> v_revision z \<le> v_revision y"
  by (rule bexI [of _ "if v_id z = i then f z else z"]) (use assms in auto)

lemma update_follows:
  assumes "update_server i f d = (d', r)" "\<And>x. v_id (f x) = v_id x"
    and "\<And>x. x \<in> set (servers d) \<Longrightarrow> v_id x = i \<Longrightarrow> v_revision x \<le> v_revision (f x)"
  shows "follows d d'"
  unfolding follows_def update_server_servers [OF assms(1), THEN conjunct1] update_server_bindings [OF assms(1)]
  using image_row [OF _ assms(2,3), where d = d and i = i] by auto

text \<open>The update of one row with its record: to the next revision.\<close>

lemma record_follows:
  assumes "update_server i f d = (d1, r1)" "record_binding i n c g now a d1 = (d', r)"
    and "\<And>x. v_id (f x) = v_id x" "\<And>x. x \<in> set (servers d) \<Longrightarrow> v_id x = i \<Longrightarrow> v_revision x < n \<and> v_revision (f x) = n"
    and "x \<in> set (servers d)" "v_id x = i"
  shows "follows d d'"
proof -
  have s: "servers d' = map (\<lambda>r. if v_id r = i then f r else r) (servers d)"
    using update_server_servers [OF assms(1)] record_binding_servers [OF assms(2)] by simp
  obtain b where b: "bindings d' = bindings d @ [b]" "b_server b = i" "b_revision b = n"
    using assms(1,2) by (auto simp: update_server_def record_binding_def)
  have img: "\<exists>y \<in> set (servers d'). v_id y = v_id z \<and> v_revision z \<le> v_revision y" if "z \<in> set (servers d)" for z
    unfolding s by (rule image_row [OF that assms(3)]) (use assms(4) in force)
  have "f x \<in> set (servers d')" "v_id (f x) = i" "v_revision (f x) = n"
    unfolding s using assms(3-6) by auto
  then have "new_binding d d' b"
    using b assms(4) unfolding new_binding_def by auto
  then show ?thesis
    unfolding follows_def using img b(1) by auto
qed

lemma insert_observed_follows:
  assumes "insert_observed fp uuid now host k ob amb d = (d', Inr ())"
  shows "follows d d'"
proof -
  obtain r where r: "servers d' = servers d @ [r]" "v_revision r = (if amb then 0 else 1)"
      "\<forall>x \<in> set (servers d). v_id x \<noteq> v_id r"
      and b: "if amb then bindings d' = bindings d
        else \<exists>b. bindings d' = bindings d @ [b] \<and> b_server b = v_id r \<and> b_revision b = 1"
    using assms
    by (intro that [of "last (servers d')"]; cases amb)
       (auto simp: insert_observed_def Let_def and_then_Inr insert_server_Inr record_binding_def)
  then show ?thesis
    by (cases amb) (auto simp: follows_def new_binding_def)
qed

lemma update_observed_follows:
  assumes "update_observed fp now (server_of x) ob d = (d', r)" "fleet_ok d" "x \<in> set (servers d)"
  shows "follows d d'"
proof -
  let ?f = "fp (binding_material ob)"
  define review where "review = (v_review x = 1 \<or> v_fingerprint x \<noteq> [] \<and> ?f \<noteq> v_fingerprint x)"
  define changed where "changed = (null_string (v_container x) \<noteq> o_container ob \<or>
    (if review then null_string (v_pending x) \<noteq> ?f else v_fingerprint x \<noteq> ?f))"
  define revision where "revision = (if changed then v_revision x + 1 else v_revision x)"
  define up where "up = (\<lambda>r :: server_row. if review then r\<lparr>v_container := Some (o_container ob), v_name := o_display ob,
      v_status := ''review_required'', v_revision := revision, v_pending := Some ?f, v_pending_game := Some (o_game ob),
      v_review := 1, v_seen := now\<rparr>
    else r\<lparr>v_container := Some (o_container ob), v_name := o_display ob, v_game := o_game ob, v_status := ''active'',
      v_revision := revision, v_fingerprint := ?f, v_seen := now\<rparr>)"
  define still where "still = (\<not> changed \<and> now - sv_seen (server_of x) < last_seen_interval \<and> v_name x = o_display ob \<and>
    (if review then v_status x = ''review_required'' \<and> v_review x = 1 \<and> null_string (v_pending_game x) = o_game ob
     else v_status x = ''active'' \<and> v_game x = o_game ob))"
  have e: "update_observed fp now (server_of x) ob = (if still then done_with ()
      else and_then (update_server (v_id x) up) (\<lambda>_.
        if changed then record_binding (v_id x) revision (o_container ob) ?f now (\<not> review) else done_with ()))"
    unfolding update_observed_def Let_def server_of_sel still_def up_def revision_def changed_def review_def by (rule refl)
  have only: "y = x" if "y \<in> set (servers d)" "v_id y = v_id x" for y
    using fleet_unique [OF assms(2) that(1) assms(3)] that(2) by blast
  have up: "v_id (up z) = v_id z" "v_revision (up z) = revision" for z
    by (simp_all add: up_def)
  obtain d1 r1 where u: "update_server (v_id x) up d = (d1, r1)" by fastforce
  show ?thesis
  proof (cases "still \<or> \<not> changed")
    case True
    have "follows d d1"
      by (rule update_follows [OF u up(1)]) (use only up(2) in \<open>force simp: revision_def\<close>)
    then show ?thesis
      using assms(1) True u update_server_servers [OF u] by (auto simp: e and_then_def follows_same split: if_splits)
  next
    case False
    then have rec: "record_binding (v_id x) revision (o_container ob) ?f now (\<not> review) d1 = (d', r)"
      using assms(1) u update_server_servers [OF u] by (auto simp: e and_then_def)
    show ?thesis
      by (rule record_follows [OF u rec up(1) _ assms(3) refl]) (use False only up(2) in \<open>auto simp: revision_def\<close>)
  qed
qed

section \<open>The fleet over time\<close>

lemma apply_group_follows:
  assumes "apply_group fp uuid now host existing (k, g) d = (d', Inr ())" "fleet_ok d" "read_from host {k} existing d"
  shows "follows d d'"
proof (cases "find (\<lambda>s. sv_external s = k) existing")
  case None
  then show ?thesis
    using assms(1) insert_observed_follows by (fastforce simp: apply_group_def Let_def)
next
  case (Some s)
  then have "s \<in> set existing" "sv_external s = k"
    by (auto simp: find_Some_iff)
  then obtain x where x: "x \<in> set (servers d)" "server_of x = s"
    using assms(3) unfolding read_from_def by blast
  show ?thesis
  proof (cases "length g = 1")
    case True
    then have "update_observed fp now (server_of x) (hd g) d = (d', Inr ())"
      using assms(1) Some x(2) by (simp add: apply_group_def)
    then show ?thesis
      by (rule update_observed_follows [OF _ assms(2) x(1)])
  next
    case False
    then show ?thesis
      using assms(1) Some by (auto simp: apply_group_def intro: follows_same elim!: update_follows split: if_splits)
  qed
qed

lemma each_group_follows:
  assumes "each (apply_group fp uuid now host existing) groups d = (d', Inr ())" "fleet_ok d"
    "read_from host (fst ` set groups) existing d" "distinct (map fst groups)"
    "\<And>k g. (k, g) \<in> set groups \<Longrightarrow> observed_as obs k = g \<and> g \<noteq> [] \<and> o_container (hd g) \<noteq> []"
  shows "follows d d'"
  using assms
proof (induction groups arbitrary: d)
  case (Cons kg groups)
  obtain k g where kg: "kg = (k, g)"
    by (cases kg)
  obtain d1 where d1: "apply_group fp uuid now host existing (k, g) d = (d1, Inr ())"
    "each (apply_group fp uuid now host existing) groups d1 = (d', Inr ())"
    using Cons.prems(1) by (auto simp: and_then_Inr kg)
  have rf: "read_from host {k} existing d"
    using Cons.prems(3) by (auto simp: kg read_from_def)
  have here: "moved fp obs host {k} d d1 \<and> fleet_ok d1 \<and> present host {k} d1"
    by (rule apply_group_moved [OF d1(1) Cons.prems(2) rf]) (use Cons.prems(5) [of k g] in \<open>auto simp: kg\<close>)
  have "read_from host (fst ` set groups) existing d1"
    using read_from_moved [OF read_from_mono [OF Cons.prems(3)] here [THEN conjunct1]] Cons.prems(4) by (auto simp: kg)
  then have "follows d1 d'"
    using Cons.IH [OF d1(2)] Cons.prems(4,5) here by auto
  then show ?case
    using apply_group_follows [OF d1(1) Cons.prems(2) rf] follows_trans by blast
qed (auto intro: follows_same)

lemma each_missing_follows: "each (mark_missing groups) existing d = (d', Inr ()) \<Longrightarrow> follows d d'"
proof (induction existing arbitrary: d)
  case (Cons s existing)
  then obtain d1 where d1: "mark_missing groups s d = (d1, Inr ())" "each (mark_missing groups) existing d1 = (d', Inr ())"
    by (auto simp: and_then_Inr)
  have "follows d d1"
    using d1(1) by (auto simp: mark_missing_def intro: follows_same elim!: update_follows split: if_splits)
  then show ?case
    using Cons.IH [OF d1(2)] follows_trans by blast
qed (auto intro: follows_same)

lemma tx_Inl_follows: "tx m d = (d', Inl e) \<Longrightarrow> follows d d'"
  by (auto simp: tx_def intro!: follows_same split: prod.splits sum.splits)

lemma apply_snapshot_follows:
  assumes "apply_snapshot fp uuid now host obs d = (d', r)" "fleet_ok d" "host \<noteq> []"
  shows "follows d d'"
proof (cases r)
  case (Inl err)
  then show ?thesis
    using assms(1)
    by (auto simp: apply_snapshot_def and_then_def from_res_def intro: follows_same tx_Inl_follows split: prod.splits sum.splits)
next
  case (Inr u)
  then obtain groups existing d1 where a: "group_all [] [] obs = Inr groups" "list_servers host d = (d, Inr existing)"
    "each (apply_group fp uuid now host existing) groups d = (d1, Inr ())" "each (mark_missing groups) existing d1 = (d', Inr ())"
    using assms(1) list_servers_Inr(1) by (fastforce simp: apply_snapshot_def and_then_Inr)
  note g = group_all_Inr [OF a(1)] and l = list_servers_Inr [OF a(2)]
  have "read_from host (fst ` set groups) existing d"
    using l assms(3) unfolding read_from_def by fastforce
  from each_group_follows [OF a(3) assms(2) this g(1,2)] each_missing_follows [OF a(4)]
  show ?thesis by (rule follows_trans)
qed

lemma docker_host_id_bindings: "docker_host_id u n d = (d', r) \<Longrightarrow> bindings d' = bindings d"
  by (auto simp: docker_host_id_def and_then_def split: option.splits prod.splits sum.splits if_splits)

lemma store_apply_follows:
  assumes "store_apply fp uuid host_uuid clock now host obs d = (d', r)" "fleet_ok d" "hosts_ok d" "host_uuid \<noteq> []"
  shows "follows d d'"
proof -
  obtain d1 r1 where d1: "host_or_local host_uuid host d = (d1, r1)"
    by fastforce
  then have s: "servers d1 = servers d" "bindings d1 = bindings d" "r1 \<noteq> Inr []"
    using assms(3,4) docker_host_id_servers docker_host_id_bindings docker_host_id_ok
    unfolding host_or_local_def by (auto split: if_splits)
  then have ok: "fleet_ok d1" and f: "follows d d1"
    using assms(2) by (simp_all add: fleet_ok_def follows_same)
  show ?thesis
  proof (cases r1)
    case (Inl err)
    then show ?thesis
      using assms(1) d1 f by (auto simp: store_apply_def and_then_def)
  next
    case (Inr h)
    then have a: "apply_snapshot fp uuid (if now \<le> 0 then clock else now) h obs d1 = (d', r)"
      using assms(1) d1 by (simp add: store_apply_def and_then_def)
    have "h \<noteq> []" using s(3) Inr by simp
    from follows_trans [OF f apply_snapshot_follows [OF a ok this]] show ?thesis .
  qed
qed

lemma review_follows:
  assumes "review_binding now a t i e n d = (d', r)" "fleet_ok d"
  shows "follows d d'"
proof -
  obtain d1 r1 where t: "review_tx now a t i e n d = (d1, r1)" by fastforce
  have d': "d' = d1"
    using assms(1) t unfolding review_binding_eq and_then_def
    by (auto split: sum.splits dest: get_server_same)
  show ?thesis
  proof (cases r1)
    case (Inl err)
    then show ?thesis
      using t d' unfolding review_tx_def admin_mutation_def by (auto dest: tx_Inl_follows)
  next
    case (Inr u)
    then obtain x where x: "x \<in> set (servers d)" "v_id x = i"
      and d1: "d1 = d\<lparr>servers := map (\<lambda>r. if v_id r = i then accepted_row r else r) (servers d),
          bindings := bindings d @ [\<lparr>b_id = binding_seq d + 1, b_server = i, b_revision = v_revision x + 1,
            b_container = the (v_container x), b_fingerprint = e, b_observed = now, b_accepted = 1\<rparr>],
          binding_seq := binding_seq d + 1\<rparr>"
      using t review_commit unfolding review_accepts_def by fastforce
    have only: "y = x" if "y \<in> set (servers d)" "v_id y = i" for y
      using fleet_unique [OF assms(2) that(1) x(1)] that(2) x(2) by simp
    have "\<exists>y \<in> set (servers d1). v_id y = v_id z \<and> v_revision z \<le> v_revision y" if "z \<in> set (servers d)" for z
      unfolding d1 using image_row [OF that, of accepted_row i] by (simp add: accepted_row_def)
    moreover obtain b where b: "bindings d1 = bindings d @ [b]" "b_server b = i" "b_revision b = v_revision x + 1"
      unfolding d1 by simp
    moreover have "new_binding d d1 b"
      unfolding new_binding_def b(2,3)
    proof (intro conjI ballI impI bexI [of _ "accepted_row x"])
      show "accepted_row x \<in> set (servers d1)"
        unfolding d1 using x by auto
    qed (use only x(2) in \<open>auto simp: accepted_row_def\<close>)
    ultimately show ?thesis
      unfolding follows_def d' by simp
  qed
qed

lemma fleet_runs_follow:
  assumes "fleet_runs fp d d'" "fleet_ok d" "hosts_ok d"
  shows "follows d d'"
  using assms
proof (induction rule: fleet_runs.induct)
  case (Go d d1 e d2)
  then have "fleet_ok d1" "hosts_ok d1"
    using fleet_runs_rows by blast+
  then have "follows d1 d2"
    using Go.hyps(2) by (elim fleet_stepE) (auto intro: store_apply_follows review_follows)
  then show ?case
    using Go follows_trans by blast
qed (auto intro: follows_same)

end
