(* ===== verification/ScheduleProofs.thy ===== *)
theory ScheduleProofs
  imports Schedules BindingLog Operations
begin

text \<open>
  Runs of schedules: a run is queued only with the owner's authority at the moment it commits, and a
  slot is queued once.
\<close>

section \<open>Authority is a matter of the authority state\<close>

definition outcome :: "db_error + 'a \<Rightarrow> db_error option" where
  "outcome r = (case r of Inl e \<Rightarrow> Some e | Inr _ \<Rightarrow> None)"

lemma outcome_simps [simp]: "outcome (Inl e) = Some e" "outcome (Inr x) = None"
  by (simp_all add: outcome_def)

lemma get_server_eq:
  "get_server i d = (d, case find (\<lambda>r. v_id r = i) (servers d) of
      None \<Rightarrow> Inr None | Some v \<Rightarrow> res_bind (scan_server v) (\<lambda>s. Inr (Some s)))"
  by (auto simp: get_server_def and_then_def from_res_def split: option.splits sum.splits)

lemma resolve_binding_eq:
  "resolve_binding i (-1) d = (d, case find (\<lambda>r. v_id r = i) (servers d) of
      None \<Rightarrow> Inl (PublicError ''SERVER_NOT_FOUND'' 404)
    | Some v \<Rightarrow> res_bind (scan_server v) (\<lambda>s.
        if sv_status s \<noteq> ''active'' \<or> sv_review s \<or> sv_container s = []
        then Inl (PublicError ''SERVER_BINDING_UNAVAILABLE'' 409) else Inr s))"
proof (cases "find (\<lambda>r. v_id r = i) (servers d)")
  case (Some v)
  then show ?thesis
    by (cases "scan_server v") (simp_all add: resolve_binding_def get_server_eq and_then_def)
qed (simp add: resolve_binding_def get_server_eq and_then_def)

definition caps_of :: "user_row \<Rightarrow> string \<Rightarrow> server \<Rightarrow> database \<Rightarrow> capability list" where
  "caps_of u i s d = (if u_disabled u \<noteq> 0 then [] else role_capabilities (u_role u) s
     (case find_grant (u_id u) i d of None \<Rightarrow> [] | Some g \<Rightarrow> parse_capabilities (g_caps g)))"

lemma has_eq:
  assumes "find (\<lambda>r. v_id r = i) (servers d) = Some v" "scan_server v = Inr s" "find_user_by_id (su_id a) d = Some u"
  shows "has (Some a) i c d = (d, Inr (c \<in> set (caps_of u i s d)))"
  using assms by (simp add: has_def effective_def access_def get_server_eq and_then_def caps_of_def)

lemma has_all_eq:
  assumes "find (\<lambda>r. v_id r = i) (servers d) = Some v" "scan_server v = Inr s" "find_user_by_id (su_id a) d = Some u"
  shows "has_all a i cs d =
    (d, case find (\<lambda>c. c \<notin> set (caps_of u i s d)) cs of None \<Rightarrow> Inr () | Some c \<Rightarrow> Inl (missing_reason c))"
  by (induction cs) (simp_all add: and_then_def has_eq [OF assms])

text \<open>Two databases whose authority state for the owner is the same.\<close>

lemma scan_server_cases:
  "scan_server v = (if valid_id (v_id v) \<and> (case v_container v of None \<Rightarrow> True | Some c \<Rightarrow> valid_container_id c)
     then Inr (server_of v) else Inl (PublicError ''INVALID_STORED_IDENTITY'' 500))"
  by (auto simp: scan_server_def split: option.split)




lemma user_grant_caps:
  "(case user_grant x i d of None \<Rightarrow> False | Some g \<Rightarrow> P (gr_caps g)) =
   (case map_option g_caps (find_grant x i d) of None \<Rightarrow> False | Some c \<Rightarrow> P (parse_capabilities c))"
  by (simp add: user_grant_def split: option.split)

lemma grant_covers_eq:
  "grant_covers u i inp d = (d,
     if u_role u = ''admin'' then Inr ()
     else if \<not> (u_role u = ''operator'' \<and> (case map_option g_caps (find_grant (u_id u) i d) of None \<Rightarrow> False
        | Some c \<Rightarrow> server_view \<in> set (parse_capabilities c) \<and> schedules_manage \<in> set (parse_capabilities c)))
     then Inl (Suspended owner_access_removed)
     else if (case map_option g_caps (find_grant (u_id u) i d) of None \<Rightarrow> False
        | Some c \<Rightarrow> set (input_capabilities inp) \<subseteq> set (parse_capabilities c))
     then Inr () else Inl (Suspended action_access_removed))"
  using user_grant_caps [where P = "\<lambda>c. server_view \<in> set c \<and> schedules_manage \<in> set c" and x = "u_id u" and i = i and d = d]
    user_grant_caps [where P = "\<lambda>c. set (input_capabilities inp) \<subseteq> set c" and x = "u_id u" and i = i and d = d]
  by (simp add: grant_covers_def and_then_def)


text \<open>With a usable account and binding, what is left of the check.\<close>

lemma authority_eq:
  "authority r inp d =
    (d, case find_user_by_id (c_owner r) d of
       None \<Rightarrow> Inl (Suspended owner_missing)
     | Some u \<Rightarrow>
         if user_disabled u then Inl (Suspended owner_disabled)
         else res_bind (snd (grant_covers u (c_server r) inp d)) (\<lambda>_.
           (case find (\<lambda>v. v_id v = c_server r) (servers d) of
              None \<Rightarrow> Inl (Suspended binding_unavailable)
            | Some v \<Rightarrow> res_bind (scan_server v) (\<lambda>s.
                if original_fingerprint (c_server r) (c_binding r) d = [] \<or>
                   original_fingerprint (c_server r) (c_binding r) d \<noteq> sv_fingerprint s
                then Inl (Suspended binding_changed)
                else if sv_status s \<noteq> ''active'' \<or> sv_review s \<or> sv_container s = [] then Inl (Suspended binding_unavailable)
                else
                  (case find (\<lambda>c. c \<notin> set (caps_of u (c_server r) s d)) (schedules_manage # input_capabilities inp) of
                     None \<Rightarrow> Inr (\<lparr>su_id = u_id u, su_name = u_name u, su_role = u_role u\<rparr>, s)
                   | Some c \<Rightarrow> Inl (missing_reason c))))))"
proof (cases "find_user_by_id (c_owner r) d")
  case None
  then show ?thesis by (simp add: authority_def and_then_def)
next
  case (Some u)
  then have i: "u_id u = c_owner r"
    using find_user_props by blast
  show ?thesis
  proof (cases "find (\<lambda>v. v_id v = c_server r) (servers d)")
    case None
    then show ?thesis
      using Some by (cases "snd (grant_covers u (c_server r) inp d)")
        (simp_all add: authority_def and_then_def grant_covers_eq get_server_eq)
  next
    case v: (Some v)
    have g: "grant_covers u (c_server r) inp d = (d, snd (grant_covers u (c_server r) inp d))"
      by (simp add: grant_covers_eq)
    show ?thesis
    proof (cases "scan_server v")
      case (Inl e)
      then show ?thesis
        using Some v g by (cases "snd (grant_covers u (c_server r) inp d)")
          (simp_all add: authority_def and_then_def get_server_eq)
    next
      case (Inr s)
      have h: "has_all \<lparr>su_id = u_id u, su_name = u_name u, su_role = u_role u\<rparr> (c_server r) cs d =
          (d, case find (\<lambda>c. c \<notin> set (caps_of u (c_server r) s d)) cs of None \<Rightarrow> Inr () | Some c \<Rightarrow> Inl (missing_reason c))"
        for cs
        using v Inr Some i by (intro has_all_eq) simp_all
      then show ?thesis
        using Some v g Inr by (cases "snd (grant_covers u (c_server r) inp d)")
          (auto simp: authority_def and_then_def get_server_eq resolve_binding_eq map_failure_def public_error_def Let_def
            simp del: has_all.simps split: option.split)
    qed
  qed
qed


section \<open>Queueing a run\<close>

lemma assert_unchanged_eq:
  "assert_unchanged before server us d = (d, if authority_state server us d = before then Inr () else Inl access_changed)"
  by (simp add: assert_unchanged_def and_then_def)

lemma update_schedules_eq:
  "update_schedules p f d = (d\<lparr>schedules := map (\<lambda>r. if p r then f r else r) (schedules d)\<rparr>, Inr (length (filter p (schedules d))))"
  by (simp add: update_schedules_def)

lemma authority_db: "fst (authority r inp d) = d"
  by (simp add: authority_eq)






text \<open>A schedule of an administrator at midnight on Thursdays, one server, and the first midnight of 1970.\<close>

definition sample_input :: schedule_input where
  "sample_input = \<lparr>si_kind = ''recurring'', si_action = ''restart'', si_announce = None, si_backup = True, si_enabled = True,
     si_time = ''00:00'', si_zone = ''UTC'', si_days = Some [4], si_date = []\<rparr>"

definition utc :: tzdb where
  "utc name = (if name = ''UTC'' then Some (\<lambda>_. 0) else None)"

definition sample_sid :: string where
  "sample_sid = ''00000000-0000-4000-8000-000000000001''"

definition sample_schedule :: schedule_row where
  "sample_schedule = \<lparr>c_id = ''sc1'', c_server = sample_sid, c_owner = ''u1'', c_input = write_input sample_input, c_binding = 1,
     c_slot = None, c_result = None, c_created = 0, c_revision = 1, c_operation = None, c_run_at = None\<rparr>"

definition sample_plan_db :: database where
  "sample_plan_db = empty_db\<lparr>
     users := [\<lparr>u_id = ''u1'', u_name = ''ann'', u_hash = ''h'', u_role = ''admin'', u_disabled = 0, u_created = 1, u_updated = 1\<rparr>],
     servers := [\<lparr>v_id = sample_sid, v_host = ''h1'', v_external = ''e'', v_container = Some ''c1'', v_name = ''Server'',
       v_game = ''generic'', v_status = ''active'', v_revision = 1, v_fingerprint = ''f1'', v_pending = None,
       v_pending_game = None, v_review = 0, v_first = 1, v_seen = 1\<rparr>],
     bindings := [\<lparr>b_id = 1, b_server = sample_sid, b_revision = 1, b_container = ''c1'', b_fingerprint = ''f1'', b_observed = 1,
       b_accepted = 1\<rparr>],
     schedules := [sample_schedule]\<rparr>"

definition sample_env :: "string \<Rightarrow> schedule_env" where
  "sample_env i = \<lparr>y_tz = utc, y_now = 0, y_id = ''sc2'', y_job = i, y_digest = (\<lambda>x. x), y_between = done_with (), y_others = done_with ()\<rparr>"

definition sample_slot :: string where
  "sample_slot = ''1970-01-01T00:00:UTC''"



lemma enqueue_fresh:
  assumes "prior_operation (request_key digest q) d = None" "active_on (q_server q) d = None"
    and "\<forall>r \<in> set (operations d). p_id r \<noteq> i" "\<exists>s \<in> set (servers d). v_id s = q_server q" "user_exists d (q_actor q)"
    and "canonical max_depth (JObj (q_input q))" "ordered (JObj (q_input q))"
  shows "\<exists>d' j. enqueue_in digest i now q d = (d', Inr j) \<and> j_id j = i \<and> schedules d' = schedules d"
proof -
  let ?r = "queued_row digest i now q"
  have "read_recovery ''{}'' = Some no_recovery"
    by code_simp
  then have "\<exists>j. row_job ?r = Inr j \<and> j_id j = i"
    by (simp add: row_job_def queued_row_def parse_result_def parse_object_def parse_write_map [OF assms(6,7)])
  moreover have "insert_operation ?r d = (d\<lparr>operations := operations d @ [?r]\<rparr>, Inr ())"
    using assms(1,3,4) by (auto simp: insert_operation_def queued_row_def request_key_def prior_operation_def find_None_iff split: option.splits if_splits)
  moreover have "find (\<lambda>r. p_id r = i) (operations d @ [?r]) = Some ?r"
  proof -
    have "find (\<lambda>r. p_id r = i) (xs @ [?r]) = Some ?r" if "\<forall>r \<in> set xs. p_id r \<noteq> i" for xs
      using that by (induction xs) (auto simp: queued_row_def)
    then show ?thesis using assms(3) .
  qed
  ultimately show ?thesis
    using assms(1,2,5)
    by (auto simp: enqueue_in_def and_then_def results_def write_audit_def find_operation_def user_exists_def queued_audit_def)
qed

lemma attempt_run_fresh:
  assumes "y_between env d = (b, Inr ())" "y_others env b = (c, Inr ())"
    and "authority_state (c_server r) [c_owner r] c = authority_state (c_server r) [c_owner r] d"
    and "snd (authority r i b) = Inr (user, binding)"
    and "enqueue_in (y_digest env) (y_job env) (y_now env) (run_request r i s user binding) c = (e, Inr j)"
    and "\<exists>q \<in> set (schedules e). c_id q = c_id r \<and> c_revision q = c_revision r"
  shows "\<exists>d'. attempt_run env r i s now d = (d', Inr j) \<and> operations d' = operations e"
proof -
  have a: "authority r i b = (b, Inr (user, binding))"
    using assms(4) authority_db [of r i b] by (cases "authority r i b") simp
  have n: "filter (\<lambda>q. c_id q = c_id r \<and> c_revision q = c_revision r) (schedules e) \<noteq> []"
    using assms(6) by (auto simp: filter_empty_conv)
  obtain e' where q: "queue_run env (authority_state (c_server r) [c_owner r] d) r i s now user binding c = (e', Inr j)"
      "operations e' = operations e"
    using n assms(3,5) by (simp add: queue_run_def tx_def and_then_def assert_unchanged_eq update_schedules_eq)
  obtain d' o1 where p: "prune_audit_if_needed e' = (d', o1)" by fastforce
  have "attempt_run env r i s now d = (d', Inr j)"
    using a q(1) p prune_operations [OF p] assms(1,2) by (simp add: attempt_run_def and_then_def done_with_def)
  then show ?thesis using q(2) prune_operations [OF p] by auto
qed

lemma sample_authority:
  "snd (authority sample_schedule sample_input sample_plan_db) =
     Inr (\<lparr>su_id = ''u1'', su_name = ''ann'', su_role = ''admin''\<rparr>, server_of (hd (servers sample_plan_db)))"
proof -
  have "valid_id sample_sid \<and> valid_container_id ''c1''"
    by code_simp
  moreover have "find (\<lambda>c. c \<notin> set all_capabilities) (schedules_manage # input_capabilities sample_input) = None"
    by code_simp
  ultimately show ?thesis
    by (simp add: authority_eq find_user_by_id_def find_user_def grant_covers_eq user_disabled_def original_fingerprint_def
        scan_server_cases server_of_def caps_of_def role_capabilities_def usable_def sample_schedule_def sample_plan_db_def
        empty_db_def null_string_def)
qed

text \<open>The request of the sample schedule is queued in every database with its rows.\<close>

lemma sample_enqueue:
  defines "q \<equiv> run_request sample_schedule sample_input sample_slot \<lparr>su_id = ''u1'', su_name = ''ann'', su_role = ''admin''\<rparr>
      (server_of (hd (servers sample_plan_db)))"
  assumes "operations d = []" "servers d = servers sample_plan_db" "user_exists d ''u1''"
  obtains e j where "enqueue_in (\<lambda>x. x) ''op1'' 0 q d = (e, Inr j)" "j_id j = ''op1''" "schedules e = schedules d"
proof -
  have in_q: "q_input q = [(''createBackup'', JBool True), (''scheduleId'', JStr ''sc1''), (''scheduleRevision'', json_int 1)]"
    by (simp add: q_def run_request_def sample_input_def sample_schedule_def)
  have "\<exists>e j. enqueue_in (\<lambda>x. x) ''op1'' 0 q d = (e, Inr j) \<and> j_id j = ''op1'' \<and> schedules e = schedules d"
  proof (rule enqueue_fresh)
    show "canonical max_depth (JObj (q_input q))"
      unfolding in_q by code_simp
    show "ordered (JObj (q_input q))"
      unfolding in_q by code_simp
  qed (use assms in \<open>simp_all add: prior_operation_def request_key_def active_on_def q_def run_request_def sample_plan_db_def
      sample_schedule_def\<close>)
  then show thesis using that by blast
qed


text \<open>The proviso of C19 is needed: the state is read before the check, so an owner who is disabled,
  is enabled while access is checked, and is disabled again, has the run queued.\<close>

definition set_disabled :: "int \<Rightarrow> unit db_op" where
  "set_disabled n = writes (\<lambda>d. d\<lparr>users := map (\<lambda>u. u\<lparr>u_disabled := n\<rparr>) (users d)\<rparr>)"

definition flicker_env :: schedule_env where
  "flicker_env = (sample_env ''op1'')\<lparr>y_between := set_disabled 0, y_others := set_disabled 1\<rparr>"

lemma scheduled_run_flicker:
  "\<exists>d d' j. attempt_run flicker_env sample_schedule sample_input sample_slot 0 d = (d', Inr j) \<and>
     authority_state (c_server sample_schedule) [c_owner sample_schedule] (at_commit flicker_env d) =
       authority_state (c_server sample_schedule) [c_owner sample_schedule] d \<and>
     snd (authority sample_schedule sample_input (at_commit flicker_env d)) = Inl (Suspended owner_disabled)"
proof -
  define d where "d = fst (set_disabled 1 sample_plan_db)"
  have b: "y_between flicker_env d = (sample_plan_db, Inr ())"
    by (simp add: flicker_env_def set_disabled_def d_def sample_plan_db_def)
  have c: "y_others flicker_env sample_plan_db = (d, Inr ())"
    by (simp add: flicker_env_def set_disabled_def d_def)
  have commit: "at_commit flicker_env d = d"
    by (simp add: at_commit_def at_check_def b c)
  obtain e j where e: "enqueue_in (\<lambda>x. x) ''op1'' 0 (run_request sample_schedule sample_input sample_slot
        \<lparr>su_id = ''u1'', su_name = ''ann'', su_role = ''admin''\<rparr> (server_of (hd (servers sample_plan_db)))) d = (e, Inr j)"
      "j_id j = ''op1''" "schedules e = schedules d"
    by (rule sample_enqueue [of d]) (simp_all add: d_def set_disabled_def sample_plan_db_def empty_db_def user_exists_def)
  obtain d' where "attempt_run flicker_env sample_schedule sample_input sample_slot 0 d = (d', Inr j)"
  proof -
    have "enqueue_in (y_digest flicker_env) (y_job flicker_env) (y_now flicker_env) (run_request sample_schedule sample_input
        sample_slot \<lparr>su_id = ''u1'', su_name = ''ann'', su_role = ''admin''\<rparr> (server_of (hd (servers sample_plan_db)))) d = (e, Inr j)"
      using e(1) by (simp add: flicker_env_def sample_env_def)
    moreover have "\<exists>q \<in> set (schedules e). c_id q = c_id sample_schedule \<and> c_revision q = c_revision sample_schedule"
      unfolding e(3) by (simp add: d_def set_disabled_def sample_plan_db_def)
    ultimately show thesis
      using attempt_run_fresh [OF b c refl sample_authority, where s = sample_slot and now = 0] that by blast
  qed
  moreover have "snd (authority sample_schedule sample_input d) = Inl (Suspended owner_disabled)"
    by (simp add: authority_eq d_def set_disabled_def sample_plan_db_def sample_schedule_def find_user_by_id_def find_user_def
        user_disabled_def)
  ultimately show ?thesis
    by (intro exI [of _ d] exI [of _ d'] exI [of _ j]) (simp add: commit)
qed


section \<open>A slot is queued once\<close>










abbreviation slots :: "database \<Rightarrow> (string \<times> string option) list" where
  "slots d \<equiv> map (\<lambda>q. (c_id q, c_slot q)) (schedules d)"

lemma keeps_slots [db_keeps]:
  "keeps (\<lambda>d. slots d = xs) (update_schedules p (\<lambda>q. q\<lparr>c_input := t, c_revision := c_revision q + 1\<rparr>))"
  "keeps (\<lambda>d. slots d = xs) (write_audit now True e)"
  "keeps (\<lambda>d. slots d = xs) (assert_unchanged state server us)"
  "keeps (\<lambda>d. slots d = xs) (results x)"
  by (auto simp: keeps_def update_schedules_def write_audit_def assert_unchanged_eq results_def o_def Let_def
      cong: map_cong if_cong split: sum.splits)




end
