(* ===== verification/DataRoots.thy ===== *)
theory DataRoots
  imports GoPath Identity
begin

text \<open>
  The data directories of a server that may be browsed, \<open>src/internal/files/roots.go\<close>. The configured
  sensitive paths, set once at start-up, are an argument.
\<close>

section \<open>Paths\<close>

definition normalized_mount_path :: "string \<Rightarrow> string" where
  "normalized_mount_path v = (let n = trim_suffix (path_clean v) ''/'' in if n = [] then ''/'' else n)"

definition within :: "string \<Rightarrow> string \<Rightarrow> bool" where
  "within v root \<longleftrightarrow> v = root \<or> has_prefix v (root @ ''/'')"

text \<open>The pattern \<open>(?i)\.sock$\<close>: case folding also matches the long s and the Kelvin sign.\<close>

definition socket_suffix :: "string \<Rightarrow> bool" where
  "socket_suffix v \<longleftrightarrow>
     list_ex (\<lambda>(s, o', c, k). has_suffix v (''.'' @ s @ o' @ c @ k))
       [(s, o', c, k). s \<leftarrow> [''s'', ''S'', [CHR 0xC5, CHR 0xBF]], o' \<leftarrow> [''o'', ''O''], c \<leftarrow> [''c'', ''C''],
          k \<leftarrow> [''k'', ''K'', [CHR 0xE2, CHR 0x84, CHR 0xAA]]]"

definition protected_paths :: "string list" where
  "protected_paths = [''/proc'', ''/sys'', ''/dev'', ''/run'', ''/var/run'', ''/var/lib/docker'', ''/var/lib/containerd'',
     ''/etc'', ''/boot'', ''/bin'', ''/sbin'', ''/lib'', ''/lib64'', ''/usr'', ''/root/.ssh'', ''/root/.aws'', ''/root/.docker'']"

definition broad_paths :: "string list" where
  "broad_paths = [''/'', ''/home'', ''/root'', ''/srv'', ''/opt'', ''/mnt'', ''/media'', ''/Users'']"

definition sensitive_system_path :: "string list \<Rightarrow> string \<Rightarrow> bool" where
  "sensitive_system_path extra v \<longleftrightarrow>
     v \<in> set broad_paths \<or> list_ex (\<lambda>root. within v root \<or> within root v) (protected_paths @ extra)"

definition safe_writable_data_mount :: "string list \<Rightarrow> mount \<Rightarrow> bool" where
  "safe_writable_data_mount extra m \<longleftrightarrow>
     m_writable m \<and> (m_type m = ''bind'' \<or> m_type m = ''volume'') \<and>
     (let destination = normalized_mount_path (m_destination m)
      in has_prefix destination ''/'' \<and> utf16_length destination \<le> 512 \<and> CHR 0x00 \<notin> set (m_destination m) \<and>
         \<not> sensitive_system_path extra destination \<and> \<not> socket_suffix destination) \<and>
     (m_type m = ''bind'' \<longrightarrow>
       (let source = path_clean (m_source m)
        in has_prefix source ''/'' \<and> CHR 0x00 \<notin> set (m_source m) \<and>
           \<not> sensitive_system_path extra source \<and> \<not> socket_suffix source))"

section \<open>Roots\<close>

record data_root =
  r_id :: string
  r_name :: string
  r_path :: string

definition label_files :: string where
  "label_files = ''ludock.files''"

definition candidates :: "string list \<Rightarrow> (string \<rightharpoonup> string) \<Rightarrow> mount list \<Rightarrow> string list" where
  "candidates extra labels mounts =
     (case labels label_files of
        Some configured \<Rightarrow> map trim_space (split_on (CHR '','') configured)
      | None \<Rightarrow> map m_destination (filter (safe_writable_data_mount extra) mounts))"

text \<open>The mounts a path is in, the deepest first; mounts of equal length keep their order.\<close>

definition owners :: "mount list \<Rightarrow> string \<Rightarrow> mount list" where
  "owners mounts p =
     sort_key (\<lambda>m. - int (utf16_length (m_destination m)))
       (filter (\<lambda>m. within p (normalized_mount_path (m_destination m))) mounts)"

definition acceptable :: "string list \<Rightarrow> mount list \<Rightarrow> string list \<Rightarrow> string \<Rightarrow> bool" where
  "acceptable extra mounts paths v \<longleftrightarrow>
     has_prefix v ''/'' \<and> CHR 0x00 \<notin> set v \<and> ''..'' \<notin> set (split_on (CHR ''/'') v) \<and>
     (let p = trim_suffix (path_clean v) ''/''
      in p \<noteq> [] \<and> utf16_length p \<le> 512 \<and> p \<notin> set paths \<and> \<not> sensitive_system_path extra p \<and>
         (case owners mounts p of [] \<Rightarrow> False | m # _ \<Rightarrow> safe_writable_data_mount extra m))"

fun accepted_paths :: "string list \<Rightarrow> mount list \<Rightarrow> string list \<Rightarrow> string list \<Rightarrow> string list" where
  "accepted_paths extra mounts paths [] = paths"
| "accepted_paths extra mounts paths (v # vs) =
     accepted_paths extra mounts
       (if acceptable extra mounts paths v then paths @ [trim_suffix (path_clean v) ''/''] else paths) vs"

text \<open>\<open>path.Base\<close>, of a string without trailing slashes or of slashes only.\<close>

fun drop_slashes :: "string \<Rightarrow> string" where
  "drop_slashes [] = []"
| "drop_slashes (c # s) = (if c = CHR ''/'' then drop_slashes s else c # s)"

definition path_base :: "string \<Rightarrow> string" where
  "path_base p =
     (if p = [] then ''.''
      else (let s = rev (drop_slashes (rev p)); b = last (split_on (CHR ''/'') s) in if b = [] then ''/'' else b))"

definition root_name :: "string \<Rightarrow> string \<Rightarrow> string" where
  "root_name game p =
     (if to_lower game = ''minecraft'' \<and> p = ''/data'' then ''Minecraft data''
      else if to_lower game = ''valheim'' \<and> p = ''/config'' then ''Valheim config''
      else if to_lower game = ''terraria'' \<and> p = ''/root/.local/share/Terraria/Worlds'' then ''Terraria worlds''
      else (let base = path_base p in if base \<noteq> ''/'' \<and> base \<noteq> ''.'' then base else p))"

definition outermost :: "string list \<Rightarrow> string \<Rightarrow> bool" where
  "outermost paths p \<longleftrightarrow> \<not> list_ex (\<lambda>q. q \<noteq> p \<and> within p q) paths"

definition data_roots :: "string list \<Rightarrow> string \<Rightarrow> (string \<rightharpoonup> string) \<Rightarrow> mount list \<Rightarrow> data_root list" where
  "data_roots extra game labels mounts =
     (let paths = accepted_paths extra mounts [] (candidates extra labels mounts)
      in map (\<lambda>(i, p). \<lparr>r_id = ''root-'' @ itoa i, r_name = root_name game p, r_path = p\<rparr>)
           (enumerate 0 (take 8 (filter (outermost paths) paths))))"

section \<open>Lengths of nested paths\<close>

lemma rune_len_before_ascii:
  assumes "s \<noteq> []" "byte c < 0x80"
  shows "rune_len (s @ c # t) = rune_len s"
proof -
  obtain b0 s1 where s: "s = b0 # s1" using assms(1) by (cases s) auto
  show ?thesis
    using assms(2) unfolding s
    by (cases s1; cases "tl s1"; cases "tl (tl s1)") (auto simp: rune_len_def between_def split: list.splits)
qed

lemma runes_before_ascii: "byte c < 0x80 \<Longrightarrow> runes (s @ c # t) = runes s @ runes (c # t)"
proof (induction s rule: runes.induct)
  case (1 s)
  show ?case
  proof (cases "s = []")
    case False
    have l: "rune_len (s @ c # t) = rune_len s"
      using rune_len_before_ascii [OF False 1(3)] .
    show ?thesis
    proof (cases "rune_len s = 0")
      case True
      then show ?thesis
        using False l 1(1) [OF False True 1(3)]
        by (subst (1 2) runes.simps) (cases s, auto)
    next
      case False': False
      then show ?thesis
        using False l 1(2) [OF False False' 1(3)] rune_len_le [of s]
        by (subst (1 2) runes.simps) auto
    qed
  qed simp
qed

lemma utf16_length_before_ascii: "byte c < 0x80 \<Longrightarrow> utf16_length (s @ c # t) = utf16_length s + 1 + utf16_length t"
  by (simp add: utf16_length_def runes_before_ascii runes_ascii)

section \<open>Cleaned paths\<close>

lemma abs_path_last:
  assumes "list_all name_part parts" "parts \<noteq> []"
  shows "last (abs_path parts) \<noteq> CHR ''/''"
proof -
  obtain xs x where p: "parts = xs @ [x]"
    using assms(2) by (cases parts rule: rev_cases) auto
  then have x: "x \<noteq> []" "CHR ''/'' \<notin> set x"
    using assms(1) by (simp_all add: name_part_def)
  have "abs_path parts = (if xs = [] then ''/'' else abs_path xs @ ''/'') @ x"
    by (simp add: p abs_path_def join_with_append)
  then have "last (abs_path parts) = last x"
    using x(1) by simp
  then show ?thesis
    using x last_in_set [OF x(1)] by metis
qed

lemma trim_clean_path:
  assumes "list_all name_part parts"
  shows "trim_suffix (abs_path parts) ''/'' = (if parts = [] then [] else abs_path parts)"
proof (cases "parts = []")
  case False
  have "\<not> has_suffix (abs_path parts) ''/''"
    using abs_path_last [OF assms False] by (auto simp: has_suffix_iff)
  then show ?thesis using False by (simp add: trim_suffix_def)
qed (simp add: abs_path_def trim_suffix_def has_suffix_def)

lemma within_abs_path:
  assumes "list_all name_part p" "list_all name_part q" "p \<noteq> []"
  shows "within (abs_path q) (abs_path p) \<longleftrightarrow> prefix p q"
  using abs_path_child [OF assms] abs_path_inj [OF assms(2,1)] by (auto simp: within_def strict_prefix_def)

lemma within_root:
  assumes "list_all name_part q" "q \<noteq> []"
  shows "\<not> within (abs_path q) ''/''"
proof
  assume "within (abs_path q) ''/''"
  then have "has_prefix (abs_path q) ''//''"
    using abs_path_root [OF assms(1)] assms(2) by (simp add: within_def)
  then obtain t where "abs_path q = ''/'' @ CHR ''/'' # t"
    by (auto simp: has_prefix_iff)
  then have "split_on (CHR ''/'') (abs_path q) = split_on (CHR ''/'') ''/'' @ split_on (CHR ''/'') t"
    by (simp only: split_on_append_sep)
  then have "q = [] # split_on (CHR ''/'') t"
    using split_abs_path [OF assms(1)] assms(2) by simp
  then show False
    using assms(1) by (simp add: name_part_def)
qed

section \<open>Owners\<close>

lemma hd_sort_key:
  assumes "sort_key f xs = y # ys"
  shows "y \<in> set xs" "x \<in> set xs \<Longrightarrow> f y \<le> f x"
proof -
  have s: "set (y # ys) = set xs" "sorted (map f (y # ys))"
    using assms by (metis set_sort, metis sorted_sort_key)
  then show "y \<in> set xs" by auto
  assume "x \<in> set xs"
  then have "x \<in> set (y # ys)" using s(1) by simp
  then show "f y \<le> f x" using s(2) by auto
qed

text \<open>A mount at a clean absolute destination, as the Docker Engine reports them.\<close>

definition clean_destination :: "mount \<Rightarrow> bool" where
  "clean_destination m \<longleftrightarrow> rooted (m_destination m) \<and> path_clean (m_destination m) = m_destination m"

lemma clean_destination_parts:
  assumes "clean_destination m"
  obtains q where "list_all name_part q" "m_destination m = abs_path q"
    "normalized_mount_path (m_destination m) = m_destination m"
proof -
  obtain q where q: "path_clean (m_destination m) = abs_path q" "list_all name_part q"
    using assms path_clean_rooted unfolding clean_destination_def by metis
  then have d: "m_destination m = abs_path q"
    using assms by (simp add: clean_destination_def)
  have "normalized_mount_path (m_destination m) = m_destination m"
    using q trim_clean_path [OF q(2)] d by (auto simp: normalized_mount_path_def abs_path_def Let_def)
  then show ?thesis using that q(2) d by blast
qed

text \<open>Of the mounts that contain a path, the longest destination is inside all the others.\<close>

lemma owner_deepest:
  assumes "list_all name_part p" "p \<noteq> []" "owners mounts (abs_path p) = m # ms" "list_all clean_destination mounts"
  shows "m \<in> set mounts" "within (abs_path p) (m_destination m)"
    "m' \<in> set mounts \<Longrightarrow> within (abs_path p) (m_destination m') \<Longrightarrow> within (m_destination m) (m_destination m')"
proof -
  have own: "m \<in> set mounts" "within (abs_path p) (normalized_mount_path (m_destination m))"
    using hd_sort_key(1) [OF assms(3) [unfolded owners_def]] by simp_all
  have len: "utf16_length (m_destination m') \<le> utf16_length (m_destination m)"
    if "m' \<in> set mounts" "within (abs_path p) (normalized_mount_path (m_destination m'))" for m'
    using hd_sort_key(2) [OF assms(3) [unfolded owners_def], of m'] that by simp
  obtain q where q: "list_all name_part q" "m_destination m = abs_path q" "normalized_mount_path (m_destination m) = m_destination m"
    by (rule clean_destination_parts [of m]) (use assms(4) own(1) in \<open>simp add: list_all_iff\<close>)
  show "m \<in> set mounts" "within (abs_path p) (m_destination m)"
    using own q(3) by simp_all
  have "q \<noteq> []"
    using own(2) q within_root [OF assms(1,2)] by (auto simp: abs_path_def)
  then have qp: "prefix q p"
    using own(2) q within_abs_path [OF q(1) assms(1)] by simp
  assume m': "m' \<in> set mounts" "within (abs_path p) (m_destination m')"
  obtain r where r: "list_all name_part r" "m_destination m' = abs_path r" "normalized_mount_path (m_destination m') = m_destination m'"
    by (rule clean_destination_parts [of m']) (use assms(4) m'(1) in \<open>simp add: list_all_iff\<close>)
  have "r \<noteq> []"
    using m'(2) r within_root [OF assms(1,2)] by (auto simp: abs_path_def)
  then have "prefix r p"
    using m'(2) r within_abs_path [OF r(1) assms(1)] by simp
  moreover have "\<not> strict_prefix q r"
  proof
    assume "strict_prefix q r"
    then have "has_prefix (abs_path r) (abs_path q @ ''/'')"
      using abs_path_child [OF q(1) r(1) \<open>q \<noteq> []\<close>] by simp
    then obtain t where "abs_path r = abs_path q @ CHR ''/'' # t"
      by (auto simp: has_prefix_iff)
    then have "utf16_length (abs_path q) < utf16_length (abs_path r)"
      by (simp add: utf16_length_before_ascii byte_def)
    then show False
      using len [of m'] m' q r by simp
  qed
  ultimately have "prefix r q"
    using qp prefix_same_cases strict_prefix_def by blast
  then show "within (m_destination m) (m_destination m')"
    using q r within_abs_path [OF r(1) q(1) \<open>r \<noteq> []\<close>] by simp
qed

section \<open>What is offered\<close>

definition offered :: "string list \<Rightarrow> mount list \<Rightarrow> string \<Rightarrow> bool" where
  "offered extra mounts p \<longleftrightarrow>
     (\<exists>parts. parts \<noteq> [] \<and> list_all name_part parts \<and> p = abs_path parts) \<and> \<not> sensitive_system_path extra p \<and>
     (case owners mounts p of [] \<Rightarrow> False | m # _ \<Rightarrow> safe_writable_data_mount extra m)"

lemma acceptable_offered:
  assumes "acceptable extra mounts paths v"
  shows "offered extra mounts (trim_suffix (path_clean v) ''/'')" "trim_suffix (path_clean v) ''/'' \<notin> set paths"
proof -
  have "rooted v"
    using assms by (auto simp: acceptable_def rooted_def has_prefix_iff)
  then obtain parts where c: "path_clean v = abs_path parts" "list_all name_part parts"
    using path_clean_rooted by blast
  then show "offered extra mounts (trim_suffix (path_clean v) ''/'')" "trim_suffix (path_clean v) ''/'' \<notin> set paths"
    using assms trim_clean_path [OF c(2)]
    by (auto simp: acceptable_def offered_def Let_def split: if_splits)
qed

lemma accepted_paths_offered:
  "list_all (offered extra mounts) paths \<Longrightarrow> distinct paths \<Longrightarrow>
     list_all (offered extra mounts) (accepted_paths extra mounts paths vs) \<and> distinct (accepted_paths extra mounts paths vs)"
  by (induction vs arbitrary: paths) (auto simp: acceptable_offered)

lemma data_roots_paths:
  "map r_path (data_roots extra game labels mounts) =
     take 8 (filter (outermost (accepted_paths extra mounts [] (candidates extra labels mounts)))
       (accepted_paths extra mounts [] (candidates extra labels mounts)))"
proof -
  have "map r_path (map (\<lambda>(i, p). \<lparr>r_id = f i, r_name = g p, r_path = p\<rparr>) (enumerate n xs)) = xs" for f g n xs
    by (induction xs arbitrary: n) simp_all
  then show ?thesis by (simp add: data_roots_def Let_def)
qed

text \<open>C21. Every root that is offered is a cleaned absolute path below the root directory, neither in,
  above nor equal to a protected or configured path, and its deepest mount, which is inside every
  other mount that contains the path, is a safe writable data mount: a label cannot get round a
  read-only or sensitive mount by naming what is above or below it. At most eight roots are offered,
  and none is inside another.\<close>

theorem data_roots_safe:
  assumes "list_all clean_destination mounts" "r \<in> set (data_roots extra game labels mounts)"
  shows "(\<exists>parts. parts \<noteq> [] \<and> list_all name_part parts \<and> r_path r = abs_path parts) \<and>
    (\<forall>s \<in> set (protected_paths @ extra). \<not> within (r_path r) s \<and> \<not> within s (r_path r)) \<and>
    (\<exists>m \<in> set mounts. safe_writable_data_mount extra m \<and> within (r_path r) (m_destination m) \<and>
       (\<forall>m' \<in> set mounts. within (r_path r) (m_destination m') \<longrightarrow> within (m_destination m) (m_destination m'))) \<and>
    length (data_roots extra game labels mounts) \<le> 8 \<and>
    (\<forall>r' \<in> set (data_roots extra game labels mounts). within (r_path r) (r_path r') \<longrightarrow> r_path r' = r_path r)"
proof -
  let ?paths = "accepted_paths extra mounts [] (candidates extra labels mounts)"
  have in_paths: "r_path r' \<in> set ?paths \<and> outermost ?paths (r_path r')" if "r' \<in> set (data_roots extra game labels mounts)" for r'
  proof -
    have "r_path r' \<in> set (map r_path (data_roots extra game labels mounts))"
      using that by simp
    then show ?thesis
      unfolding data_roots_paths by (auto dest: in_set_takeD)
  qed
  have "offered extra mounts (r_path r)"
    using accepted_paths_offered [of extra mounts "[]"] in_paths [OF assms(2)] by (auto simp: list_all_iff)
  then obtain parts m ms where p: "parts \<noteq> []" "list_all name_part parts" "r_path r = abs_path parts"
    and s: "\<not> sensitive_system_path extra (r_path r)"
    and m: "owners mounts (abs_path parts) = m # ms" "safe_writable_data_mount extra m"
    by (auto simp: offered_def split: list.splits)
  have "length (map r_path (data_roots extra game labels mounts)) \<le> 8"
    unfolding data_roots_paths by simp
  moreover have "\<forall>s \<in> set (protected_paths @ extra). \<not> within (r_path r) s \<and> \<not> within s (r_path r)"
    using s by (simp add: sensitive_system_path_def list_ex_iff)
  moreover have "\<forall>r' \<in> set (data_roots extra game labels mounts). within (r_path r) (r_path r') \<longrightarrow> r_path r' = r_path r"
    using in_paths in_paths [OF assms(2)] unfolding outermost_def list_ex_iff by blast
  ultimately show ?thesis
    using p m(2) owner_deepest [OF p(2,1) m(1) assms(1)] by (auto simp del: set_append)
qed

definition sample_mounts :: "mount list" where
  "sample_mounts =
     [\<lparr>m_type = ''bind'', m_source = ''/srv/game'', m_destination = ''/data'', m_writable = True, m_name = []\<rparr>,
      \<lparr>m_type = ''bind'', m_source = ''/srv/private'', m_destination = ''/data/private'', m_writable = False, m_name = []\<rparr>]"

lemma data_roots_safe_witness:
  "map r_path (data_roots [] ''custom'' [''ludock.files'' \<mapsto> ''/data,/etc,/data/private''] sample_mounts) = [''/data''] \<and>
     \<not> within ''/data'' ''/etc''"
proof -
  let ?rs = "data_roots [] ''custom'' [''ludock.files'' \<mapsto> ''/data,/etc,/data/private''] sample_mounts"
  have e: "list_all clean_destination sample_mounts" "map r_path ?rs = [''/data'']"
    by code_simp+
  then obtain r where r: "r \<in> set ?rs" "r_path r = ''/data''"
    by (cases ?rs) auto
  have "''/etc'' \<in> set (protected_paths @ [])"
    by (simp add: protected_paths_def)
  then show ?thesis
    using data_roots_safe [OF e(1) r(1)] e(2) r(2) by auto
qed

end
