(* ===== verification/ClientIP.thy ===== *)
theory ClientIP
  imports Identity
begin

text \<open>
  The address a request is counted under, \<open>src/internal/auth/clientip.go\<close>, with the parts of \<open>net/netip\<close>
  and \<open>net\<close> it uses: reading addresses, their canonical text, and prefixes. An address is its
  sixteen bytes.
\<close>

section \<open>Addresses\<close>

type_synonym ip_bytes = "nat list"

text \<open>\<open>parseIPv4Fields\<close>: four numbers up to 255, none empty or with a leading zero.\<close>

definition parse_octet :: "string \<Rightarrow> nat option" where
  "parse_octet f =
     (if f = [] \<or> \<not> list_all is_digit f \<or> 1 < length f \<and> hd f = CHR ''0'' \<or> 255 < parse_nat 10 f then None
      else Some (parse_nat 10 f))"

fun all_some :: "'a option list \<Rightarrow> 'a list option" where
  "all_some [] = Some []"
| "all_some (None # xs) = None"
| "all_some (Some x # xs) = map_option ((#) x) (all_some xs)"

definition parse_ipv4_fields :: "string \<Rightarrow> nat list option" where
  "parse_ipv4_fields s =
     (let fs = split_on (CHR ''.'') s in if length fs = 4 then all_some (map parse_octet fs) else None)"

definition hex_val :: "string \<Rightarrow> nat" where
  "hex_val s = foldl (\<lambda>n c. 16 * n + (if is_digit c then byte c - 48 else if 97 \<le> byte c then byte c - 87 else byte c - 55)) 0 s"

text \<open>
  \<open>parseIPv6\<close> after a leading ellipsis: the bytes so far, where the ellipsis is, and what is left of the
  text when sixteen bytes are full or the text ends.
\<close>

function ipv6_fields :: "string \<Rightarrow> ip_bytes \<Rightarrow> nat option \<Rightarrow> (ip_bytes \<times> nat option \<times> string) option" where
  "ipv6_fields s ip ellipsis =
     (if 16 \<le> length ip then Some (ip, ellipsis, s)
      else
        (let h = takeWhile is_hex s; r = drop (length h) s
         in if h = [] \<or> 4 < length h then None
            else if r \<noteq> [] \<and> hd r = CHR ''.'' then
              (if ellipsis = None \<and> length ip \<noteq> 12 \<or> 16 < length ip + 4 then None
               else map_option (\<lambda>q. (ip @ q, ellipsis, [])) (parse_ipv4_fields s))
            else
              (let ip' = ip @ [hex_val h div 256, hex_val h mod 256]
               in if r = [] then Some (ip', ellipsis, [])
                  else if hd r \<noteq> CHR '':'' \<or> length r = 1 then None
                  else if hd (tl r) = CHR '':'' then
                    (if ellipsis \<noteq> None then None
                     else if tl (tl r) = [] then Some (ip', Some (length ip'), [])
                     else ipv6_fields (tl (tl r)) ip' (Some (length ip')))
                  else ipv6_fields (tl r) ip' ellipsis)))"
  by pat_completeness auto
termination
  by (relation "measure (\<lambda>(s, _). length s)") (auto simp: Let_def)

declare ipv6_fields.simps [simp del]

definition parse_ipv6 :: "string \<Rightarrow> ip_bytes option" where
  "parse_ipv6 s =
     (let lead = has_prefix s ''::''; t = (if lead then drop 2 s else s)
      in if lead \<and> t = [] then Some (replicate 16 0)
         else
           (case ipv6_fields t [] (if lead then Some 0 else None) of
              None \<Rightarrow> None
            | Some (ip, ellipsis, rest) \<Rightarrow>
                if rest \<noteq> [] then None
                else if length ip < 16 then
                  (case ellipsis of
                     None \<Rightarrow> None
                   | Some e \<Rightarrow> Some (take e ip @ replicate (16 - length ip) 0 @ drop e ip))
                else if ellipsis \<noteq> None then None else Some ip))"

definition mapped_prefix :: ip_bytes where
  "mapped_prefix = replicate 10 0 @ [255, 255]"

definition is_4in6 :: "ip_bytes \<Rightarrow> bool" where
  "is_4in6 ip \<longleftrightarrow> take 12 ip = mapped_prefix"

text \<open>\<open>ParseAddr\<close>: the first dot or colon decides which form it is; an IPv4 address as its mapped form.\<close>

definition parse_addr :: "string \<Rightarrow> ip_bytes option" where
  "parse_addr s =
     (case find (\<lambda>c. c = CHR ''.'' \<or> c = CHR '':'' \<or> c = CHR ''%'') s of
        None \<Rightarrow> None
      | Some c \<Rightarrow>
          if c = CHR ''.'' then map_option ((@) mapped_prefix) (parse_ipv4_fields s)
          else if c = CHR '':'' then parse_ipv6 s else None)"

section \<open>Canonical text\<close>

definition dotted :: "nat list \<Rightarrow> string" where
  "dotted q = join_with ''.'' (map itoa q)"

definition hex_group :: "nat \<Rightarrow> string" where
  "hex_group n =
     (if 4096 \<le> n then [hex_low (n div 4096)] else []) @ (if 256 \<le> n then [hex_low (n div 256 mod 16)] else []) @
     (if 16 \<le> n then [hex_low (n div 16 mod 16)] else []) @ [hex_low (n mod 16)]"

definition groups_of :: "ip_bytes \<Rightarrow> nat list" where
  "groups_of ip = map (\<lambda>i. ip ! (2 * i) * 256 + ip ! (2 * i + 1)) [0..<8]"

text \<open>The longest run of at least two zero groups, the first of equals: its start and its end.\<close>

definition zero_run :: "nat list \<Rightarrow> nat \<Rightarrow> nat" where
  "zero_run gs i = length (takeWhile (\<lambda>g. g = 0) (drop i gs))"

fun longest_run :: "nat list \<Rightarrow> nat list \<Rightarrow> nat \<times> nat \<Rightarrow> nat \<times> nat" where
  "longest_run gs [] best = best"
| "longest_run gs (i # is) best =
     (let l = zero_run gs i in longest_run gs is (if 2 \<le> l \<and> snd best - fst best < l then (i, i + l) else best))"

fun ipv6_groups :: "nat list \<Rightarrow> string" where
  "ipv6_groups gs = join_with '':'' (map hex_group gs)"

definition ipv6_text :: "ip_bytes \<Rightarrow> string" where
  "ipv6_text ip =
     (let gs = groups_of ip; (start, stop) = longest_run gs [0..<8] (255, 255)
      in if start = 255 then ipv6_groups gs
         else ipv6_groups (take start gs) @ ''::'' @ ipv6_groups (drop stop gs))"

text \<open>\<open>Addr.String\<close>, and of the unmapped address where it is one.\<close>

definition address_text :: "ip_bytes \<Rightarrow> string" where
  "address_text ip = (if is_4in6 ip then dotted (drop 12 ip) else ipv6_text ip)"

section \<open>Literals\<close>

record ip_address =
  ip_text :: string
  ip_value :: ip_bytes
  ip_bits :: nat

definition small_number :: "string \<Rightarrow> bool" where
  "small_number f \<longleftrightarrow> f = ''0'' \<or> f \<noteq> [] \<and> length f \<le> 3 \<and> list_all is_digit f \<and> hd f \<noteq> CHR ''0''"

definition ipv4_literal :: "string \<Rightarrow> bool" where
  "ipv4_literal s \<longleftrightarrow> (let fs = split_on (CHR ''.'') s in length fs = 4 \<and> list_all small_number fs)"

definition ipv6_literal :: "string \<Rightarrow> bool" where
  "ipv6_literal s \<longleftrightarrow> s \<noteq> [] \<and> list_all (\<lambda>c. is_hex c \<or> c = CHR '':'' \<or> c = CHR ''.'') s"

definition parse_ip :: "string \<Rightarrow> ip_address option" where
  "parse_ip v =
     (if ipv4_literal v then map_option (\<lambda>ip. \<lparr>ip_text = v, ip_value = ip, ip_bits = 32\<rparr>) (parse_addr v)
      else if CHR '':'' \<notin> set v \<or> \<not> ipv6_literal v then None
      else if find (\<lambda>c. c = CHR ''.'' \<or> c = CHR '':'') v = Some (CHR ''.'') then None
      else map_option (\<lambda>ip. \<lparr>ip_text = address_text ip, ip_value = ip, ip_bits = 128\<rparr>) (parse_addr v))"

section \<open>Trusted proxies\<close>

type_synonym prefix = "ip_bytes \<times> nat"

definition bits_of_byte :: "nat \<Rightarrow> bool list" where
  "bits_of_byte b = map (\<lambda>k. odd (b div 2 ^ k)) [7, 6, 5, 4, 3, 2, 1, 0]"

definition ip_bit_list :: "ip_bytes \<Rightarrow> bool list" where
  "ip_bit_list ip = concat (map bits_of_byte ip)"

definition contains :: "prefix \<Rightarrow> ip_bytes \<Rightarrow> bool" where
  "contains p ip \<longleftrightarrow> take (snd p) (ip_bit_list ip) = take (snd p) (ip_bit_list (fst p))"

definition parse_proxy :: "string \<Rightarrow> prefix option" where
  "parse_proxy entry =
     (let parts = split_on (CHR ''/'') (trim_space entry)
      in case parse_ip (hd parts) of
           None \<Rightarrow> None
         | Some ip \<Rightarrow>
             if 2 < length parts then None
             else if length parts = 2 then
               (if \<not> small_number (parts ! 1) \<or> ip_bits ip < parse_nat 10 (parts ! 1) then None
                else Some (ip_value ip, parse_nat 10 (parts ! 1) + 128 - ip_bits ip))
             else Some (ip_value ip, 128))"

definition new_client_ip :: "string \<Rightarrow> prefix list option" where
  "new_client_ip configured =
     (if trim_space configured = [] then Some [] else all_some (map parse_proxy (split_on (CHR '','') configured)))"

definition is_trusted :: "prefix list \<Rightarrow> ip_address \<Rightarrow> bool" where
  "is_trusted trusted ip \<longleftrightarrow> list_ex (\<lambda>p. contains p (ip_value ip)) trusted"

text \<open>The walk over the hops from the right: \<open>None\<close> where a trusted hop named something malformed.\<close>

fun walk_hops :: "prefix list \<Rightarrow> ip_address \<Rightarrow> string list \<Rightarrow> ip_address option" where
  "walk_hops trusted current [] = Some current"
| "walk_hops trusted current (h # hs) =
     (if \<not> is_trusted trusted current then Some current
      else (case parse_ip (trim_space h) of None \<Rightarrow> None | Some next' \<Rightarrow> walk_hops trusted next' hs))"

definition resolve_client :: "prefix list \<Rightarrow> string \<Rightarrow> string \<Rightarrow> string" where
  "resolve_client trusted forwarded peer_address =
     (if peer_address = [] then []
      else
        (case parse_ip peer_address of
           None \<Rightarrow> peer_address
         | Some peer \<Rightarrow>
             if \<not> is_trusted trusted peer \<or> forwarded = [] then ip_text peer
             else
               (let hops = split_on (CHR '','') forwarded
                in if 32 < length hops then ip_text peer
                   else (case walk_hops trusted peer (rev hops) of None \<Rightarrow> ip_text peer | Some ip \<Rightarrow> ip_text ip))))"

text \<open>\<open>net.SplitHostPort\<close>: the host, or \<open>None\<close> on an error.\<close>

definition split_host_port :: "string \<Rightarrow> string option" where
  "split_host_port v =
     (if CHR '':'' \<notin> set v then None
      else
        (let i = length v - 1 - length (takeWhile (\<lambda>c. c \<noteq> CHR '':'') (rev v))
         in if hd v = CHR ''['' then
              (let close = length (takeWhile (\<lambda>c. c \<noteq> CHR '']'') v)
               in if close = length v \<or> close + 1 \<noteq> i then None
                  else if CHR ''['' \<in> set (drop 1 v) \<or> CHR '']'' \<in> set (drop (close + 1) v) then None
                  else Some (take (close - 1) (drop 1 v)))
            else if CHR '':'' \<in> set (take i v) then None
            else if CHR ''['' \<in> set v \<or> CHR '']'' \<in> set v then None
            else Some (take i v)))"

definition request_client :: "prefix list \<Rightarrow> string \<Rightarrow> string \<Rightarrow> string" where
  "request_client trusted forwarded remote =
     resolve_client trusted forwarded (case split_host_port remote of None \<Rightarrow> remote | Some host \<Rightarrow> host)"

section \<open>The walk\<close>

lemma walk_untrusted [simp]: "\<not> is_trusted trusted a \<Longrightarrow> walk_hops trusted a hs = Some a"
  by (cases hs) simp_all

definition trusted_hop :: "prefix list \<Rightarrow> string \<Rightarrow> bool" where
  "trusted_hop trusted h \<longleftrightarrow> (case parse_ip (trim_space h) of None \<Rightarrow> False | Some ip \<Rightarrow> is_trusted trusted ip)"

text \<open>The hop the source is read from: the first from the right that no trusted proxy vouches past,
  or, where every hop is a trusted proxy, the one furthest to the left.\<close>

definition source_hop :: "prefix list \<Rightarrow> string list \<Rightarrow> string" where
  "source_hop trusted hops =
     (case dropWhile (trusted_hop trusted) (rev hops) of [] \<Rightarrow> hd hops | h # _ \<Rightarrow> h)"

lemma walk_hops_source:
  "is_trusted trusted current \<Longrightarrow> hops \<noteq> [] \<Longrightarrow>
     walk_hops trusted current hops = parse_ip (trim_space (source_hop trusted (rev hops)))"
proof (induction hops arbitrary: current)
  case (Cons h hs)
  show ?case
  proof (cases "trusted_hop trusted h")
    case True
    then obtain a where a: "parse_ip (trim_space h) = Some a" "is_trusted trusted a"
      by (auto simp: trusted_hop_def split: option.splits)
    show ?thesis
    proof (cases "hs = []")
      case False
      have "source_hop trusted (rev (h # hs)) = source_hop trusted (rev hs)"
      proof (cases "list_all (trusted_hop trusted) hs")
        case all: True
        then have "dropWhile (trusted_hop trusted) (rev (rev hs)) = []"
            "dropWhile (trusted_hop trusted) (rev (rev (h # hs))) = []"
          using True by (simp_all only: dropWhile_eq_Nil_conv) (auto simp: list_all_iff)
        then show ?thesis using False by (simp only: source_hop_def list.case) (simp add: hd_append)
      next
        case False
        then obtain y ys where "dropWhile (trusted_hop trusted) hs = y # ys"
          by (metis dropWhile_eq_Nil_conv list.exhaust list_all_iff)
        then show ?thesis using True by (simp add: source_hop_def)
      qed
      then show ?thesis using Cons False a by simp
    qed (use True a Cons.prems in \<open>simp add: source_hop_def\<close>)
  next
    case False
    then show ?thesis
      using Cons.prems by (auto simp: source_hop_def trusted_hop_def split: option.splits)
  qed
qed simp

lemma source_hop_prefix:
  "\<not> list_all (trusted_hop trusted) hops \<Longrightarrow> source_hop trusted (client @ hops) = source_hop trusted hops"
proof -
  assume "\<not> list_all (trusted_hop trusted) hops"
  then have "\<exists>h \<in> set (rev hops). \<not> trusted_hop trusted h" by (simp add: list_all_iff)
  then have "dropWhile (trusted_hop trusted) (rev hops @ rev client) =
      dropWhile (trusted_hop trusted) (rev hops) @ rev client \<and> dropWhile (trusted_hop trusted) (rev hops) \<noteq> []"
    by (auto simp: dropWhile_append)
  then show ?thesis
    by (auto simp: source_hop_def split: list.splits)
qed

lemma split_on_join: "split_on c (s @ c # t) = split_on c s @ split_on c t"
  by (induction c s rule: split_on.induct) (auto split: list.splits)

lemma parse_ip_Nil: "parse_ip [] = None" "trim_space [] = []"
  by code_simp+

lemma resolve_client_source:
  assumes "parse_ip peer = Some p"
  shows "resolve_client trusted forwarded peer =
    (if \<not> is_trusted trusted p \<or> forwarded = [] \<or> 32 < length (split_on (CHR '','') forwarded) then ip_text p
     else (case parse_ip (trim_space (source_hop trusted (split_on (CHR '','') forwarded))) of
             None \<Rightarrow> ip_text p
           | Some a \<Rightarrow> ip_text a))"
proof -
  have "peer \<noteq> []" using assms parse_ip_Nil by auto
  then show ?thesis
    using assms walk_hops_source [of trusted p "rev (split_on (CHR '','') forwarded)"]
    by (simp add: resolve_client_def Let_def)
qed

text \<open>C22. For every forwarding header and every literal peer address: a peer that is not a trusted
  proxy is its own source whatever it sends, and so is a trusted one that sends no header or one of
  more than 32 hops. Otherwise the source is the first hop from the right that is not a trusted
  proxy (the leftmost when all are), or the peer when that hop is not an address. So text that the
  client puts before hops of which one is not a trusted proxy's cannot name a source: the source
  stays the same, or becomes the peer where the header has now more than 32 hops.\<close>

theorem client_cannot_choose_source:
  assumes "parse_ip peer = Some p"
  shows "resolve_client trusted forwarded peer =
      (if \<not> is_trusted trusted p \<or> forwarded = [] \<or> 32 < length (split_on (CHR '','') forwarded) then ip_text p
       else (case parse_ip (trim_space
               (case dropWhile (trusted_hop trusted) (rev (split_on (CHR '','') forwarded)) of
                  [] \<Rightarrow> hd (split_on (CHR '','') forwarded)
                | h # _ \<Rightarrow> h)) of
               None \<Rightarrow> ip_text p
             | Some a \<Rightarrow> ip_text a)) \<and>
    (\<not> list_all (trusted_hop trusted) (split_on (CHR '','') forwarded) \<longrightarrow>
      resolve_client trusted (client @ '','' @ forwarded) peer =
        (if 32 < length (split_on (CHR '','') (client @ '','' @ forwarded)) then ip_text p
         else resolve_client trusted forwarded peer))"
proof -
  have split: "split_on (CHR '','') (client @ CHR '','' # forwarded) =
      split_on (CHR '','') client @ split_on (CHR '','') forwarded"
    by (rule split_on_join)
  have "resolve_client trusted (client @ CHR '','' # forwarded) peer =
        (if 32 < length (split_on (CHR '','') (client @ CHR '','' # forwarded)) then ip_text p
         else resolve_client trusted forwarded peer)"
    if "\<not> list_all (trusted_hop trusted) (split_on (CHR '','') forwarded)"
  proof -
    have "source_hop trusted (split_on (CHR '','') (client @ CHR '','' # forwarded)) =
        source_hop trusted (split_on (CHR '','') forwarded)"
      unfolding split by (rule source_hop_prefix [OF that])
    moreover have "source_hop trusted (split_on (CHR '','') []) = []"
      by (simp add: source_hop_def trusted_hop_def parse_ip_Nil)
    moreover have "length (split_on (CHR '','') forwarded) \<le> length (split_on (CHR '','') (client @ CHR '','' # forwarded))"
      unfolding split by simp
    ultimately show ?thesis
      unfolding resolve_client_source [OF assms] by (auto simp: parse_ip_Nil)
  qed
  then show ?thesis
    by (simp add: resolve_client_source [OF assms] source_hop_def)
qed

lemma client_cannot_choose_source_witness:
  "resolve_client [the (parse_proxy ''10.0.0.0/8'')] ''spoofed,203.0.113.1, 10.0.0.3'' ''10.0.0.2'' = ''203.0.113.1''"
proof -
  let ?t = "[the (parse_proxy ''10.0.0.0/8'')]"
  have e: "parse_ip ''10.0.0.2'' = Some (the (parse_ip ''10.0.0.2'')) \<and>
      is_trusted ?t (the (parse_ip ''10.0.0.2'')) \<and> trusted_hop ?t '' 10.0.0.3'' \<and>
      \<not> trusted_hop ?t ''203.0.113.1'' \<and>
      map_option ip_text (parse_ip (trim_space ''203.0.113.1'')) = Some ''203.0.113.1''"
    by code_simp
  then obtain p a where p: "parse_ip ''10.0.0.2'' = Some p" "is_trusted ?t p"
      and a: "parse_ip (trim_space ''203.0.113.1'') = Some a" "ip_text a = ''203.0.113.1''"
    by auto
  have "split_on (CHR '','') ''spoofed,203.0.113.1, 10.0.0.3'' = [''spoofed'', ''203.0.113.1'', '' 10.0.0.3'']"
    by code_simp
  then show ?thesis
    using client_cannot_choose_source [OF p(1), of ?t "''spoofed,203.0.113.1, 10.0.0.3''" "[]"] e p(2) a
    by (simp del: list.simps(8))
qed

section \<open>One source, one text\<close>

lemma digit_char_val: "is_digit c \<Longrightarrow> digit_char (digit_val c) = c"
  by (simp add: is_digit_def digit_char_def digit_val_def)

lemma digit_val_less: "is_digit c \<Longrightarrow> digit_val c < 10"
  unfolding is_digit_def digit_val_def by linarith

lemma digit_char_0: "digit_char 0 = CHR ''0''"
  by code_simp

lemma digit_val_pos: "is_digit c \<Longrightarrow> c \<noteq> CHR ''0'' \<Longrightarrow> 0 < digit_val c"
  using digit_char_val [of c] digit_char_0 by (cases "digit_val c = 0") simp_all

lemma itoa_0: "itoa 0 = ''0''"
  by (subst format_nat.simps) (simp add: digit_char_0)

lemma itoa_parse_nat:
  assumes "list_all is_digit f" "f \<noteq> []" "hd f \<noteq> CHR ''0''"
  shows "0 < parse_nat 10 f \<and> itoa (parse_nat 10 f) = f"
  using assms
proof (induction f rule: rev_induct)
  case (snoc c g)
  show ?case
  proof (cases "g = []")
    case True
    then show ?thesis
      using snoc.prems digit_char_val [of c] digit_val_less [of c] digit_val_pos [of c]
      by (subst format_nat.simps) (simp add: parse_nat_def)
  next
    case False
    then have g: "0 < parse_nat 10 g" "itoa (parse_nat 10 g) = g"
      using snoc by simp_all
    then show ?thesis
      using snoc.prems digit_char_val [of c] digit_val_less [of c]
      by (subst format_nat.simps) simp
  qed
qed simp

lemma small_number_text: "small_number f \<Longrightarrow> parse_octet f = Some n \<Longrightarrow> itoa n = f"
  using itoa_parse_nat [of f] by (auto simp: small_number_def parse_octet_def parse_nat_def digit_val_def itoa_0 split: if_splits)

lemma all_some_length: "all_some xs = Some ys \<Longrightarrow> length ys = length xs"
  by (induction xs arbitrary: ys rule: all_some.induct) auto

lemma all_some_texts:
  "all_some (map parse_octet fs) = Some ns \<Longrightarrow> list_all small_number fs \<Longrightarrow> map itoa ns = fs"
proof (induction fs arbitrary: ns)
  case (Cons f fs)
  obtain n where n: "parse_octet f = Some n"
    using Cons.prems(1) by (cases "parse_octet f") auto
  obtain ms where m: "all_some (map parse_octet fs) = Some ms" "ns = n # ms"
    using Cons.prems(1) n by (cases "all_some (map parse_octet fs)") auto
  show ?case
    using Cons.IH [OF m(1)] Cons.prems(2) small_number_text [OF _ n] m(2) by simp
qed simp

lemma find_after_digits:
  "list_all is_digit f \<Longrightarrow>
     find (\<lambda>c. c = CHR ''.'' \<or> c = CHR '':'' \<or> c = CHR ''%'') (f @ CHR ''.'' # r) = Some (CHR ''.'')"
  by (induction f) (auto simp: is_digit_def)

lemma literal_first:
  assumes "ipv4_literal v"
  shows "find (\<lambda>c. c = CHR ''.'' \<or> c = CHR '':'' \<or> c = CHR ''%'') v = Some (CHR ''.'')"
proof -
  obtain f g fs where fs: "split_on (CHR ''.'') v = f # g # fs" "small_number f"
    using assms by (auto simp: ipv4_literal_def Let_def numeral_eq_Suc length_Suc_conv)
  have "v = join_with ''.'' (split_on (CHR ''.'') v)"
    by (simp add: join_split)
  then have "v = f @ CHR ''.'' # join_with ''.'' (g # fs)"
    by (simp add: fs(1))
  moreover have "list_all is_digit f"
    using fs(2) by (auto simp: small_number_def is_digit_def)
  ultimately show ?thesis
    using find_after_digits by metis
qed

lemma literal_text:
  assumes "ipv4_literal v" "parse_addr v = Some ip"
  shows "address_text ip = v"
proof -
  let ?fs = "split_on (CHR ''.'') v"
  have fs: "length ?fs = 4" "list_all small_number ?fs"
    using assms(1) by (simp_all add: ipv4_literal_def Let_def)
  have v: "v = join_with ''.'' ?fs"
    by (simp add: join_split)
  have "find (\<lambda>c. c = CHR ''.'' \<or> c = CHR '':'' \<or> c = CHR ''%'') v = Some (CHR ''.'')"
    by (rule literal_first [OF assms(1)])
  then obtain q where q: "all_some (map parse_octet ?fs) = Some q" "ip = mapped_prefix @ q"
    using assms(2) fs(1) by (auto simp: parse_addr_def parse_ipv4_fields_def Let_def)
  then show ?thesis
    using all_some_texts [OF q(1) fs(2)] v by (simp add: address_text_def is_4in6_def mapped_prefix_def dotted_def)
qed

text \<open>C23. Two literals for one address are counted as one source: an IPv4 address, its IPv4-mapped IPv6
  form in any spelling, and every spelling of an IPv6 address have the same canonical text.\<close>

theorem same_source_same_text:
  assumes "parse_ip s = Some a" "parse_ip t = Some b" "ip_value a = ip_value b"
  shows "ip_text a = ip_text b"
proof -
  have "ip_text c = address_text (ip_value c)" if "parse_ip u = Some c" for u c
    using that literal_text [of u] by (auto simp: parse_ip_def split: if_splits)
  then show ?thesis
    using assms by metis
qed

lemma sample_fields:
  "ipv6_fields ''7101'' [255, 255, 203, 0] (Some 0) = Some ([255, 255, 203, 0, 113, 1], Some 0, [])"
  "ipv6_fields ''cb00:7101'' [255, 255] (Some 0) = Some ([255, 255, 203, 0, 113, 1], Some 0, [])"
  "ipv6_fields ''FFFF:cb00:7101'' [] (Some 0) = Some ([255, 255, 203, 0, 113, 1], Some 0, [])"
proof -
  note hex = is_hex_def is_digit_def byte_def hex_val_def Let_def
  show 1: "ipv6_fields ''7101'' [255, 255, 203, 0] (Some 0) = Some ([255, 255, 203, 0, 113, 1], Some 0, [])"
    by (subst ipv6_fields.simps) (simp add: hex)
  show 2: "ipv6_fields ''cb00:7101'' [255, 255] (Some 0) = Some ([255, 255, 203, 0, 113, 1], Some 0, [])"
    by (subst ipv6_fields.simps) (simp add: hex 1)
  show "ipv6_fields ''FFFF:cb00:7101'' [] (Some 0) = Some ([255, 255, 203, 0, 113, 1], Some 0, [])"
    by (subst ipv6_fields.simps) (simp add: hex 2)
qed

lemma sample_mapped:
  "parse_ip ''::FFFF:cb00:7101'' =
     Some \<lparr>ip_text = address_text (mapped_prefix @ [203, 0, 113, 1]), ip_value = mapped_prefix @ [203, 0, 113, 1], ip_bits = 128\<rparr>"
proof -
  have "\<not> ipv4_literal ''::FFFF:cb00:7101''"
    by (simp add: ipv4_literal_def)
  moreover have "ipv6_literal ''::FFFF:cb00:7101''"
    by (simp add: ipv6_literal_def is_hex_def is_digit_def byte_def)
  moreover have "parse_addr ''::FFFF:cb00:7101'' = Some (mapped_prefix @ [203, 0, 113, 1])"
    by (simp add: parse_addr_def parse_ipv6_def has_prefix_def sample_fields mapped_prefix_def)
  ultimately show ?thesis
    by (simp add: parse_ip_def)
qed

lemma sample_dotted:
  "parse_ip ''203.0.113.1'' = Some \<lparr>ip_text = ''203.0.113.1'', ip_value = mapped_prefix @ [203, 0, 113, 1], ip_bits = 32\<rparr>"
  by code_simp

lemma same_source_same_text_witness:
  "map_option ip_text (parse_ip ''::FFFF:cb00:7101'') = Some ''203.0.113.1''"
  using same_source_same_text [OF sample_dotted sample_mapped] by (simp add: sample_mapped)

end
