(* ===== verification/Spec2Isabelle.thy ===== *)
theory Spec2Isabelle
  imports Locks Redact NetConsole Telnet DockerStream SchedTime AuthService PasswordWork Bindings Authz TarProofs Operations ScheduleProofs
    DataRoots ClientIP
begin

text \<open>
  A verification library of Ludock, the panel that manages game servers in Docker containers.
  Sources are named as under \<open>src/internal\<close>.

  \<^bold>\<open>The program.\<close> A request is authenticated (\<open>auth\<close>, over the tables of \<open>db\<close>), the actor's
  capabilities on a logical server are computed (\<open>authz\<close>, over the bindings of \<open>identity\<close>), and
  work on containers runs under locks (\<open>locks\<close>): consoles over Docker streams and network
  protocols (\<open>docker\<close>, \<open>netconsole\<close>, \<open>console\<close>), and backups as tar archives (\<open>tarstream\<close>).
  Longer work is an operation of the runner (\<open>ops\<close>), queued by a request or by a stored schedule
  (\<open>schedules\<close>, by the clock of \<open>schedtime\<close>) with the authority of its owner at that moment.

  \<^bold>\<open>Shared theories.\<close> \<open>Base\<close>: Go's strings (lists of bytes), the sum of errors and results, numbers
  in text, white space. \<open>Utf8\<close>: runes, validity, \<open>textutil.Length\<close>. \<open>GoPath\<close>: \<open>path.Clean\<close>.
  \<open>Json\<close>: \<open>encoding/json\<close> for stored columns. \<open>Chunks\<close>: the locale \<open>chunked\<close>, a consumer of a
  stream whose result does not depend on the chunks; it is interpreted for the redactor, the
  Docker demultiplexer and the Telnet decoder. \<open>Civil\<close>: dates. \<open>Database\<close>: the tables of
  \<open>db/migrations.go\<close>, their constraints and cascades, transactions with roll back, the audit log;
  an operation maps a database to a database and an error or a result, and the rules \<open>db_keeps\<close>
  carry an invariant through the structure of an operation.

  \<^bold>\<open>Components.\<close>
    \<^item> \<open>Locks\<close> (\<open>locks/locks.go\<close>): the table of keys, leases, pre-emption, release and drain signals,
      as a step relation; mutual exclusion, all-or-none acquisition, no lost wake-up.
    \<^item> \<open>Redact\<close> (\<open>console/redact.go\<close>): streaming removal of secrets equals removal from the whole text.
    \<^item> \<open>NetConsole\<close>, \<open>Telnet\<close> (\<open>netconsole/netconsole.go\<close>): the RCON and Telnet sessions, frames and
      their round trip, bounds on what a server can make the panel keep.
    \<^item> \<open>DockerStream\<close> (\<open>docker/stream.go\<close>): demultiplexing and JSON lines against reference functions.
    \<^item> \<open>SchedTime\<close> (\<open>schedtime/schedtime.go\<close>): the next run of a schedule is the first due minute, over
      any time zone data.
    \<^item> \<open>Accounts\<close>, \<open>AuthService\<close>, \<open>PasswordWork\<close> (\<open>db/accounts.go\<close>, \<open>auth/service.go\<close>, \<open>auth/setup.go\<close>,
      \<open>auth/password.go\<close>): every query and transaction on accounts, and the service above them with
      other requests running in between; the bound on concurrent hashing is proved once in the
      locale \<open>counters\<close>.
    \<^item> \<open>Identity\<close>, \<open>Bindings\<close> (\<open>identity/identity.go\<close>): observations, external identities, snapshots and
      reviews. A snapshot moves each row by a function of that row (\<open>moved\<close>); runs of snapshots and
      reviews are \<open>fleet_runs\<close>. A revision pins a binding, a review is the only way to accept another.
    \<^item> \<open>Authz\<close> (\<open>authz/authz.go\<close>): access against the relation \<open>allowed\<close>, the bulk query against the
      single one, and the exact effect of assigning grants.
    \<^item> \<open>Tar\<close>, \<open>TarProofs\<close> (\<open>tarstream/tarstream.go\<close>): header blocks, PAX records and the walk; an archive
      is read back as it was written, and a cut-off one is an error.

    \<^item> \<open>JsonCodec\<close>, \<open>Recovery\<close> (\<open>ops/ops.go\<close>): documents that are written and read back unchanged, and the
      recovery state of an operation as one of them.
    \<^item> \<open>Jobs\<close>, \<open>Runner\<close> (\<open>ops/ops.go\<close>): rows, queueing with request keys, and the statements that move
      an operation; the runner as the step relation \<open>runner_step\<close> over its workers, lanes and claims,
      with crash and restart. \<open>RunnerProofs\<close> has the invariant and what no step takes back
      (\<open>extends\<close>, \<open>touches\<close>, \<open>spares\<close>); \<open>Operations\<close>: one active operation per server, no operation run
      again after its end or a crash, a request done once, progress that survives a restart.
    \<^item> \<open>ScheduleInput\<close>, \<open>Schedules\<close> (\<open>schedules/input.go\<close>, \<open>schedules/schedules.go\<close>): settings and their
      strict decoder, authority, management, runs and warnings. \<open>ScheduleProofs\<close>: a run is queued only
      with the owner's authority in the database it commits to, and a slot only once, over all that
      the runner does in between.

    \<^item> \<open>DataRoots\<close> (\<open>files/roots.go\<close>): the directories of a container that may be browsed; each is clean, apart
      from every protected path, and owned by its deepest mount.
    \<^item> \<open>ClientIP\<close> (\<open>auth/clientip.go\<close>): address literals with the parts of \<open>net/netip\<close> they need, trusted
      proxies, and the source of a request, which a client cannot choose.

  \<^bold>\<open>Bounds and fuel.\<close> Recursion is structural or has a measure. \<open>Json.parse_value\<close> (and
  \<open>ScheduleInput.first_json\<close>) takes fuel of twice the document's length, enough because every second
  call consumes a character; the scan of \<open>SchedTime.next_run\<close> covers the sixteen days the code looks
  at; the length of a PAX record is found by \<open>while_option\<close>, which is proved to end.

  \<^bold>\<open>Parameters.\<close> What is not under \<open>src/\<close> or random is an argument: password hashing, the keyed
  fingerprint, the digest of request keys, new tokens and UUIDs, the time zone database, the clock,
  floating-point text conversion of modification times, and the Docker Engine behind a stream. So is
  what other requests do between a check and the transaction that acts on it (\<open>y_others\<close> of
  \<open>schedule_env\<close> and its like), and, for the runner, what a handler does to the database.

  \<^bold>\<open>Not modelled.\<close> SQLite failures and cancelled contexts, log lines, goroutine scheduling beyond the
  interleavings stated, the HTTP handlers and generated views, and the Docker client. The check
  of a request's origin rests on the parser of \<open>net/url\<close>. The handlers of jobs, backup storage,
  files, console sessions and monitoring are for the most part calls to the Docker Engine and to
  helper processes; the runner, the locks, the archive format and the protocols they rest on are
  modelled above, their own steps are not.
\<close>

end
